(* ===== verification/Clover_Prelude.thy ===== *)
theory Clover_Prelude
  imports Main "HOL-Library.Word" "HOL-Library.Monad_Syntax"
begin

unbundle bit_operations_syntax

text \<open>
  Shared vocabulary of the development: the fixed-width types of the firmware
  code, the status codes of the UEFI interface, the collections of rewrite rules
  used across the components, and the generic facts on lists and words that the
  component theories rely on.
\<close>

section \<open>Types\<close>

text \<open>
  \<open>UINT8\<close>, \<open>char16_t\<close>, \<open>char32_t\<close> and the 64-bit \<open>UINTN\<close>/\<open>INTN\<close> of an X64 build.
  Signed and unsigned 64-bit quantities share the type; a signed reading is
  \<open>sint\<close>.
\<close>

type_synonym byte = "8 word"
type_synonym char16 = "16 word"
type_synonym char32 = "32 word"
type_synonym uintn = "64 word"
type_synonym intn = "64 word"

text \<open>The \<open>EFI_STATUS\<close> values the modelled code returns.\<close>

datatype efi_status =
    EFI_SUCCESS
  | EFI_INVALID_PARAMETER
  | EFI_UNSUPPORTED
  | EFI_BAD_BUFFER_SIZE
  | EFI_BUFFER_TOO_SMALL
  | EFI_OUT_OF_RESOURCES
  | EFI_ACCESS_DENIED

section \<open>Collections of rules\<close>

named_theorems len_simps \<open>lengths and sizes of what the operations build\<close>
named_theorems codec_simps \<open>decoding what was encoded\<close>
named_theorems repr_simps \<open>abstraction of a concrete representation\<close>

section \<open>Lists\<close>

lemma nth_eqI_take:
  "i < n \<Longrightarrow> take n xs = take n ys \<Longrightarrow> xs ! i = ys ! i"
  by (metis nth_take)

lemma take_list_update_snoc [simp]:
  "i < length xs \<Longrightarrow> take (Suc i) (xs[i := v]) = take i xs @ [v]"
  by (simp add: take_Suc_conv_app_nth)

section \<open>Words\<close>

lemma unat_byte_less [simp]: "unat (w :: byte) < 256"
  using unsigned_less [of w, where ?'a = nat] by simp

lemma bit_byte_less: "bit (w :: byte) n \<Longrightarrow> n < 8"
  using bit_imp_le_length [of w n] by simp

lemma bit_byte_high [simp]: "8 \<le> n \<Longrightarrow> \<not> bit (w :: byte) n"
  using bit_byte_less [of w n] by auto

lemma map_window:
  assumes "p + w \<le> length xs"
  shows "map (\<lambda>j. if p \<le> j \<and> j < p + w then f j else xs ! j) [0..<length xs] =
    take p xs @ map (\<lambda>i. f (p + i)) [0..<w] @ drop (p + w) xs"
  by (rule nth_equalityI) (use assms in \<open>auto simp: nth_append not_less\<close>)

lemma unat_of_nat_small:
  "n < 2 ^ LENGTH('a) \<Longrightarrow> unat (word_of_nat n :: 'a :: len word) = n"
  by (simp add: unsigned_of_nat take_bit_nat_eq_self)

text \<open>The value of a computation on \<open>UINT32\<close>.\<close>

definition u32 :: "nat \<Rightarrow> nat" where
  "u32 n = unat (word_of_nat n :: 32 word)"

lemma u32_small [simp]: "n < 2 ^ 32 \<Longrightarrow> u32 n = n"
  by (simp add: u32_def unat_of_nat_small)

end
