(* ===== verification/Base64_Codec.thy ===== *)
theory Base64_Codec
  imports Clover_Prelude
begin

text \<open>
  The base64 decoder of \<open>Platform/b64cdecode.cpp\<close> and the encoder of
  \<open>Platform/plist/base64.cpp\<close>. The decoder works on an explicit output buffer
  with a write position, exactly as the pointer \<open>plainchar\<close> walks through
  \<open>plaintext_out\<close>; an access outside the buffer is the value \<open>None\<close>. It is
  shown never to leave the buffer that \<open>Base64DecodeClover\<close> allocates, to refine
  a bit-level specification, to be resumable, and to invert the encoder.
\<close>

section \<open>Decoder\<close>

datatype base64_decodestep = step_a | step_b | step_c | step_d

record base64_decodestate =
  step :: base64_decodestep
  plainchar :: byte

definition decoding :: "int list" where
  "decoding = [62, -1, -1, -1, 63, 52, 53, 54, 55, 56, 57, 58, 59, 60, 61, -1, -1, -1, -2, -1,
     -1, -1, 0, 1, 2, 3, 4, 5, 6, 7, 8, 9, 10, 11, 12, 13, 14, 15, 16, 17, 18, 19, 20, 21,
     22, 23, 24, 25, -1, -1, -1, -1, -1, -1, 26, 27, 28, 29, 30, 31, 32, 33, 34, 35, 36, 37,
     38, 39, 40, 41, 42, 43, 44, 45, 46, 47, 48, 49, 50, 51]"

definition base64_decode_value :: "byte \<Rightarrow> int" where
  "base64_decode_value value_in =
     (let value_in_i = uint value_in - 43
      in if value_in_i < 0 \<or> value_in_i \<ge> int (length decoding) then -1
         else decoding ! nat value_in_i)"

definition base64_init_decodestate :: base64_decodestate where
  "base64_init_decodestate = \<lparr>step = step_a, plainchar = 0\<rparr>"

text \<open>
  A fragment is a C \<open>int\<close>; the masks and shifts are taken on it and the result is
  cast to a \<open>char\<close>.
\<close>

definition to_char :: "int \<Rightarrow> byte" where
  "to_char i = word_of_int i"

text \<open>
  One pass of the \<open>while (1)\<close> body per code character. The \<open>do ... while (fragment < 0)\<close>
  loops skip characters outside the alphabet and stay in the same step; at the end
  of the input the step and the byte under \<open>plainchar\<close> are saved. \<open>pos\<close> is
  \<open>plainchar - plaintext_out\<close>. The step from \<open>step_d\<close> leaves the next byte of the
  buffer as it was.
\<close>

fun decode_loop ::
  "byte list \<Rightarrow> byte list \<Rightarrow> nat \<Rightarrow> base64_decodestep \<Rightarrow> (nat \<times> byte list \<times> base64_decodestate) option" where
  "decode_loop [] out pos st =
     (if pos < length out then Some (pos, out, \<lparr>step = st, plainchar = out ! pos\<rparr>) else None)"
| "decode_loop (codechar # code) out pos st =
     (let fragment = base64_decode_value codechar in
      if fragment < 0 then decode_loop code out pos st
      else (case st of
        step_a \<Rightarrow>
          (if pos < length out
           then decode_loop code (out[pos := to_char (push_bit 2 (fragment AND 0x03f))]) pos step_b
           else None)
      | step_b \<Rightarrow>
          (if Suc pos < length out
           then decode_loop code
             (out[pos := out ! pos OR to_char (drop_bit 4 (fragment AND 0x030)),
                  Suc pos := to_char (push_bit 4 (fragment AND 0x00f))]) (Suc pos) step_c
           else None)
      | step_c \<Rightarrow>
          (if Suc pos < length out
           then decode_loop code
             (out[pos := out ! pos OR to_char (drop_bit 2 (fragment AND 0x03c)),
                  Suc pos := to_char (push_bit 6 (fragment AND 0x003))]) (Suc pos) step_d
           else None)
      | step_d \<Rightarrow>
          (if pos < length out
           then decode_loop code (out[pos := out ! pos OR to_char (fragment AND 0x03f)]) (Suc pos) step_a
           else None)))"

definition base64_decode_block ::
  "byte list \<Rightarrow> byte list \<Rightarrow> base64_decodestate \<Rightarrow> (nat \<times> byte list \<times> base64_decodestate) option" where
  "base64_decode_block code_in plaintext_out state_in =
     (if plaintext_out = [] then None
      else decode_loop code_in (plaintext_out[0 := plainchar state_in]) 0 (step state_in))"

text \<open>
  \<open>Base64DecodeClover\<close> with an explicit size. \<open>AllocatePool\<close> is the firmware's pool
  allocator: \<open>None\<close> is a null pointer, which the function does not check before the
  decoder writes through it. The outer option is a fault of the C code, the inner
  one the returned pointer; the number is \<open>*DecodedSize\<close>.
\<close>

definition Base64DecodeClover ::
  "(nat \<Rightarrow> byte list option) \<Rightarrow> byte list option \<Rightarrow> (byte list option \<times> nat) option" where
  "Base64DecodeClover AllocatePool EncodedData =
     (case EncodedData of
        None \<Rightarrow> Some (None, 0)
      | Some [] \<Rightarrow> Some (None, 0)
      | Some code \<Rightarrow>
          (case AllocatePool (length code) of
             None \<Rightarrow> None
           | Some DecodedData \<Rightarrow>
               (case base64_decode_block code DecodedData base64_init_decodestate of
                  None \<Rightarrow> None
                | Some (DecodedSizeInternal, out, st) \<Rightarrow>
                    Some (if DecodedSizeInternal = 0 then None else Some (take DecodedSizeInternal out),
                          DecodedSizeInternal))))"

section \<open>Encoder\<close>

definition encoding_table :: "byte list" where
  "encoding_table = map (word_of_nat o of_char)
     ''ABCDEFGHIJKLMNOPQRSTUVWXYZabcdefghijklmnopqrstuvwxyz0123456789+/''"

definition mod_table :: "nat list" where
  "mod_table = [0, 2, 1]"

definition encode_char :: "32 word \<Rightarrow> nat \<Rightarrow> byte" where
  "encode_char triple n = encoding_table ! unat (drop_bit (n * 6) triple AND 0x3F)"

text \<open>\<open>i < input_length ? data[i++] : 0\<close>\<close>

definition next_octet :: "byte list \<Rightarrow> 32 word \<times> byte list" where
  "next_octet data = (case data of [] \<Rightarrow> (0, []) | d # ds \<Rightarrow> (ucast d, ds))"

function encode_loop :: "byte list \<Rightarrow> byte list" where
  "encode_loop data =
     (if data = [] then []
      else let (octet_a, data1) = next_octet data;
               (octet_b, data2) = next_octet data1;
               (octet_c, data3) = next_octet data2;
               triple = push_bit 0x10 octet_a + push_bit 0x08 octet_b + octet_c
           in [encode_char triple 3, encode_char triple 2, encode_char triple 1, encode_char triple 0]
              @ encode_loop data3)"
  by pat_completeness auto
termination
  by (relation "measure length") (auto simp: next_octet_def split: list.splits)

definition pad_tail :: "nat \<Rightarrow> byte list \<Rightarrow> byte list" where
  "pad_tail n enc = take (length enc - n) enc @ replicate n 61"

definition base64_encode :: "(nat \<Rightarrow> bool) \<Rightarrow> byte list \<Rightarrow> byte list option \<times> nat" where
  "base64_encode AllocatePool_ok data =
     (let output_length = 4 * ((length data + 2) div 3)
      in (if AllocatePool_ok output_length
          then Some (pad_tail (mod_table ! (length data mod 3)) (encode_loop data)) else None,
          output_length))"

section \<open>The decoder as a bit stream\<close>

text \<open>
  The specification: the characters of the alphabet, six bits each, are one bit
  stream; the decoded bytes are its complete octets. \<open>pending\<close> are the bits a
  decoder state holds back, the upper bits of the byte under construction.
\<close>

definition bits8 :: "byte \<Rightarrow> bool list" where
  "bits8 w = map (bit w) [7, 6, 5, 4, 3, 2, 1, 0]"

definition bits6 :: "int \<Rightarrow> bool list" where
  "bits6 f = map (bit f) [5, 4, 3, 2, 1, 0]"

definition fragments :: "byte list \<Rightarrow> int list" where
  "fragments code = filter (\<lambda>f. 0 \<le> f) (map base64_decode_value code)"

fun pending :: "base64_decodestep \<Rightarrow> byte \<Rightarrow> bool list" where
  "pending step_a cur = []"
| "pending step_b cur = map (bit cur) [7, 6, 5, 4, 3, 2]"
| "pending step_c cur = map (bit cur) [7, 6, 5, 4]"
| "pending step_d cur = map (bit cur) [7, 6]"

fun low_clear :: "base64_decodestep \<Rightarrow> byte \<Rightarrow> bool" where
  "low_clear step_a cur = True"
| "low_clear step_b cur = (\<forall>n \<in> set [0, 1]. \<not> bit cur n)"
| "low_clear step_c cur = (\<forall>n \<in> set [0, 1, 2, 3]. \<not> bit cur n)"
| "low_clear step_d cur = (\<forall>n \<in> set [0, 1, 2, 3, 4, 5]. \<not> bit cur n)"

lemma length_bits8 [simp]: "length (bits8 w) = 8"
  by (simp add: bits8_def)

lemma length_bits6 [simp]: "length (bits6 w) = 6"
  by (simp add: bits6_def)

lemmas bit_word_simps = bit_or_iff bit_and_iff bit_push_bit_iff bit_drop_bit_eq bit_word_of_int_iff to_char_def

lemma step_a_pending:
  "low_clear step_b (to_char (push_bit 2 (f AND 0x03f)))"
  "pending step_b (to_char (push_bit 2 (f AND 0x03f))) = bits6 f"
  by (simp_all add: bits6_def bit_word_simps)

lemma step_b_pending:
  assumes "low_clear step_b cur"
  shows "low_clear step_c (to_char (push_bit 4 (f AND 0x00f)))"
    and "bits8 (cur OR to_char (drop_bit 4 (f AND 0x030))) @ pending step_c (to_char (push_bit 4 (f AND 0x00f)))
           = pending step_b cur @ bits6 f"
  using assms by (simp_all add: bits6_def bits8_def bit_word_simps)

lemma step_c_pending:
  assumes "low_clear step_c cur"
  shows "low_clear step_d (to_char (push_bit 6 (f AND 0x003)))"
    and "bits8 (cur OR to_char (drop_bit 2 (f AND 0x03c))) @ pending step_d (to_char (push_bit 6 (f AND 0x003)))
           = pending step_c cur @ bits6 f"
  using assms by (simp_all add: bits6_def bits8_def bit_word_simps)

lemma step_d_pending:
  assumes "low_clear step_d cur"
  shows "bits8 (cur OR to_char (f AND 0x03f)) = pending step_d cur @ bits6 f"
  using assms by (simp_all add: bits6_def bits8_def bit_word_simps)


lemma fragments_simps [simp]:
  "fragments [] = []"
  "fragments (c # cs) = (if base64_decode_value c < 0 then fragments cs else base64_decode_value c # fragments cs)"
  by (auto simp: fragments_def)

abbreviation bits_before :: "byte list \<Rightarrow> nat \<Rightarrow> bool list" where
  "bits_before out pos \<equiv> concat (map bits8 (take pos out))"

definition decoded_bits :: "nat \<times> byte list \<times> base64_decodestate \<Rightarrow> bool list" where
  "decoded_bits r = (case r of (pos, out, st) \<Rightarrow> bits_before out pos @ pending (step st) (plainchar st))"

lemma take_upd_next:
  "Suc pos < length out \<Longrightarrow> take (Suc pos) (out[pos := v, Suc pos := w]) = take pos out @ [v]"
  by (simp add: take_Suc_conv_app_nth)

lemma length_bits_before: "pos \<le> length out \<Longrightarrow> length (bits_before out pos) = 8 * pos"
  by (induction pos) (simp_all add: take_Suc_conv_app_nth)

definition pend_len :: "base64_decodestep \<Rightarrow> nat" where
  "pend_len st = (case st of step_a \<Rightarrow> 0 | step_b \<Rightarrow> 6 | step_c \<Rightarrow> 4 | step_d \<Rightarrow> 2)"

lemma length_pending: "length (pending st cur) = pend_len st"
  by (cases st) (simp_all add: pend_len_def)

text \<open>
  One code character of the alphabet moves the decoder to a state whose emitted
  bits and pending bits are the old ones followed by the six bits of the fragment.
  \<open>advances\<close> says so of one step; the two middle steps emit a byte and carry bits
  over into the next one.
\<close>

definition advances ::
  "byte list \<Rightarrow> nat \<Rightarrow> base64_decodestep \<Rightarrow> int \<Rightarrow> byte list \<Rightarrow> nat \<Rightarrow> base64_decodestep \<Rightarrow> bool" where
  "advances out pos st f out' pos' st' \<longleftrightarrow>
     length out' = length out \<and> pos' < length out \<and> low_clear st' (out' ! pos')
     \<and> bits_before out' pos' @ pending st' (out' ! pos') = bits_before out pos @ pending st (out ! pos) @ bits6 f"

lemma advances_carry:
  assumes "Suc pos < length out" and "low_clear st' w"
    and "bits8 v @ pending st' w = pending st (out ! pos) @ bits6 f"
  shows "advances out pos st f (out[pos := v, Suc pos := w]) (Suc pos) st'"
  using assms by (simp add: advances_def take_upd_next)

lemma decode_loop_step:
  assumes f: "\<not> base64_decode_value c < 0"
    and lc: "low_clear st (out ! pos)"
    and room: "8 * pos + pend_len st + 6 < 8 * length out"
  shows "\<exists>out' pos' st'. decode_loop (c # code) out pos st = decode_loop code out' pos' st'
           \<and> advances out pos st (base64_decode_value c) out' pos' st'"
proof (cases st)
  case step_a
  let ?f = "base64_decode_value c" and ?v = "to_char (push_bit 2 (base64_decode_value c AND 0x03f))"
  have p: "pos < length out" using room by simp
  have "advances out pos st ?f (out[pos := ?v]) pos step_b"
    unfolding advances_def using p step_a
    by (simp only: nth_list_update_eq step_a_pending length_list_update) simp
  then show ?thesis using f p step_a by (auto simp: Let_def)
next
  case step_b
  let ?f = "base64_decode_value c"
  have p: "Suc pos < length out" using room step_b by (simp add: pend_len_def)
  note pb = step_b_pending [OF lc [unfolded step_b], of ?f]
  have "decode_loop (c # code) out pos st = decode_loop code
      (out[pos := out ! pos OR to_char (drop_bit 4 (?f AND 0x030)), Suc pos := to_char (push_bit 4 (?f AND 0x00f))])
      (Suc pos) step_c"
    using f p step_b by (simp add: Let_def)
  then show ?thesis using advances_carry [OF p pb] step_b by blast
next
  case step_c
  let ?f = "base64_decode_value c"
  have p: "Suc pos < length out" using room step_c by (simp add: pend_len_def)
  note pc = step_c_pending [OF lc [unfolded step_c], of ?f]
  have "decode_loop (c # code) out pos st = decode_loop code
      (out[pos := out ! pos OR to_char (drop_bit 2 (?f AND 0x03c)), Suc pos := to_char (push_bit 6 (?f AND 0x003))])
      (Suc pos) step_d"
    using f p step_c by (simp add: Let_def)
  then show ?thesis using advances_carry [OF p pc] step_c by blast
next
  case step_d
  let ?f = "base64_decode_value c"
  have p: "Suc pos < length out" using room step_d by (simp add: pend_len_def)
  have "advances out pos st ?f (out[pos := out ! pos OR to_char (?f AND 0x03f)]) (Suc pos) step_a"
    using p step_d step_d_pending [OF lc [unfolded step_d], of ?f] by (simp add: advances_def)
  then show ?thesis using f p step_d by (auto simp: Let_def)
qed

lemma decode_loop_bits:
  assumes "low_clear st (out ! pos)"
    and "8 * pos + pend_len st + 6 * length code < 8 * length out"
  shows "\<exists>pos' out' st'. decode_loop code out pos st = Some (pos', out', st')
           \<and> length out' = length out \<and> pos' < length out \<and> low_clear (step st') (plainchar st')
           \<and> decoded_bits (pos', out', st')
               = bits_before out pos @ pending st (out ! pos) @ concat (map bits6 (fragments code))"
  using assms
proof (induction code arbitrary: out pos st)
  case Nil
  then show ?case by (simp add: decoded_bits_def)
next
  case (Cons c code)
  show ?case
  proof (cases "base64_decode_value c < 0")
    case True
    then show ?thesis using Cons.prems Cons.IH [of st out pos] by simp
  next
    case False
    have p: "pos < length out" and room: "8 * pos + pend_len st + 6 < 8 * length out"
      using Cons.prems by auto
    obtain out1 pos1 st1 where
      step: "decode_loop (c # code) out pos st = decode_loop code out1 pos1 st1"
      and adv: "advances out pos st (base64_decode_value c) out1 pos1 st1"
      using decode_loop_step [OF False Cons.prems(1) room] by blast
    note len = adv [unfolded advances_def, THEN conjunct1]
      adv [unfolded advances_def, THEN conjunct2, THEN conjunct1]
    note lc = adv [unfolded advances_def, THEN conjunct2, THEN conjunct2, THEN conjunct1]
    note bits = adv [unfolded advances_def, THEN conjunct2, THEN conjunct2, THEN conjunct2]
    have "8 * pos1 + pend_len st1 = 8 * pos + pend_len st + 6"
      using arg_cong [where f = length, OF bits] p len
      by (simp only: length_append length_pending length_bits6 length_bits_before less_imp_le)
    then have "8 * pos1 + pend_len st1 + 6 * length code < 8 * length out1"
      using Cons.prems(2) len by simp
    from Cons.IH [OF lc this] obtain pos2 out2 st2 where
      "decode_loop code out1 pos1 st1 = Some (pos2, out2, st2)" "length out2 = length out1"
      "pos2 < length out1" "low_clear (step st2) (plainchar st2)"
      "decoded_bits (pos2, out2, st2)
         = bits_before out1 pos1 @ pending st1 (out1 ! pos1) @ concat (map bits6 (fragments code))"
      by blast
    then show ?thesis using step len bits False
      by (metis append_assoc concat.simps(2) fragments_simps(2) list.simps(9))
  qed
qed

section \<open>Decoding whole inputs and resuming\<close>

lemma base64_decode_block_bits:
  assumes "low_clear (step st) (plainchar st)" and "pend_len (step st) + 6 * length code < 8 * length out"
  shows "\<exists>pos' out' st'. base64_decode_block code out st = Some (pos', out', st')
           \<and> length out' = length out \<and> pos' < length out \<and> low_clear (step st') (plainchar st')
           \<and> decoded_bits (pos', out', st') = pending (step st) (plainchar st) @ concat (map bits6 (fragments code))"
proof -
  have ne: "out \<noteq> []" using assms(2) by auto
  then show ?thesis
    using decode_loop_bits [of "step st" "out[0 := plainchar st]" 0 code] assms
    by (simp add: base64_decode_block_def)
qed

lemma base64_decode_stream:
  assumes alloc: "AllocatePool (length code) = Some buf" "length buf = length code"
    and ne: "code \<noteq> []"
  shows "\<exists>data rest. Base64DecodeClover AllocatePool (Some code)
             = Some (if data = [] then None else Some data, length data)
           \<and> concat (map bits8 data) @ rest = concat (map bits6 (fragments code)) \<and> length rest < 8"
proof -
  have "pend_len step_a + 6 * length code < 8 * length buf" using alloc ne by (simp add: pend_len_def)
  then obtain n out st where blk: "base64_decode_block code buf base64_init_decodestate = Some (n, out, st)"
    and len: "length out = length buf" "n < length buf"
    and bits: "bits_before out n @ pending (step st) (plainchar st) = concat (map bits6 (fragments code))"
    using base64_decode_block_bits [of base64_init_decodestate code buf]
    by (auto simp: base64_init_decodestate_def decoded_bits_def)
  have "Base64DecodeClover AllocatePool (Some code)
      = Some (if take n out = [] then None else Some (take n out), length (take n out))"
    using alloc ne blk len by (cases code) (auto simp: Base64DecodeClover_def)
  moreover have "length (pending (step st) (plainchar st)) < 8"
    by (simp add: length_pending pend_len_def split: base64_decodestep.split)
  ultimately show ?thesis using bits by blast
qed

text \<open>
  C8: \<open>Base64DecodeClover\<close> given a non-empty input and the pool buffer it asks for never
  leaves that buffer, and the bytes it returns are the complete octets of the bit
  stream of the characters of the alphabet: what remains is less than an octet. A
  null pointer is returned exactly when no octet is complete.
\<close>

theorem base64_decode_correct:
  assumes alloc: "AllocatePool (length code) = Some buf" "length buf = length code"
    and ne: "code \<noteq> []"
  shows "\<exists>data rest. Base64DecodeClover AllocatePool (Some code)
             = Some (if data = [] then None else Some data, length data)
           \<and> concat (map bits8 data) @ rest = concat (map bits6 (fragments code)) \<and> length rest < 8"
  using assms by (rule base64_decode_stream)

theorem base64_decode_correct_witness:
  "\<exists>data rest. Base64DecodeClover (\<lambda>n. Some (replicate n 0)) (Some [84, 87, 70, 117])
             = Some (if data = [] then None else Some data, length data)
           \<and> concat (map bits8 data) @ rest = concat (map bits6 (fragments [84, 87, 70, 117])) \<and> length rest < 8"
  by (rule base64_decode_correct [where buf = "[0, 0, 0, 0]"]) (simp_all add: numeral_eq_Suc)

lemma decode_loop_full: "length out \<le> pos \<Longrightarrow> decode_loop code out pos st = None"
  by (induction code out pos st rule: decode_loop.induct)
    (simp_all add: Let_def split: base64_decodestep.split)

lemma decode_loop_append:
  "decode_loop (xs @ ys) out pos st =
     Option.bind (decode_loop xs out pos st) (\<lambda>(pos', out', st'). decode_loop ys out' pos' (step st'))"
proof (induction xs out pos st rule: decode_loop.induct)
  case (1 out pos st)
  then show ?case by (cases "pos < length out") (simp_all del: decode_loop.simps(2) add: decode_loop_full)
next
  case (2 codechar code out pos st)
  then show ?case by (simp add: Let_def split: base64_decodestep.split)
qed

lemma decode_loop_shift:
  "decode_loop ys (pre @ out) (length pre + pos) st =
     map_option (\<lambda>(m, out', st'). (length pre + m, pre @ out', st')) (decode_loop ys out pos st)"
proof (induction ys out pos st rule: decode_loop.induct)
  case (1 out pos st)
  then show ?case by (auto simp: nth_append)
next
  case (2 codechar code out pos st)
  then show ?case
    by (auto simp: Let_def nth_append list_update_append simp flip: add_Suc_right split: base64_decodestep.split)
qed

lemma decode_loop_length: "decode_loop ys out pos st = Some (m, out', st') \<Longrightarrow> length out' = length out \<and> m < length out"
  by (induction ys out pos st rule: decode_loop.induct)
    (auto simp: Let_def split: base64_decodestep.splits if_splits)

lemma decode_loop_saved: "decode_loop ys out pos st = Some (m, out', st') \<Longrightarrow> plainchar st' = out' ! m"
  by (induction ys out pos st rule: decode_loop.induct)
    (auto simp: Let_def split: base64_decodestep.splits if_splits)

text \<open>
  C9: Decoding in pieces: running \<open>base64_decode_block\<close> on a first piece of the input and then,
  with the saved state and the rest of the output buffer, on a second piece is the
  same as one run on both.
\<close>

theorem base64_decode_resume:
  assumes "base64_decode_block xs out st = Some (n, out1, st1)"
  shows "base64_decode_block (xs @ ys) out st =
     map_option (\<lambda>(m, out2, st2). (n + m, take n out1 @ out2, st2)) (base64_decode_block ys (drop n out1) st1)"
proof -
  have first: "decode_loop xs (out[0 := plainchar st]) 0 (step st) = Some (n, out1, st1)" and ne: "out \<noteq> []"
    using assms by (auto simp: base64_decode_block_def split: if_splits)
  have n: "n < length out1" and saved: "plainchar st1 = out1 ! n"
    using decode_loop_length [OF first] decode_loop_saved [OF first] by auto
  have same: "(drop n out1)[0 := plainchar st1] = drop n out1"
    using n saved by (metis Cons_nth_drop_Suc list_update_id nth_Cons_0)
  have "decode_loop ys out1 n (step st1) = map_option (\<lambda>(m, out2, st2). (n + m, take n out1 @ out2, st2))
      (decode_loop ys (drop n out1) 0 (step st1))"
    using decode_loop_shift [of ys "take n out1" "drop n out1" 0 "step st1"] n by simp
  then show ?thesis using first ne n
    by (simp add: base64_decode_block_def decode_loop_append same)
qed

theorem base64_decode_resume_witness:
  "base64_decode_block ([84, 87] @ [70, 117]) [0, 0, 0, 0] base64_init_decodestate
     = Some (3, [77, 97, 110, 0], \<lparr>step = step_a, plainchar = 0\<rparr>)"
proof -
  have one: "base64_decode_block [84, 87] [0, 0, 0, 0] base64_init_decodestate
      = Some (1, [77, 96, 0, 0], \<lparr>step = step_c, plainchar = 96\<rparr>)" by code_simp
  show ?thesis unfolding base64_decode_resume [OF one] by code_simp
qed

section \<open>The encoder as a bit stream\<close>

lemma decode_value_table: "k < 64 \<Longrightarrow> base64_decode_value (encoding_table ! k) = int k"
proof -
  have "\<forall>k \<in> {..<64}. base64_decode_value (encoding_table ! k) = int k" by code_simp
  then show "k < 64 \<Longrightarrow> base64_decode_value (encoding_table ! k) = int k" by simp
qed

lemma sextet_less: "unat ((t :: 32 word) AND 0x3F) < 64"
proof -
  have "t AND 0x3F \<le> 0x3F" by (rule word_and_le1)
  then have "unat (t AND 0x3F) \<le> unat (0x3F :: 32 word)" by (simp only: word_le_nat_alt)
  then show ?thesis by simp
qed

lemma decode_encode_char: "base64_decode_value (encode_char t n) = uint (drop_bit (n * 6) t AND 0x3F)"
  by (simp add: encode_char_def decode_value_table sextet_less del: unsigned_and_eq)

lemma bits6_sextet: "n \<le> 3 \<Longrightarrow> bits6 (uint (drop_bit (n * 6) (t :: 32 word) AND 0x3F))
    = map (bit t) [n*6 + 5, n*6 + 4, n*6 + 3, n*6 + 2, n*6 + 1, n*6]"
  by (simp add: bits6_def bit_uint_iff bit_and_iff bit_drop_bit_eq del: unsigned_and_eq)

lemma triple_or:
  "push_bit 16 (ucast (a::byte)) + push_bit 8 (ucast (b::byte)) + (ucast (c::byte) :: 32 word)
     = push_bit 16 (ucast a) OR push_bit 8 (ucast b) OR ucast c"
proof -
  have ab: "push_bit 16 (ucast a) + push_bit 8 (ucast b) = (push_bit 16 (ucast a) OR push_bit 8 (ucast b) :: 32 word)"
    by (rule disjunctive_add_eq_or) (auto simp: bit_eq_iff bit_simps dest: bit_byte_less)
  show ?thesis
    unfolding ab by (subst disjunctive_add_eq_or) (auto simp: bit_eq_iff bit_simps or.assoc dest: bit_byte_less)
qed

definition group_of :: "byte \<Rightarrow> byte \<Rightarrow> byte \<Rightarrow> 32 word" where
  "group_of a b c = push_bit 16 (ucast a) + push_bit 8 (ucast b) + ucast c"

lemma bits_of_group:
  "map (bit (group_of a b c)) [23,22,21,20,19,18,17,16] = bits8 a"
  "map (bit (group_of a b c)) [15,14,13,12,11,10,9,8] = bits8 b"
  "map (bit (group_of a b c)) [7,6,5,4,3,2,1,0] = bits8 c"
  unfolding group_of_def triple_or by (simp_all add: bits8_def bit_simps)

fun tail_bits :: "byte list \<Rightarrow> bool list" where
  "tail_bits [] = []"
| "tail_bits [a] = [False, False, False, False]"
| "tail_bits [a, b] = [False, False]"
| "tail_bits (a # b # c # data) = tail_bits data"

declare encode_loop.simps [simp del]

lemma encode_loop_Nil [simp]: "encode_loop [] = []"
  by (simp add: encode_loop.simps)

lemma encode_loop_group:
  "encode_loop (a # b # c # data) = map (encode_char (group_of a b c)) [3, 2, 1, 0] @ encode_loop data"
  "encode_loop [a, b] = map (encode_char (group_of a b 0)) [3, 2, 1, 0]"
  "encode_loop [a] = map (encode_char (group_of a 0 0)) [3, 2, 1, 0]"
  by (subst encode_loop.simps; simp add: next_octet_def Let_def group_of_def)+

lemma length_encode_loop: "length (encode_loop data) = 4 * ((length data + 2) div 3)"
proof (induction data rule: tail_bits.induct)
  case (4 a b c data)
  have "(length (a # b # c # data) + 2) div 3 = Suc ((length data + 2) div 3)" by simp
  then show ?case using 4 by (simp add: encode_loop_group)
qed (simp_all add: encode_loop_group)

definition padded :: "byte list \<Rightarrow> byte list" where
  "padded data = pad_tail (mod_table ! (length data mod 3)) (encode_loop data)"

lemma pad_tail_append: "n \<le> length ys \<Longrightarrow> pad_tail n (xs @ ys) = xs @ pad_tail n ys"
  by (simp add: pad_tail_def)

lemma mod_table_bound: "mod_table ! (n mod 3) \<le> 4 * ((n + 2) div 3)"
proof -
  consider "n mod 3 = 0" | "n mod 3 = 1" | "n mod 3 = 2" by linarith
  then show ?thesis by cases (auto simp: mod_table_def)
qed

lemma padded_simps:
  "padded [] = []"
  "padded [a] = map (encode_char (group_of a 0 0)) [3, 2] @ [61, 61]"
  "padded [a, b] = map (encode_char (group_of a b 0)) [3, 2, 1] @ [61]"
  "padded (a # b # c # data) = map (encode_char (group_of a b c)) [3, 2, 1, 0] @ padded data"
proof -
  show "padded (a # b # c # data) = map (encode_char (group_of a b c)) [3, 2, 1, 0] @ padded data"
    unfolding padded_def encode_loop_group
    using mod_table_bound [of "length data"]
    by (subst pad_tail_append) (simp_all add: length_encode_loop)
qed (simp_all add: padded_def pad_tail_def mod_table_def encode_loop_group numeral_2_eq_2)

lemma decode_value_pad: "base64_decode_value 61 < 0"
  by (simp add: base64_decode_value_def decoding_def)

lemma fragments_append [simp]: "fragments (xs @ ys) = fragments xs @ fragments ys"
  by (simp add: fragments_def)

lemma decode_encode_char_bits:
  "\<not> base64_decode_value (encode_char t n) < 0"
  "n \<le> 3 \<Longrightarrow> bits6 (base64_decode_value (encode_char t n))
     = map (bit t) [n*6 + 5, n*6 + 4, n*6 + 3, n*6 + 2, n*6 + 1, n*6]"
  by (simp_all add: decode_encode_char bits6_sextet linorder_not_less)

lemma padded_bits: "concat (map bits6 (fragments (padded data))) = concat (map bits8 data) @ tail_bits data"
proof (induction data rule: tail_bits.induct)
  case (2 a)
  then show ?case
    using bits_of_group(1,2) [of a 0 0]
    by (simp add: padded_simps decode_encode_char_bits decode_value_pad bits8_def)
next
  case (3 a b)
  then show ?case
    using bits_of_group [of a b 0]
    by (simp add: padded_simps decode_encode_char_bits decode_value_pad bits8_def)
next
  case (4 a b c data)
  then show ?case
    using bits_of_group [of a b c]
    by (simp add: padded_simps decode_encode_char_bits bits8_def numeral_2_eq_2)
qed (simp add: padded_simps)

lemma bits8_inject: "bits8 v = bits8 w \<Longrightarrow> v = w"
proof (rule bit_word_eqI)
  fix n assume "bits8 v = bits8 w" and "n < LENGTH(8)"
  then have "n \<in> {0, 1, 2, 3, 4, 5, 6, 7}" by auto
  then show "bit v n = bit w n" using \<open>bits8 v = bits8 w\<close> by (auto simp: bits8_def)
qed

lemma bytes_of_bits_unique:
  "concat (map bits8 xs) @ r = concat (map bits8 ys) @ s \<Longrightarrow> length r < 8 \<Longrightarrow> length s < 8 \<Longrightarrow> xs = ys"
proof (induction xs arbitrary: ys)
  case Nil
  have "length r = 8 * length ys + length s"
    using arg_cong [where f = length, OF Nil.prems(1)] by (simp add: length_concat comp_def sum_list_triv)
  then show ?case using Nil.prems(2) by (cases ys) auto
next
  case (Cons x xs)
  have "length (bits8 x @ concat (map bits8 xs) @ r) = 8 * length ys + length s"
    using arg_cong [where f = length, OF Cons.prems(1)] by (simp add: length_concat comp_def sum_list_triv)
  then obtain y ys' where ys: "ys = y # ys'" using Cons.prems(3) by (cases ys) auto
  then have "bits8 x = bits8 y \<and> concat (map bits8 xs) @ r = concat (map bits8 ys') @ s"
    using Cons.prems(1) by simp
  then show ?case using Cons ys bits8_inject by blast
qed

lemma length_tail_bits: "length (tail_bits data) < 8"
  by (induction data rule: tail_bits.induct) simp_all

lemma length_padded: "length (padded data) = 4 * ((length data + 2) div 3)"
  using mod_table_bound [of "length data"] by (simp add: padded_def pad_tail_def length_encode_loop)

text \<open>
  \<open>base64_encode\<close> reports four characters per started group of three bytes and, when the
  allocation succeeds, returns exactly that many.
\<close>

lemma base64_encode_length:
  "case base64_encode AllocatePool_ok data of (enc, n) \<Rightarrow>
     n = 4 * ((length data + 2) div 3)
     \<and> (case enc of None \<Rightarrow> \<not> AllocatePool_ok n | Some e \<Rightarrow> AllocatePool_ok n \<and> length e = n)"
  by (auto simp: base64_encode_def Let_def padded_def [symmetric] length_padded)

text \<open>
  C7: Decoding with \<open>Base64DecodeClover\<close> what \<open>base64_encode\<close> made of a non-empty byte string
  gives that byte string back, padding included.
\<close>

theorem base64_roundtrip:
  assumes enc: "base64_encode AllocatePool_ok data = (Some code, n)"
    and alloc: "AllocatePool (length code) = Some buf" "length buf = length code"
    and ne: "data \<noteq> []"
  shows "Base64DecodeClover AllocatePool (Some code) = Some (Some data, length data)"
proof -
  have code: "code = padded data"
    using enc by (auto simp: base64_encode_def padded_def Let_def split: if_splits)
  have "code \<noteq> []"
    using ne code length_padded [of data] by (cases data) auto
  from base64_decode_stream [where AllocatePool = AllocatePool, OF alloc this] obtain out rest where
    dec: "Base64DecodeClover AllocatePool (Some code) = Some (if out = [] then None else Some out, length out)"
    and bits: "concat (map bits8 out) @ rest = concat (map bits8 data) @ tail_bits data" "length rest < 8"
    unfolding code padded_bits by blast
  have "out = data" using bytes_of_bits_unique [OF bits(1,2) length_tail_bits] .
  then show ?thesis using dec ne by simp
qed

theorem base64_roundtrip_witness:
  "Base64DecodeClover (\<lambda>n. Some (replicate n 7)) (Some [84, 87, 69, 61]) = Some (Some [77, 97], 2)"
proof -
  have enc: "base64_encode (\<lambda>_. True) [77, 97] = (Some [84, 87, 69, 61], 4)" by code_simp
  show ?thesis using base64_roundtrip [OF enc, of "\<lambda>n. Some (replicate n 7)" "[7, 7, 7, 7]"]
    by (simp add: numeral_eq_Suc)
qed

end
