(* ===== verification/Memory_Operation.thy ===== *)
theory Memory_Operation
  imports Clover_Prelude
begin

text \<open>
  The binary search and patch routines of \<open>Platform/MemoryOperation.c\<close>, which apply
  the kernel, kext and ACPI patches. A buffer is the list of the bytes that are mapped
  from \<open>Source\<close> on; \<open>SourceSize\<close> says how many of them the caller handed over, so the
  list can be longer. A pointer into it is a position. Reading or writing past the
  mapped bytes is the value \<open>None\<close>. Null pointers are \<open>None\<close> of the argument's type;
  a search, replace or mask pointer is given by the \<open>SearchSize\<close> bytes it points to.
\<close>

section \<open>Comparing and copying\<close>

text \<open>
  \<open>CompareMem\<close> of the base library stops at the first mismatch; the model returns
  whether its result is zero.
\<close>

fun CompareMem :: "byte list \<Rightarrow> byte list \<Rightarrow> bool option" where
  "CompareMem src [] = Some True"
| "CompareMem [] (s # ss) = None"
| "CompareMem (x # xs) (s # ss) = (if x \<noteq> s then Some False else CompareMem xs ss)"

fun compare_masked :: "byte list \<Rightarrow> byte list \<Rightarrow> byte list \<Rightarrow> bool option" where
  "compare_masked src [] msk = Some True"
| "compare_masked [] (s # ss) msk = None"
| "compare_masked (x # xs) (s # ss) msk =
     (let M = (case msk of [] \<Rightarrow> 0xFF | m # _ \<Rightarrow> m)
      in if x AND M \<noteq> s AND M then Some False else compare_masked xs ss (tl msk))"

definition CompareMemMask :: "byte list \<Rightarrow> byte list \<Rightarrow> byte list option \<Rightarrow> bool option" where
  "CompareMemMask src search msk =
     (case msk of None \<Rightarrow> CompareMem src search
      | Some m \<Rightarrow> if m = [] then CompareMem src search else compare_masked src search m)"

fun CopyMem :: "byte list \<Rightarrow> byte list \<Rightarrow> byte list option" where
  "CopyMem dest [] = Some dest"
| "CopyMem [] (r # rs) = None"
| "CopyMem (d # ds) (r # rs) = map_option ((#) r) (CopyMem ds rs)"

fun copy_masked :: "byte list \<Rightarrow> byte list \<Rightarrow> byte list \<Rightarrow> byte list option" where
  "copy_masked dest [] msk = Some dest"
| "copy_masked (d # ds) (r # rs) (m # ms) = map_option ((#) (((d XOR r) AND m) XOR d)) (copy_masked ds rs ms)"
| "copy_masked dest rep msk = None"

definition CopyMemMask :: "byte list \<Rightarrow> byte list \<Rightarrow> byte list option \<Rightarrow> byte list option" where
  "CopyMemMask dest rep msk = (case msk of None \<Rightarrow> CopyMem dest rep | Some m \<Rightarrow> copy_masked dest rep m)"

definition at_pos :: "byte list \<Rightarrow> nat \<Rightarrow> (byte list \<Rightarrow> byte list option) \<Rightarrow> byte list option" where
  "at_pos mem pos f = map_option ((@) (take pos mem)) (f (drop pos mem))"

section \<open>Counting and replacing\<close>

text \<open>
  \<open>SearchAndCount\<close> has no guard on \<open>SearchSize\<close>: with an empty pattern the pointer does
  not move. The outer option is \<open>None\<close> where the loop does not end.
\<close>

partial_function (option) count_loop ::
  "byte list \<Rightarrow> byte list \<Rightarrow> nat \<Rightarrow> nat \<Rightarrow> nat \<Rightarrow> nat option option" where
  "count_loop mem Search End Source NumFounds =
     (if Source < End then
        (case CompareMem (drop Source mem) Search of
           None \<Rightarrow> Some None
         | Some found \<Rightarrow>
             if found then count_loop mem Search End (Source + length Search) (NumFounds + 1)
             else count_loop mem Search End (Source + 1) NumFounds)
      else Some (Some NumFounds))"

definition SearchAndCount :: "byte list \<Rightarrow> nat \<Rightarrow> byte list \<Rightarrow> nat option option" where
  "SearchAndCount mem SourceSize Search = count_loop mem Search SourceSize 0 0"

text \<open>
  The loops below run only after the guard \<open>!SearchSize\<close>; the conjunct
  \<open>Search \<noteq> []\<close> repeats that guard so that they are total.
\<close>

function replace_loop ::
  "byte list \<Rightarrow> byte list \<Rightarrow> bool \<Rightarrow> nat \<Rightarrow> byte list \<Rightarrow> nat \<Rightarrow> int \<Rightarrow> nat \<Rightarrow> (nat \<times> byte list) option" where
  "replace_loop Search Replace NoReplacesRestriction End mem Source MaxReplaces NumReplaces =
     (if Search \<noteq> [] \<and> Source < End \<and> (NoReplacesRestriction \<or> MaxReplaces > 0) then
        (case CompareMem (drop Source mem) Search of
           None \<Rightarrow> None
         | Some found \<Rightarrow>
             if found then
               (case at_pos mem Source (\<lambda>d. CopyMem d Replace) of
                  None \<Rightarrow> None
                | Some mem' \<Rightarrow> replace_loop Search Replace NoReplacesRestriction End mem'
                    (Source + length Search) (MaxReplaces - 1) (NumReplaces + 1))
             else replace_loop Search Replace NoReplacesRestriction End mem
               (Source + 1) MaxReplaces NumReplaces)
      else Some (NumReplaces, mem))"
  by pat_completeness auto
termination
  by (relation "measure (\<lambda>(_, _, _, e, _, s, _, _). e - s)") (auto intro: diff_less_mono2)

definition SearchAndReplace ::
  "byte list option \<Rightarrow> nat \<Rightarrow> byte list option \<Rightarrow> byte list option \<Rightarrow> int \<Rightarrow> (nat \<times> byte list) option" where
  "SearchAndReplace Source SourceSize Search Replace MaxReplaces =
     (case (Source, Search, Replace) of
        (Some mem, Some s, Some r) \<Rightarrow>
          if s = [] then Some (0, mem)
          else replace_loop s r (MaxReplaces \<le> 0) SourceSize mem 0 MaxReplaces 0
      | _ \<Rightarrow> Some (0, case Source of None \<Rightarrow> [] | Some mem \<Rightarrow> mem))"

function mask_loop ::
  "byte list \<Rightarrow> byte list option \<Rightarrow> byte list \<Rightarrow> byte list option \<Rightarrow> bool \<Rightarrow> nat \<Rightarrow>
     byte list \<Rightarrow> nat \<Rightarrow> int \<Rightarrow> int \<Rightarrow> nat \<Rightarrow> (nat \<times> byte list) option" where
  "mask_loop Search MaskSearch Replace MaskReplace NoReplacesRestriction End mem Source MaxReplaces Skip NumReplaces =
     (if Search \<noteq> [] \<and> Source < End \<and> (NoReplacesRestriction \<or> MaxReplaces > 0) then
        (case CompareMemMask (drop Source mem) Search MaskSearch of
           None \<Rightarrow> None
         | Some found \<Rightarrow>
             if found then
               (if Skip = 0 then
                  (case at_pos mem Source (\<lambda>d. CopyMemMask d Replace MaskReplace) of
                     None \<Rightarrow> None
                   | Some mem' \<Rightarrow> mask_loop Search MaskSearch Replace MaskReplace NoReplacesRestriction End mem'
                       (Source + length Search) (MaxReplaces - 1) Skip (NumReplaces + 1))
                else mask_loop Search MaskSearch Replace MaskReplace NoReplacesRestriction End mem
                       (Source + length Search) MaxReplaces (Skip - 1) NumReplaces)
             else mask_loop Search MaskSearch Replace MaskReplace NoReplacesRestriction End mem
               (Source + 1) MaxReplaces Skip NumReplaces)
      else Some (NumReplaces, mem))"
  by pat_completeness auto
termination
  by (relation "measure (\<lambda>(_, _, _, _, _, e, _, s, _, _, _). e - s)") (auto intro: diff_less_mono2)

definition SearchAndReplaceMask ::
  "byte list option \<Rightarrow> nat \<Rightarrow> byte list option \<Rightarrow> byte list option \<Rightarrow> byte list option \<Rightarrow> byte list option \<Rightarrow>
     int \<Rightarrow> int \<Rightarrow> (nat \<times> byte list) option" where
  "SearchAndReplaceMask Source SourceSize Search MaskSearch Replace MaskReplace MaxReplaces Skip =
     (case (Source, Search, Replace) of
        (Some mem, Some s, Some r) \<Rightarrow>
          if s = [] then Some (0, mem)
          else mask_loop s MaskSearch r MaskReplace (MaxReplaces \<le> 0) SourceSize mem 0 MaxReplaces Skip 0
      | _ \<Rightarrow> Some (0, case Source of None \<Rightarrow> [] | Some mem \<Rightarrow> mem))"

section \<open>Finding the first match\<close>

definition MAX_UINTN :: uintn where
  "MAX_UINTN = -1"

text \<open>
  The bound \<open>SourceSize - SearchSize\<close> is an unsigned 64-bit difference, taken here on
  words; the loop counter runs over natural numbers below it.
\<close>

function find_loop :: "byte list \<Rightarrow> byte list \<Rightarrow> byte list option \<Rightarrow> nat \<Rightarrow> nat \<Rightarrow> uintn option" where
  "find_loop mem Search MaskSearch bound i =
     (if i < bound then
        (case CompareMemMask (drop i mem) Search MaskSearch of
           None \<Rightarrow> None
         | Some found \<Rightarrow> if found then Some (word_of_nat i) else find_loop mem Search MaskSearch bound (i + 1))
      else Some MAX_UINTN)"
  by pat_completeness auto
termination
  by (relation "measure (\<lambda>(_, _, _, b, i). b - i)") auto

definition FindMemMask ::
  "byte list option \<Rightarrow> uintn \<Rightarrow> byte list option \<Rightarrow> byte list option \<Rightarrow> uintn option" where
  "FindMemMask Source SourceSize Search MaskSearch =
     (case (Source, Search) of
        (Some mem, Some s) \<Rightarrow>
          if s = [] then Some MAX_UINTN
          else find_loop mem s MaskSearch (unat (SourceSize - word_of_nat (length s))) 0
      | _ \<Rightarrow> Some MAX_UINTN)"

section \<open>Replacing text, white space ignored\<close>

text \<open>
  \<open>SearchAndReplaceTxt\<close> walks over zero terminated strings and skips characters up to
  the blank in the source. Its three nested loops are \<open>txt_match\<close> (compare at one place,
  returning the rest of the pattern and the number of skipped characters), \<open>txt_scan\<close>
  (the next place in this string) and \<open>txt_loop\<close>. The variables \<open>SourcePos\<close>,
  \<open>FirstMatch\<close> and \<open>Skip\<close> keep their value from one round to the next. As for
  \<open>SearchAndCount\<close> the outer option of the result is \<open>None\<close> where the loop does not end.
\<close>

function txt_match :: "byte list \<Rightarrow> nat \<Rightarrow> byte list \<Rightarrow> nat \<Rightarrow> (byte list \<times> nat) option" where
  "txt_match mem Source Pos Skip =
     (if Source < length mem then
        (if mem ! Source \<noteq> 0 \<and> Pos \<noteq> [] then
           (if mem ! Source \<le> 0x20 then txt_match mem (Source + 1) Pos (Skip + 1)
            else if mem ! Source \<noteq> hd Pos then Some (Pos, Skip)
            else txt_match mem (Source + 1) (tl Pos) Skip)
         else Some (Pos, Skip))
      else None)"
  by pat_completeness auto
termination
  by (relation "measure (\<lambda>(mem, s, _, _). length mem - s)") auto

function txt_scan ::
  "byte list \<Rightarrow> byte list \<Rightarrow> nat \<Rightarrow> nat option \<times> nat \<times> nat \<Rightarrow> (nat option \<times> nat \<times> nat) option" where
  "txt_scan mem Search Source st =
     (if Source < length mem then
        (if mem ! Source \<noteq> 0 then
           (case txt_match mem Source Search 0 of
              None \<Rightarrow> None
            | Some (Pos, Skip) \<Rightarrow>
                if Pos = [] then Some (Some Source, Source, Skip)
                else txt_scan mem Search (Source + 1) (None, Source, Skip))
         else Some st)
      else None)"
  by pat_completeness auto
termination
  by (relation "measure (\<lambda>(mem, _, s, _). length mem - s)") auto

partial_function (option) txt_loop ::
  "byte list \<Rightarrow> byte list \<Rightarrow> bool \<Rightarrow> nat \<Rightarrow> byte list \<Rightarrow> nat \<Rightarrow> nat option \<times> nat \<times> nat \<Rightarrow> int \<Rightarrow> nat \<Rightarrow>
     (nat \<times> byte list) option option" where
  "txt_loop Search Replace NoReplacesRestriction End mem Source st MaxReplaces NumReplaces =
     (if Source + length Search \<le> End \<and> (NoReplacesRestriction \<or> MaxReplaces > 0) then
        (case txt_scan mem Search Source st of
           None \<Rightarrow> Some None
         | Some (SourcePos, FirstMatch, Skip) \<Rightarrow>
             (case SourcePos of
                None \<Rightarrow> Some (Some (NumReplaces, mem))
              | Some p \<Rightarrow>
                  (case Option.bind (at_pos mem p (\<lambda>d. CopyMem d Replace))
                          (\<lambda>mem'. at_pos mem' (p + length Search) (\<lambda>d. CopyMem d (replicate Skip 0x20))) of
                     None \<Rightarrow> Some None
                   | Some mem' \<Rightarrow> txt_loop Search Replace NoReplacesRestriction End mem'
                       (FirstMatch + length Search + Skip) (SourcePos, FirstMatch, Skip)
                       (MaxReplaces - 1) (NumReplaces + 1))))
      else Some (Some (NumReplaces, mem)))"

definition SearchAndReplaceTxt ::
  "byte list option \<Rightarrow> nat \<Rightarrow> byte list option \<Rightarrow> byte list option \<Rightarrow> int \<Rightarrow> (nat \<times> byte list) option option" where
  "SearchAndReplaceTxt Source SourceSize Search Replace MaxReplaces =
     (case (Source, Search, Replace) of
        (Some mem, Some s, Some r) \<Rightarrow>
          if s = [] then Some (Some (0, mem))
          else txt_loop s r (MaxReplaces \<le> 0) SourceSize mem 0 (None, 0, 0) MaxReplaces 0
      | _ \<Rightarrow> Some (Some (0, case Source of None \<Rightarrow> [] | Some mem \<Rightarrow> mem)))"

section \<open>Specification: masked windows and leftmost non-overlapping matches\<close>

definition mask_byte :: "byte list option \<Rightarrow> nat \<Rightarrow> byte" where
  "mask_byte msk i = (case msk of None \<Rightarrow> 0xFF | Some m \<Rightarrow> if i < length m then m ! i else 0xFF)"

definition hit :: "byte list \<Rightarrow> byte list option \<Rightarrow> byte list \<Rightarrow> nat \<Rightarrow> bool" where
  "hit Search msk mem p \<longleftrightarrow>
     (\<forall>i<length Search. mem ! (p + i) AND mask_byte msk i = Search ! i AND mask_byte msk i)"

definition patch :: "nat \<Rightarrow> byte list \<Rightarrow> byte list option \<Rightarrow> nat \<Rightarrow> byte list \<Rightarrow> byte list" where
  "patch w Replace msk p mem =
     map (\<lambda>j. if p \<le> j \<and> j < p + w
              then (mem ! j AND NOT (mask_byte msk (j - p))) OR (Replace ! (j - p) AND mask_byte msk (j - p))
              else mem ! j) [0..<length mem]"

function greedy :: "(nat \<Rightarrow> bool) \<Rightarrow> nat \<Rightarrow> nat \<Rightarrow> nat \<Rightarrow> nat list" where
  "greedy h w pos End =
     (if 0 < w \<and> pos < End then
        (if h pos then pos # greedy h w (pos + w) End else greedy h w (pos + 1) End)
      else [])"
  by pat_completeness auto
termination
  by (relation "measure (\<lambda>(_, _, p, e). e - p)") auto

definition limit :: "int \<Rightarrow> nat list \<Rightarrow> nat list" where
  "limit MaxReplaces ps = (if MaxReplaces \<le> 0 then ps else take (nat MaxReplaces) ps)"

declare count_loop.simps [code] txt_loop.simps [code] replace_loop.simps [simp del] mask_loop.simps [simp del]
  find_loop.simps [simp del] txt_match.simps [simp del] txt_scan.simps [simp del] greedy.simps [simp del]

lemma greedy_stop: "\<not> (0 < w \<and> pos < End) \<Longrightarrow> greedy h w pos End = []"
  by (subst greedy.simps) (auto split: if_splits)

text \<open>
  What a patching loop relies on: whether a window is a match depends on the bytes of
  the window only, and patching changes those bytes only.
\<close>

locale window_patch =
  fixes w :: nat
    and h :: "byte list \<Rightarrow> nat \<Rightarrow> bool"
    and pt :: "nat \<Rightarrow> byte list \<Rightarrow> byte list"
  assumes h_local: "(\<And>i. i < w \<Longrightarrow> m ! (p + i) = m' ! (p + i)) \<Longrightarrow> h m p = h m' p"
    and pt_length: "length (pt p m) = length m"
    and pt_frame: "j < length m \<Longrightarrow> j < p \<or> p + w \<le> j \<Longrightarrow> pt p m ! j = m ! j"
begin

lemma greedy_ge: "q \<in> set (greedy g w pos End) \<Longrightarrow> pos \<le> q \<and> q < End \<and> g q"
  by (induction g w pos End rule: greedy.induct) (subst (asm) (2) greedy.simps, fastforce split: if_splits)

lemma h_patch: "p + w \<le> q \<Longrightarrow> q + w \<le> length m \<Longrightarrow> h (pt p m) q = h m q"
  by (rule h_local) (simp add: pt_frame)

lemma greedy_patch:
  assumes "End + w \<le> Suc (length m)"
  shows "p + w \<le> pos \<Longrightarrow> greedy (h (pt p m)) w pos End = greedy (h m) w pos End"
proof (induction "End - pos" arbitrary: pos rule: less_induct)
  case less
  show ?case
  proof (cases "0 < w \<and> pos < End")
    case True
    then have "greedy (h (pt p m)) w q End = greedy (h m) w q End" if "q = pos + 1 \<or> q = pos + w" for q
      using that less by auto
    moreover have "h (pt p m) pos = h m pos"
      using True less.prems assms by (intro h_patch) auto
    ultimately show ?thesis
      by (simp add: greedy.simps [of _ w pos])
  qed (simp add: greedy_stop)
qed

lemma greedy_apart: "sorted_wrt (\<lambda>p q. p + w \<le> q) (greedy g w pos End)"
proof (induction "End - pos" arbitrary: pos rule: less_induct)
  case less
  then show ?case
    using greedy_ge [of _ g "pos + w" End] by (subst greedy.simps) auto
qed

lemma greedy_covers:
  assumes "0 < w" "pos \<le> q" "q < End" "g q"
  shows "\<exists>p \<in> set (greedy g w pos End). p \<le> q \<and> q < p + w"
  using assms(2)
proof (induction "End - pos" arbitrary: pos rule: less_induct)
  case less
  have gs: "greedy g w pos End = (if g pos then pos # greedy g w (pos + w) End else greedy g w (pos + 1) End)"
    using assms less.prems by (subst greedy.simps) auto
  show ?case
  proof (cases "g pos")
    case True
    then show ?thesis
      using gs less.hyps [of "pos + w"] less.prems assms by (cases "q < pos + w") auto
  next
    case False
    then have "pos \<noteq> q" using assms by auto
    then show ?thesis
      using gs less.hyps [of "pos + 1"] False less.prems assms by auto
  qed
qed

lemma fold_length: "length (fold pt ps m) = length m"
  by (induction ps arbitrary: m) (simp_all add: pt_length)

lemma fold_frame:
  "j < length m \<Longrightarrow> (\<And>p. p \<in> set ps \<Longrightarrow> j < p \<or> p + w \<le> j) \<Longrightarrow> fold pt ps m ! j = m ! j"
  by (induction ps arbitrary: m) (simp_all add: pt_length pt_frame)

end

lemma patch_length [simp]: "length (patch w r msk p mem) = length mem"
  by (simp add: patch_def)

lemma patch_nth:
  "j < length mem \<Longrightarrow> patch w r msk p mem ! j =
     (if p \<le> j \<and> j < p + w
      then (mem ! j AND NOT (mask_byte msk (j - p))) OR (r ! (j - p) AND mask_byte msk (j - p)) else mem ! j)"
  by (simp add: patch_def)

interpretation masked: window_patch "length s" "hit s ms" "patch (length s) r mr"
  by unfold_locales (auto simp: hit_def patch_nth)

section \<open>The comparison and copy routines\<close>

lemma CompareMem_eq: "length s \<le> length src \<Longrightarrow> CompareMem src s = Some (\<forall>i<length s. src ! i = s ! i)"
  by (induction src s rule: CompareMem.induct) (auto simp: less_Suc_eq_0_disj)

lemma mask_byte_0: "mask_byte (Some m) 0 = (case m of [] \<Rightarrow> 0xFF | a # _ \<Rightarrow> a)"
  by (simp add: mask_byte_def split: list.split)

lemma mask_byte_Suc: "mask_byte (Some m) (Suc i) = mask_byte (Some (tl m)) i"
  by (cases m) (simp_all add: mask_byte_def)

lemma compare_masked_eq:
  "length s \<le> length src \<Longrightarrow> compare_masked src s m =
     Some (\<forall>i<length s. src ! i AND mask_byte (Some m) i = s ! i AND mask_byte (Some m) i)"
proof (induction src s m rule: compare_masked.induct)
  case (3 x xs s ss m)
  then show ?case
    unfolding compare_masked.simps Let_def mask_byte_0 [symmetric]
    by (simp add: All_less_Suc2 mask_byte_Suc)
qed auto

lemma byte_0xFF: "(0xFF :: byte) = - 1"
  by simp

lemma and_0xFF [simp]: "(x :: byte) AND 0xFF = x"
  unfolding byte_0xFF by simp

lemma CompareMemMask_hit:
  assumes "p + length s \<le> length mem"
  shows "CompareMemMask (drop p mem) s msk = Some (hit s msk mem p)"
proof (cases "msk = None \<or> msk = Some []")
  case True
  then have "mask_byte msk i = 0xFF" for i by (auto simp: mask_byte_def)
  then show ?thesis
    using True assms by (auto simp: CompareMemMask_def CompareMem_eq hit_def)
next
  case False
  then obtain m where "msk = Some m" "m \<noteq> []" by auto
  then show ?thesis
    using assms by (simp add: CompareMemMask_def compare_masked_eq hit_def)
qed

lemma CopyMem_eq: "length r \<le> length d \<Longrightarrow> CopyMem d r = Some (r @ drop (length r) d)"
  by (induction d r rule: CopyMem.induct) auto

lemma copy_masked_eq:
  "length r \<le> length d \<Longrightarrow> length r \<le> length m \<Longrightarrow> copy_masked d r m =
     Some (map (\<lambda>i. ((d ! i XOR r ! i) AND m ! i) XOR d ! i) [0..<length r] @ drop (length r) d)"
  by (induction d r m rule: copy_masked.induct) (simp_all add: map_upt_Suc del: upt_Suc)

lemma blend_eq: "((d XOR r) AND m) XOR d = (d AND NOT m) OR (r AND m)" for d r m :: byte
  by (rule bit_eqI) (auto simp: bit_simps)

lemma patch_split:
  assumes "p + w \<le> length mem"
  shows "patch w r msk p mem = take p mem @
    map (\<lambda>i. (mem ! (p + i) AND NOT (mask_byte msk i)) OR (r ! i AND mask_byte msk i)) [0..<w] @ drop (p + w) mem"
  unfolding patch_def map_window [OF assms] by simp

lemma CopyMemMask_patch:
  assumes "p + length r \<le> length mem" and "\<forall>m. msk = Some m \<longrightarrow> length m = length r"
  shows "at_pos mem p (\<lambda>d. CopyMemMask d r msk) = Some (patch (length r) r msk p mem)"
proof (cases msk)
  case None
  have "map (\<lambda>i. (mem ! (p + i) AND NOT (mask_byte msk i)) OR (r ! i AND mask_byte msk i)) [0..<length r] = r"
    unfolding None mask_byte_def option.case byte_0xFF by (intro nth_equalityI) simp_all
  then show ?thesis
    using assms None by (simp add: at_pos_def CopyMemMask_def CopyMem_eq patch_split add.commute)
next
  case (Some m)
  then have "map (\<lambda>i. ((drop p mem ! i XOR r ! i) AND m ! i) XOR drop p mem ! i) [0..<length r] =
    map (\<lambda>i. (mem ! (p + i) AND NOT (mask_byte msk i)) OR (r ! i AND mask_byte msk i)) [0..<length r]"
    using assms unfolding blend_eq by (intro map_cong) (simp_all add: mask_byte_def)
  then show ?thesis
    using assms Some by (simp add: at_pos_def CopyMemMask_def copy_masked_eq patch_split add.commute)
qed

section \<open>The replacing loops patch the leftmost non-overlapping matches\<close>

definition chosen :: "bool \<Rightarrow> int \<Rightarrow> int \<Rightarrow> nat list \<Rightarrow> nat list" where
  "chosen nr mx Skip ps = (if nr then drop (nat Skip) ps else take (nat mx) (drop (nat Skip) ps))"

definition pattern_ok :: "byte list \<Rightarrow> byte list \<Rightarrow> byte list option \<Rightarrow> bool" where
  "pattern_ok s r mr \<longleftrightarrow> s \<noteq> [] \<and> length r = length s \<and> (case mr of None \<Rightarrow> True | Some m \<Rightarrow> length m = length s)"

lemma chosen_Cons:
  assumes "0 \<le> Skip" and "nr \<or> mx > 0"
  shows "chosen nr mx Skip (p # ps) =
    (if Skip = 0 then p # chosen nr (mx - 1) Skip ps else chosen nr mx (Skip - 1) ps)"
proof -
  have "nat Skip = Suc (nat (Skip - 1))" if "Skip \<noteq> 0" using that assms by simp
  moreover have "nat mx = Suc (nat (mx - 1))" if "mx > 0" using that by simp
  ultimately show ?thesis using assms by (auto simp: chosen_def)
qed

lemma mask_loop_stop:
  "\<not> (s \<noteq> [] \<and> pos < End \<and> (nr \<or> mx > 0)) \<Longrightarrow>
   mask_loop s ms r mr nr End mem pos mx Skip Num = Some (Num, mem)"
  by (subst mask_loop.simps) (auto split: if_splits)

lemma mask_loop_step:
  assumes "pattern_ok s r mr" "pos < End" "End + length s \<le> Suc (length mem)" "nr \<or> mx > 0"
  shows "mask_loop s ms r mr nr End mem pos mx Skip Num =
    (if hit s ms mem pos then
       (if Skip = 0 then mask_loop s ms r mr nr End (patch (length s) r mr pos mem) (pos + length s) (mx - 1) Skip (Num + 1)
        else mask_loop s ms r mr nr End mem (pos + length s) mx (Skip - 1) Num)
     else mask_loop s ms r mr nr End mem (pos + 1) mx Skip Num)"
proof -
  have fits: "pos + length s \<le> length mem" using assms by linarith
  have "at_pos mem pos (\<lambda>d. CopyMemMask d r mr) = Some (patch (length s) r mr pos mem)"
    using CopyMemMask_patch [of pos r mem mr] fits assms(1) by (auto simp: pattern_ok_def split: option.splits)
  then show ?thesis
    using assms CompareMemMask_hit [OF fits, of ms] by (subst mask_loop.simps) (simp add: pattern_ok_def)
qed

lemma mask_loop_patches:
  assumes ok: "pattern_ok s r mr"
  shows "End + length s \<le> Suc (length mem) \<Longrightarrow> 0 \<le> Skip \<Longrightarrow>
    mask_loop s ms r mr nr End mem pos mx Skip Num =
      (let ps = chosen nr mx Skip (greedy (hit s ms mem) (length s) pos End)
       in Some (Num + length ps, fold (patch (length s) r mr) ps mem))"
proof (induction "End - pos" arbitrary: mem pos mx Skip Num rule: less_induct)
  case less
  have s: "s \<noteq> []" using ok by (auto simp: pattern_ok_def)
  consider "\<not> pos < End" | "pos < End" "\<not> (nr \<or> mx > 0)" | "pos < End" "nr \<or> mx > 0" by blast
  then show ?case
  proof cases
    case 1
    then show ?thesis by (simp add: mask_loop_stop greedy_stop chosen_def)
  next
    case 2
    then show ?thesis by (simp add: mask_loop_stop chosen_def)
  next
    case 3
    note IH = less.hyps [OF _ less.prems(1)] less.hyps [where mem = "patch (length s) r mr pos mem"]
    have g: "greedy (hit s ms mem) (length s) pos End =
      (if hit s ms mem pos then pos # greedy (hit s ms mem) (length s) (pos + length s) End
       else greedy (hit s ms mem) (length s) (pos + 1) End)"
      using s 3 by (subst greedy.simps) auto
    show ?thesis
      unfolding mask_loop_step [OF ok 3(1) less.prems(1) 3(2)] g
      using s 3 less.prems masked.greedy_patch [OF less.prems(1) order_refl, of ms r mr pos]
      by (simp add: IH chosen_Cons Let_def diff_less_mono2)
  qed
qed

lemma replace_loop_mask:
  "replace_loop s r nr End mem pos mx Num = mask_loop s None r None nr End mem pos mx 0 Num"
proof (induction s r nr End mem pos mx Num rule: replace_loop.induct)
  case (1 s r nr End mem pos mx Num)
  then show ?case
    by (subst replace_loop.simps, subst mask_loop.simps)
      (auto simp: CompareMemMask_def CopyMemMask_def split: option.split)
qed

lemma count_loop_greedy:
  assumes "s \<noteq> []"
  shows "End + length s \<le> Suc (length mem) \<Longrightarrow>
    count_loop mem s End pos Num = Some (Some (Num + length (greedy (hit s None mem) (length s) pos End)))"
proof (induction "End - pos" arbitrary: pos Num rule: less_induct)
  case less
  show ?case
  proof (cases "pos < End")
    case True
    then have "pos + length s \<le> length mem" using less.prems by linarith
    then have "CompareMem (drop pos mem) s = Some (hit s None mem pos)"
      using CompareMemMask_hit [of pos s mem None] by (simp add: CompareMemMask_def)
    then show ?thesis
      using True less assms
      by (subst count_loop.simps, subst greedy.simps) (simp add: diff_less_mono2)
  next
    case False
    then show ?thesis by (simp add: count_loop.simps greedy_stop)
  qed
qed

lemma count_loop_ends:
  assumes "count_loop mem s End pos Num = Some y"
  shows "s = [] \<longrightarrow> \<not> pos < End"
  by (rule count_loop.raw_induct [where P = "\<lambda>mem s End pos Num y. s = [] \<longrightarrow> \<not> pos < End", OF _ assms])
    (auto split: if_splits option.splits)

lemma find_loop_spec:
  assumes "\<And>j. i \<le> j \<Longrightarrow> j < bound \<Longrightarrow> j + length s \<le> length mem"
  shows "find_loop mem s ms bound i =
    Some (case find (hit s ms mem) [i..<bound] of None \<Rightarrow> MAX_UINTN | Some j \<Rightarrow> word_of_nat j)"
  using assms
proof (induction "bound - i" arbitrary: i rule: less_induct)
  case less
  show ?case
  proof (cases "i < bound")
    case True
    then have "CompareMemMask (drop i mem) s ms = Some (hit s ms mem i)"
      using less.prems by (intro CompareMemMask_hit) auto
    then show ?thesis
      using True less by (subst find_loop.simps) (simp add: upt_conv_Cons)
  next
    case False
    then show ?thesis by (simp add: find_loop.simps)
  qed
qed

section \<open>Properties\<close>

text \<open>
  C10: \<open>SearchAndReplaceMask\<close> refines its specification. When the pattern, the
  replacement and a given replace mask have the same non-zero length and the mapped
  memory reaches far enough for the last comparison, the call does not fault; it patches,
  in order, the leftmost non-overlapping masked matches that start below \<open>SourceSize\<close>,
  leaving out the first \<open>Skip\<close> of them and stopping after \<open>MaxReplaces\<close> when that is
  positive, and returns their number.
\<close>
theorem SearchAndReplaceMask_spec:
  assumes "pattern_ok s r mr" and "SourceSize + length s \<le> Suc (length mem)" and "0 \<le> Skip"
  shows "SearchAndReplaceMask (Some mem) SourceSize (Some s) ms (Some r) mr MaxReplaces Skip =
    (let ps = limit MaxReplaces (drop (nat Skip) (greedy (hit s ms mem) (length s) 0 SourceSize))
     in Some (length ps, fold (patch (length s) r mr) ps mem))"
proof -
  have "s \<noteq> []" using assms(1) by (auto simp: pattern_ok_def)
  then show ?thesis
    using mask_loop_patches [OF assms(1,2,3), of ms "MaxReplaces \<le> 0" 0 MaxReplaces 0]
    by (simp add: SearchAndReplaceMask_def chosen_def limit_def Let_def)
qed

theorem SearchAndReplaceMask_spec_witness:
  "SearchAndReplaceMask (Some [1, 7, 0x41, 1, 9, 1, 8, 0]) 7 (Some [1, 0]) (Some [0xFF, 0]) (Some [2, 0xFF])
     (Some [0xFF, 0x0F]) 1 1 = Some (1, [1, 7, 0x41, 2, 0xF, 1, 8, 0])"
  using SearchAndReplaceMask_spec [of "[1, 0]" "[2, 0xFF]" "Some [0xFF, 0x0F]" 7 "[1, 7, 0x41, 1, 9, 1, 8, 0]" 1
      "Some [0xFF, 0]" 1]
  by code_simp



text \<open>
  C12: \<open>SearchAndReplace\<close> is \<open>SearchAndReplaceMask\<close> without masks and without skipping,
  for all arguments, null pointers, faults and restrictions included.
\<close>
theorem SearchAndReplace_no_mask:
  "SearchAndReplace Source SourceSize Search Replace MaxReplaces =
   SearchAndReplaceMask Source SourceSize Search None Replace None MaxReplaces 0"
  by (simp add: SearchAndReplace_def SearchAndReplaceMask_def replace_loop_mask split: option.split)

text \<open>
  C13: \<open>SearchAndCount\<close> counts what an unrestricted \<open>SearchAndReplace\<close> would replace:
  for a non-empty pattern and mapped memory behind the buffer for the last comparison, both
  end without a fault and return the same number.
\<close>
theorem SearchAndCount_agrees:
  assumes "Search \<noteq> []" and "length Replace = length Search" and "SourceSize + length Search \<le> Suc (length mem)"
  shows "SearchAndCount mem SourceSize Search =
    Some (map_option fst (SearchAndReplace (Some mem) SourceSize (Some Search) (Some Replace) 0))"
  using assms count_loop_greedy [OF assms(1,3), of 0 0]
    mask_loop_patches [of Search Replace None SourceSize mem 0 None True 0 0 0]
  by (simp add: SearchAndCount_def SearchAndReplace_def replace_loop_mask chosen_def Let_def pattern_ok_def)

theorem SearchAndCount_agrees_witness:
  "SearchAndCount [1, 2, 1, 2, 1] 4 [1, 2] =
   Some (map_option fst (SearchAndReplace (Some [1, 2, 1, 2, 1]) 4 (Some [1, 2]) (Some [0, 0]) 0)) \<and>
   SearchAndReplace (Some [1, 2, 1, 2, 1]) 4 (Some [1, 2]) (Some [0, 0]) 0 = Some (2, [0, 0, 0, 0, 1])"
proof -
  have "SearchAndReplace (Some [1, 2, 1, 2, 1]) 4 (Some [1, 2]) (Some [0, 0]) 0 = Some (2, [0, 0, 0, 0, 1])"
    by code_simp
  with SearchAndCount_agrees [of "[1, 2]" "[0, 0]" 4 "[1, 2, 1, 2, 1]"] show ?thesis by simp
qed

text \<open>
  \<open>SearchAndCount\<close> has no guard on an empty pattern, unlike the other routines: it then
  does not return for any non-empty buffer.
\<close>
lemma SearchAndCount_empty_diverges: "0 < SourceSize \<Longrightarrow> SearchAndCount mem SourceSize [] = None"
  using count_loop_ends [of mem "[]" SourceSize 0 0] by (cases "SearchAndCount mem SourceSize []") (auto simp: SearchAndCount_def)

text \<open>
  The comparison loop runs up to \<open>SourceSize\<close>, not up to the last full window: a match
  that starts in the buffer and ends behind it is patched, so bytes the caller did not
  hand over change.
\<close>
lemma SearchAndReplace_writes_behind:
  "SearchAndReplace (Some [5, 1, 2]) 2 (Some [1, 2]) (Some [7, 7]) 0 = Some (1, [5, 7, 7])"
  by code_simp

text \<open>Where nothing is mapped behind the buffer the last comparison can fault.\<close>
lemma SearchAndReplace_reads_behind: "SearchAndReplace (Some [5, 1]) 2 (Some [1, 2]) (Some [7, 7]) 0 = None"
  by code_simp

text \<open>
  C14: \<open>FindMemMask\<close> on a mapped buffer that is at least as long as the pattern returns
  the first masked match among the positions below \<open>SourceSize - SearchSize\<close>, and
  \<open>MAX_UINTN\<close> when there is none.
\<close>
theorem FindMemMask_first:
  assumes "s \<noteq> []" and "length s \<le> unat SourceSize" and "unat SourceSize \<le> length mem"
  shows "FindMemMask (Some mem) SourceSize (Some s) ms =
    Some (case find (hit s ms mem) [0..<unat SourceSize - length s] of None \<Rightarrow> MAX_UINTN | Some i \<Rightarrow> word_of_nat i)"
proof -
  have "length s < 2 ^ 64"
    using assms(2) unsigned_less [of SourceSize, where ?'a = nat] by simp
  then have "unat (SourceSize - word_of_nat (length s)) = unat SourceSize - length s"
    using assms(2) by (simp add: unat_sub word_le_nat_alt unat_of_nat_small)
  then show ?thesis
    using assms find_loop_spec [of 0 "unat SourceSize - length s" s mem ms]
    by (simp add: FindMemMask_def)
qed

theorem FindMemMask_first_witness:
  "FindMemMask (Some [4, 1, 7, 1, 2]) 5 (Some [1, 2]) (Some [0xFF, 0]) = Some 1"
proof -
  have "find (hit [1, 2] (Some [0xFF, 0]) [4, 1, 7, 1, 2]) [0..<3] = Some 1" by code_simp
  with FindMemMask_first [of "[1, 2]" 5 "[4, 1, 7, 1, 2]" "Some [0xFF, 0]"] show ?thesis by simp
qed

text \<open>
  The last position is left out: a pattern equal to the whole buffer is never found.
\<close>
lemma FindMemMask_misses_last:
  "FindMemMask (Some mem) (word_of_nat (length s)) (Some s) ms = Some MAX_UINTN"
  by (simp add: FindMemMask_def find_loop.simps)

text \<open>
  A buffer shorter than the pattern makes the bound wrap around: the search runs on
  behind the buffer, here until it faults or finds a match there.
\<close>
lemma FindMemMask_short_buffer: "FindMemMask (Some [5, 6, 1, 2]) 1 (Some [1, 2]) None = Some 2"
proof -
  have "unat ((1 :: uintn) - word_of_nat (length [1 :: byte, 2])) = 18446744073709551615"
    by (simp add: unsigned_minus_1_eq_mask mask_eq_exp_minus_1)
  then show ?thesis
    unfolding FindMemMask_def by (simp add: find_loop.simps CompareMemMask_def)
qed

section \<open>The text variant\<close>

lemma at_pos_CopyMem:
  "p + length r \<le> length mem \<Longrightarrow> at_pos mem p (\<lambda>d. CopyMem d r) = Some (take p mem @ r @ drop (p + length r) mem)"
  by (simp add: at_pos_def CopyMem_eq add.commute)

lemma txt_match_safe:
  assumes "z < length mem" "mem ! z = 0"
  shows "i \<le> z \<Longrightarrow> \<exists>P k'. txt_match mem i Pos k = Some (P, k') \<and> k \<le> k' \<and> length P \<le> length Pos \<and>
    i + (length Pos - length P) + (k' - k) \<le> z"
proof (induction "z - i" arbitrary: i Pos k rule: less_induct)
  case less
  show ?case
  proof (cases "mem ! i \<noteq> 0 \<and> Pos \<noteq> []")
    case False
    then show ?thesis
      using less.prems assms by (subst txt_match.simps) auto
  next
    case True
    then have "i < z" using less.prems assms by (metis le_neq_implies_less)
    then have IH: "\<exists>P k'. txt_match mem (i + 1) Q l = Some (P, k') \<and> l \<le> k' \<and> length P \<le> length Q \<and>
      i + 1 + (length Q - length P) + (k' - l) \<le> z" for Q l
      by (intro less.hyps) auto
    show ?thesis
      using True less.prems assms IH [of Pos "k + 1"] IH [of "tl Pos" k] by (subst txt_match.simps) auto
  qed
qed

lemma txt_scan_safe:
  assumes "z < length mem" "mem ! z = 0"
  shows "i \<le> z \<Longrightarrow> \<exists>sp f k. txt_scan mem s i st = Some (sp, f, k) \<and>
    ((sp, f, k) = st \<or> sp = None \<or> sp = Some f \<and> f + length s + k \<le> z)"
proof (induction "z - i" arbitrary: i st rule: less_induct)
  case less
  show ?case
  proof (cases "mem ! i = 0")
    case True
    then show ?thesis
      using less.prems assms by (cases st) (subst txt_scan.simps, auto)
  next
    case False
    then have "i < z" using less.prems assms by (metis le_neq_implies_less)
    obtain P k where m: "txt_match mem i s 0 = Some (P, k)" "i + (length s - length P) + k \<le> z"
      using txt_match_safe [OF assms less.prems, of s 0] by auto
    have "\<exists>sp f k'. txt_scan mem s (i + 1) (None, i, k) = Some (sp, f, k') \<and>
      ((sp, f, k') = (None, i, k) \<or> sp = None \<or> sp = Some f \<and> f + length s + k' \<le> z)"
      using \<open>i < z\<close> by (intro less.hyps) auto
    then show ?thesis
      using m False less.prems assms by (subst txt_scan.simps) auto
  qed
qed

lemma txt_write_safe:
  assumes "p + length r + k \<le> z" "z < length mem" "mem ! z = 0"
  shows "\<exists>mem'. Option.bind (at_pos mem p (\<lambda>d. CopyMem d r))
      (\<lambda>mem'. at_pos mem' (p + length r) (\<lambda>d. CopyMem d (replicate k 0x20))) = Some mem' \<and>
    length mem' = length mem \<and> mem' ! z = 0"
proof -
  have "\<not> z < p + length r + k" "\<not> z < p + length r" "\<not> z - p < length r" "\<not> z - (p + length r) < k"
    using assms(1) by linarith+
  then show ?thesis using assms by (simp add: at_pos_CopyMem nth_append)
qed

lemma txt_loop_restricted:
  assumes "length r = length s" "s \<noteq> []"
  shows "z < length mem \<Longrightarrow> mem ! z = 0 \<Longrightarrow> Source \<le> z \<Longrightarrow>
    (case st of (None, _) \<Rightarrow> True | (Some p, f, k) \<Rightarrow> p = f \<and> f + length s + k \<le> z) \<Longrightarrow>
    \<exists>n mem'. txt_loop s r False End mem Source st (int mx) num = Some (Some (n, mem')) \<and>
      n \<le> num + mx \<and> length mem' = length mem"
proof (induction mx arbitrary: mem Source st num)
  case 0
  then show ?case by (simp add: txt_loop.simps)
next
  case (Suc mx)
  obtain sp f k where sc: "txt_scan mem s Source st = Some (sp, f, k)"
    "(sp, f, k) = st \<or> sp = None \<or> sp = Some f \<and> f + length s + k \<le> z"
    using txt_scan_safe [OF Suc.prems(1-3)] by blast
  show ?case
  proof (cases sp)
    case None
    then show ?thesis using sc by (simp add: txt_loop.simps)
  next
    case (Some p)
    then have p: "p = f" "f + length s + k \<le> z" using sc Suc.prems(4) by auto
    obtain mem' where w: "Option.bind (at_pos mem p (\<lambda>d. CopyMem d r))
        (\<lambda>mem'. at_pos mem' (p + length s) (\<lambda>d. CopyMem d (replicate k 0x20))) = Some mem'"
      "length mem' = length mem" "mem' ! z = 0"
      using txt_write_safe [of p r k z mem] p Suc.prems assms(1) by auto
    have "\<exists>n mem''. txt_loop s r False End mem' (f + length s + k) (sp, f, k) (int mx) (num + 1) = Some (Some (n, mem'')) \<and>
      n \<le> num + 1 + mx \<and> length mem'' = length mem'"
      using w p Suc.prems Some by (intro Suc.IH) auto
    then show ?thesis
      using sc Some w by (subst txt_loop.simps) (auto simp: not_le)
  qed
qed

text \<open>
  C15: \<open>SearchAndReplaceTxt\<close> with a positive \<open>MaxReplaces\<close> ends and stays inside the
  mapped memory as soon as there is one zero byte to stop at: it makes at most
  \<open>MaxReplaces\<close> replacements and keeps the length of the buffer.
\<close>
theorem SearchAndReplaceTxt_restricted:
  assumes "length Replace = length Search" and "z < length mem" and "mem ! z = 0" and "0 < MaxReplaces"
  shows "\<exists>n mem'. SearchAndReplaceTxt (Some mem) SourceSize (Some Search) (Some Replace) MaxReplaces =
    Some (Some (n, mem')) \<and> int n \<le> MaxReplaces \<and> length mem' = length mem"
proof (cases "Search = []")
  case True
  then show ?thesis using assms by (simp add: SearchAndReplaceTxt_def)
next
  case False
  have "\<exists>n mem'. txt_loop Search Replace False SourceSize mem 0 (None, 0, 0) (int (nat MaxReplaces)) 0 = Some (Some (n, mem')) \<and>
      n \<le> 0 + nat MaxReplaces \<and> length mem' = length mem"
    using False assms by (intro txt_loop_restricted) auto
  then show ?thesis
    using False assms by (auto simp: SearchAndReplaceTxt_def not_le)
qed

theorem SearchAndReplaceTxt_restricted_witness:
  "\<exists>n mem'. SearchAndReplaceTxt (Some [0x61, 0x20, 0x62, 0x63, 0]) 5 (Some [0x61, 0x62]) (Some [0x78, 0x79]) 1 =
    Some (Some (n, mem')) \<and> int n \<le> 1 \<and> length mem' = 5"
  using SearchAndReplaceTxt_restricted [of "[0x78, 0x79]" "[0x61, 0x62]" 4 "[0x61, 0x20, 0x62, 0x63, 0]" 1 5]
  by (simp add: numeral_eq_Suc)

text \<open>What the call does to that text: the skipped blank moves behind the replacement.\<close>
lemma SearchAndReplaceTxt_example:
  "SearchAndReplaceTxt (Some [0x61, 0x20, 0x62, 0x63, 0]) 5 (Some [0x61, 0x62]) (Some [0x78, 0x79]) 1 =
   Some (Some (1, [0x78, 0x79, 0x20, 0x63, 0]))"
  by code_simp

text \<open>
  Without a restriction a match that ends right at the end of its string is replaced
  again and again, because \<open>SourcePos\<close> still names it when the scan starts on the zero.
\<close>
lemma at_pos_Some: "at_pos mem p Some = Some mem"
  by (simp add: at_pos_def)

lemma txt_scan_stale:
  "txt_scan [0x61, 0, 0] [0x61] 0 st = Some (Some 0, 0, 0)" "txt_scan [0x62, 0, 0] [0x61] (Suc 0) st = Some st"
proof -
  have "txt_match [0x61, 0, 0] 0 [0x61] 0 = Some ([], 0)" by code_simp
  then show "txt_scan [0x61, 0, 0] [0x61] 0 st = Some (Some 0, 0, 0)"
    "txt_scan [0x62, 0, 0] [0x61] (Suc 0) st = Some st"
    by (subst txt_scan.simps, simp)+
qed

lemma txt_loop_stale:
  assumes "txt_loop s r nr End mem Source st mx num = Some y"
  shows "\<not> (s = [0x61] \<and> r = [0x62] \<and> nr \<and> End = 3 \<and>
    (mem = [0x61, 0, 0] \<and> Source = 0 \<or> mem = [0x62, 0, 0] \<and> Source = 1 \<and> st = (Some 0, 0, 0)))"
  by (rule txt_loop.raw_induct [where P = "\<lambda>s r nr End mem Source st mx num y.
      \<not> (s = [0x61] \<and> r = [0x62] \<and> nr \<and> End = 3 \<and>
        (mem = [0x61, 0, 0] \<and> Source = 0 \<or> mem = [0x62, 0, 0] \<and> Source = 1 \<and> st = (Some 0, 0, 0)))", OF _ assms])
    (rule notI, elim conjE disjE, (simp add: txt_scan_stale at_pos_CopyMem at_pos_Some, blast)+)

lemma SearchAndReplaceTxt_diverges:
  "SearchAndReplaceTxt (Some [0x61, 0, 0]) 3 (Some [0x61]) (Some [0x62]) 0 = None"
  using txt_loop_stale [of "[0x61]" "[0x62]" True 3 "[0x61, 0, 0]" 0 "(None, 0, 0)" 0 0]
  by (cases "txt_loop [0x61] [0x62] True 3 [0x61, 0, 0] 0 (None, 0, 0) 0 0") (auto simp: SearchAndReplaceTxt_def)

end
