(* ===== verification/Unicode_Char.thy ===== *)
theory Unicode_Char
  imports Clover_Prelude
begin

text \<open>
  The one-character routines of \<open>cpp_foundation/unicode_conversions.cpp\<close>: how a code
  point is written as UTF-8, UTF-16 or UTF-32 units and read back.

  A pointer into a zero terminated source string is the list of the units from there to
  the terminator, which is read as 0 by \<open>at\<close>. The lemmas \<open>utf8_ignores_rest\<close> and
  \<open>utf16_ignores_rest\<close> show that this loses nothing: no routine looks behind the
  terminator. A routine that stores units at \<open>dst\<close> and counts \<open>*dst_max_size\<close> down returns
  the stored units and the new count. Sizes (\<open>size_t\<close>) are natural numbers.
\<close>

definition at :: "'u :: zero list \<Rightarrow> nat \<Rightarrow> 'u" where
  "at s i = (if i < length s then s ! i else 0)"

section \<open>Surrogates\<close>

definition is_surrogate :: "char16 \<Rightarrow> bool" where
  "is_surrogate uc \<longleftrightarrow> (ucast uc :: 32 word) - 0xd800 < 2048"

definition is_high_surrogate :: "char16 \<Rightarrow> bool" where
  "is_high_surrogate uc \<longleftrightarrow> (ucast uc :: 32 word) AND 0xfffffc00 = 0xd800"

definition is_low_surrogate :: "char16 \<Rightarrow> bool" where
  "is_low_surrogate uc \<longleftrightarrow> (ucast uc :: 32 word) AND 0xfffffc00 = 0xdc00"

definition surrogate_to_utf32 :: "char16 \<Rightarrow> char16 \<Rightarrow> char32" where
  "surrogate_to_utf32 high low = push_bit 10 (ucast high) + ucast low - 0x35fdc00"

section \<open>Writing a code point\<close>

definition utf8_size_of_utf32_char :: "char32 \<Rightarrow> nat" where
  "utf8_size_of_utf32_char c =
     (if c = 0 then 0 else if c \<le> 0x7f then 1 else if c \<le> 0x7ff then 2 else if c \<le> 0xFFFF then 3 else 4)"

function utf8_tail :: "char32 \<Rightarrow> int \<Rightarrow> byte list" where
  "utf8_tail c bits =
     (if bits \<ge> 0 then ucast ((drop_bit (nat bits) c AND 0x3F) OR 0x80) # utf8_tail c (bits - 6) else [])"
  by pat_completeness auto
termination
  by (relation "measure (\<lambda>(_, b). nat (b + 6))") auto

declare utf8_tail.simps [simp del]

definition get_utf8_from_char32 :: "nat \<Rightarrow> char32 \<Rightarrow> byte list \<times> nat" where
  "get_utf8_from_char32 dst_max_size c =
     (let put = (\<lambda>lead bits. let bs = lead # utf8_tail c bits in (bs, dst_max_size - length bs)) in
      if dst_max_size \<le> 0 then ([], dst_max_size)
      else if c < 0x80 then put (ucast c) (- 6)
      else if c < 0x800 then
        (if dst_max_size < 2 then ([], 0) else put (ucast ((drop_bit 6 c AND 0x1F) OR 0xC0)) 0)
      else if c < 0x10000 then
        (if dst_max_size < 3 then ([], 0) else put (ucast ((drop_bit 12 c AND 0x0F) OR 0xE0)) 6)
      else
        (if dst_max_size < 4 then ([], 0) else put (ucast ((drop_bit 18 c AND 0x07) OR 0xF0)) 12))"

definition utf16_size_of_utf32_char :: "char32 \<Rightarrow> nat" where
  "utf16_size_of_utf32_char c = (if c \<le> 0xFFFF then 1 else 2)"

definition get_char16_from_char32 :: "char32 \<Rightarrow> char16 \<times> char16" where
  "get_char16_from_char32 c =
     (if c \<le> 0xFFFF then (ucast c, 0)
      else let d = c - 0x10000 in (ucast (drop_bit 10 d + 0xD800), ucast ((d AND 0x3FF) + 0xDC00)))"

definition get_utf16_from_char32 :: "nat \<Rightarrow> char32 \<Rightarrow> char16 list \<times> nat" where
  "get_utf16_from_char32 dst_max_size c =
     (if dst_max_size \<le> 0 then ([], dst_max_size)
      else let (char16_1, char16_2) = get_char16_from_char32 c in
        if char16_2 \<noteq> 0 then
          (if dst_max_size < 2 then ([], 0) else ([char16_1, char16_2], dst_max_size - 2))
        else
          (if dst_max_size < 1 then ([], 0) else ([char16_1], dst_max_size - 1)))"

definition get_utf32_from_char32 :: "nat \<Rightarrow> char32 \<Rightarrow> char32 list \<times> nat" where
  "get_utf32_from_char32 dst_max_size c =
     (if dst_max_size \<le> 0 then ([], dst_max_size) else ([c], dst_max_size - 1))"

section \<open>Reading a code point\<close>

text \<open>The result is the new pointer and the code point, 0 at the end and at an error.\<close>

definition get_char32_from_utf8_string :: "byte list \<Rightarrow> byte list \<times> char32" where
  "get_char32_from_utf8_string s =
     (let b = (\<lambda>i. ucast (at s i) :: char32) in
      if at s 0 = 0 then (s, 0)
      else if at s 0 AND 0x80 \<noteq> 0 then
        (if at s 1 AND 0xc0 \<noteq> 0x80 then (s, 0)
         else if at s 0 AND 0xe0 = 0xe0 then
           (if at s 2 AND 0xc0 \<noteq> 0x80 then (s, 0)
            else if at s 0 AND 0xf0 = 0xf0 then
              (if at s 0 AND 0xf8 \<noteq> 0xf0 \<or> at s 3 AND 0xc0 \<noteq> 0x80 then (s, 0)
               else (drop 4 s, push_bit 18 (b 0 AND 0x7) OR push_bit 12 (b 1 AND 0x3f) OR
                               push_bit 6 (b 2 AND 0x3f) OR (b 3 AND 0x3f)))
            else (drop 3 s, push_bit 12 (b 0 AND 0xf) OR push_bit 6 (b 1 AND 0x3f) OR (b 2 AND 0x3f)))
         else (drop 2 s, push_bit 6 (b 0 AND 0x1f) OR (b 1 AND 0x3f)))
      else (drop 1 s, b 0))"

definition get_char32_from_char16 :: "char16 \<Rightarrow> char16 \<Rightarrow> char32" where
  "get_char32_from_char16 char16_1 char16_2 =
     (if \<not> is_surrogate char16_1 then ucast char16_1
      else if is_high_surrogate char16_1 \<and> is_low_surrogate char16_2 then surrogate_to_utf32 char16_1 char16_2
      else 0)"

definition get_char32_from_utf16_string :: "char16 list \<Rightarrow> char16 list \<times> char32" where
  "get_char32_from_utf16_string s =
     (let char16_1 = at s 0 in
      if char16_1 = 0 then (s, 0)
      else if \<not> is_surrogate char16_1 then (drop 1 s, ucast char16_1)
      else if is_high_surrogate char16_1 \<and> is_low_surrogate (at s 1) then
        (drop 2 s, surrogate_to_utf32 char16_1 (at s 1))
      else if \<not> is_high_surrogate char16_1 then (s, 0)
      else (drop 1 s, 0))"

section \<open>The encodings\<close>

text \<open>The units a code point is written as when there is room for them.\<close>

definition utf8 :: "char32 \<Rightarrow> byte list" where
  "utf8 c = fst (get_utf8_from_char32 4 c)"

definition utf16 :: "char32 \<Rightarrow> char16 list" where
  "utf16 c = fst (get_utf16_from_char32 2 c)"

definition utf32 :: "char32 \<Rightarrow> char32 list" where
  "utf32 c = fst (get_utf32_from_char32 1 c)"

text \<open>The code points of Unicode text: not the terminator, not a surrogate, at most \<open>0x10FFFF\<close>.\<close>

definition scalar :: "char32 \<Rightarrow> bool" where
  "scalar c \<longleftrightarrow> c \<noteq> 0 \<and> c \<le> 0x10FFFF \<and> \<not> (0xD800 \<le> c \<and> c \<le> 0xDFFF)"

lemma at_simps [simp]: "at [] i = 0" "at (x # xs) 0 = x" "at (x # xs) (Suc i) = at xs i"
  by (simp_all add: at_def)

lemma at_numeral [simp]: "at (x # xs) (numeral n) = at xs (numeral n - 1)" "at (x # xs) 1 = at xs 0"
  by (simp_all add: at_def nth_Cons')

lemma utf8_tail_eval:
  "utf8_tail c 12 = [ucast ((drop_bit 12 c AND 0x3F) OR 0x80), ucast ((drop_bit 6 c AND 0x3F) OR 0x80), ucast ((c AND 0x3F) OR 0x80)]"
  "utf8_tail c 6 = [ucast ((drop_bit 6 c AND 0x3F) OR 0x80), ucast ((c AND 0x3F) OR 0x80)]"
  "utf8_tail c 0 = [ucast ((c AND 0x3F) OR 0x80)]"
  "utf8_tail c (- 6) = []"
  by (simp_all add: utf8_tail.simps)

lemma utf8_cases:
  "utf8 c =
     (if c < 0x80 then [ucast c]
      else if c < 0x800 then [ucast ((drop_bit 6 c AND 0x1F) OR 0xC0), ucast ((c AND 0x3F) OR 0x80)]
      else if c < 0x10000 then [ucast ((drop_bit 12 c AND 0x0F) OR 0xE0), ucast ((drop_bit 6 c AND 0x3F) OR 0x80),
        ucast ((c AND 0x3F) OR 0x80)]
      else [ucast ((drop_bit 18 c AND 0x07) OR 0xF0), ucast ((drop_bit 12 c AND 0x3F) OR 0x80),
        ucast ((drop_bit 6 c AND 0x3F) OR 0x80), ucast ((c AND 0x3F) OR 0x80)])"
  by (simp add: utf8_def get_utf8_from_char32_def utf8_tail_eval Let_def)

section \<open>Bits of the masks\<close>

named_theorems bit_consts \<open>bits of the constants the code masks with\<close>

lemma bit_interval: "w = push_bit k (mask m) \<Longrightarrow> bit (w :: int) n \<longleftrightarrow> k \<le> n \<and> n < k + m"
  by (auto simp: bit_simps)

lemma bits_of_masks [bit_consts]:
  "bit (0x3F :: int) n \<longleftrightarrow> n < 6"
  "bit (0x1F :: int) n \<longleftrightarrow> n < 5"
  "bit (0xF :: int) n \<longleftrightarrow> n < 4"
  "bit (0x7 :: int) n \<longleftrightarrow> n < 3"
  "bit (0x80 :: int) n \<longleftrightarrow> n = 7"
  "bit (0xC0 :: int) n \<longleftrightarrow> 6 \<le> n \<and> n < 8"
  "bit (0xE0 :: int) n \<longleftrightarrow> 5 \<le> n \<and> n < 8"
  "bit (0xF0 :: int) n \<longleftrightarrow> 4 \<le> n \<and> n < 8"
  "bit (0xF8 :: int) n \<longleftrightarrow> 3 \<le> n \<and> n < 8"
  "bit (0x3FF :: int) n \<longleftrightarrow> n < 10"
  "bit (0x7C0 :: int) n \<longleftrightarrow> 6 \<le> n \<and> n < 11"
  "bit (0xF000 :: int) n \<longleftrightarrow> 12 \<le> n \<and> n < 16"
  "bit (0xFC0 :: int) n \<longleftrightarrow> 6 \<le> n \<and> n < 12"
  "bit (0x3F000 :: int) n \<longleftrightarrow> 12 \<le> n \<and> n < 18"
  "bit (0x1C0000 :: int) n \<longleftrightarrow> 18 \<le> n \<and> n < 21"
  subgoal by (subst bit_interval [of _ 0 6], simp add: mask_eq_exp_minus_1, auto)
  subgoal by (subst bit_interval [of _ 0 5], simp add: mask_eq_exp_minus_1, auto)
  subgoal by (subst bit_interval [of _ 0 4], simp add: mask_eq_exp_minus_1, auto)
  subgoal by (subst bit_interval [of _ 0 3], simp add: mask_eq_exp_minus_1, auto)
  subgoal by (subst bit_interval [of _ 7 1], simp add: mask_eq_exp_minus_1, auto)
  subgoal by (subst bit_interval [of _ 6 2], simp add: mask_eq_exp_minus_1, auto)
  subgoal by (subst bit_interval [of _ 5 3], simp add: mask_eq_exp_minus_1, auto)
  subgoal by (subst bit_interval [of _ 4 4], simp add: mask_eq_exp_minus_1, auto)
  subgoal by (subst bit_interval [of _ 3 5], simp add: mask_eq_exp_minus_1, auto)
  subgoal by (subst bit_interval [of _ 0 10], simp add: mask_eq_exp_minus_1, auto)
  subgoal by (subst bit_interval [of _ 6 5], simp add: mask_eq_exp_minus_1, auto)
  subgoal by (subst bit_interval [of _ 12 4], simp add: mask_eq_exp_minus_1, auto)
  subgoal by (subst bit_interval [of _ 6 6], simp add: mask_eq_exp_minus_1, auto)
  subgoal by (subst bit_interval [of _ 12 6], simp add: mask_eq_exp_minus_1, auto)
  subgoal by (subst bit_interval [of _ 18 3], simp add: mask_eq_exp_minus_1, auto)
  done

section \<open>What was written is read back\<close>

lemma cont_bits: "(ucast ((x AND 0x3F) OR 0x80 :: char32) :: byte) AND 0xC0 = 0x80"
  by (rule bit_eqI) (auto simp: bit_simps bit_consts)

lemma cont_value: "(ucast (ucast ((x AND 0x3F) OR 0x80 :: char32) :: byte) :: char32) AND 0x3F = x AND 0x3F"
  by (rule bit_eqI) (auto simp: bit_simps bit_consts)

lemma lead_bits:
  "(ucast ((x AND 0x1F) OR 0xC0 :: char32) :: byte) AND 0xE0 = 0xC0"
  "(ucast ((x AND 0x0F) OR 0xE0 :: char32) :: byte) AND 0xF0 = 0xE0"
  "(ucast ((x AND 0x07) OR 0xF0 :: char32) :: byte) AND 0xF8 = 0xF0"
  by (rule bit_eqI; auto simp: bit_simps bit_consts)+

lemma lead_value:
  "(ucast (ucast ((x AND 0x1F) OR 0xC0 :: char32) :: byte) :: char32) AND 0x1F = x AND 0x1F"
  "(ucast (ucast ((x AND 0x0F) OR 0xE0 :: char32) :: byte) :: char32) AND 0x0F = x AND 0x0F"
  "(ucast (ucast ((x AND 0x07) OR 0xF0 :: char32) :: byte) :: char32) AND 0x07 = x AND 0x07"
  by (rule bit_eqI; auto simp: bit_simps bit_consts)+

text \<open>What the tests of the decoder say of a byte with given leading bits.\<close>

lemma byte_tests:
  "(b :: byte) AND 0xE0 = 0xC0 \<Longrightarrow> b \<noteq> 0 \<and> b AND 0x80 \<noteq> 0 \<and> b AND 0xE0 \<noteq> 0xE0"
  "b AND 0xF0 = 0xE0 \<Longrightarrow> b \<noteq> 0 \<and> b AND 0x80 \<noteq> 0 \<and> b AND 0xE0 = 0xE0 \<and> b AND 0xF0 \<noteq> 0xF0"
  "b AND 0xF8 = 0xF0 \<Longrightarrow> b \<noteq> 0 \<and> b AND 0x80 \<noteq> 0 \<and> b AND 0xE0 = 0xE0 \<and> b AND 0xF0 = 0xF0"
proof -
  have "b AND 0x80 = (b AND 0xE0) AND 0x80" "b AND 0x80 = (b AND 0xF0) AND 0x80" "b AND 0x80 = (b AND 0xF8) AND 0x80"
    "b AND 0xE0 = (b AND 0xF0) AND 0xE0" "b AND 0xE0 = (b AND 0xF8) AND 0xE0" "b AND 0xF0 = (b AND 0xF8) AND 0xF0"
    by (simp_all add: and.assoc)
  then show "b AND 0xE0 = 0xC0 \<Longrightarrow> b \<noteq> 0 \<and> b AND 0x80 \<noteq> 0 \<and> b AND 0xE0 \<noteq> 0xE0"
    "b AND 0xF0 = 0xE0 \<Longrightarrow> b \<noteq> 0 \<and> b AND 0x80 \<noteq> 0 \<and> b AND 0xE0 = 0xE0 \<and> b AND 0xF0 \<noteq> 0xF0"
    "b AND 0xF8 = 0xF0 \<Longrightarrow> b \<noteq> 0 \<and> b AND 0x80 \<noteq> 0 \<and> b AND 0xE0 = 0xE0 \<and> b AND 0xF0 = 0xF0"
    by auto
qed

lemma small_bits: "unat (c :: 'a :: len word) < 2 ^ k \<Longrightarrow> bit c n \<Longrightarrow> n < k"
proof -
  assume "unat c < 2 ^ k" "bit c n"
  then have "bit (unat c) n" by (simp add: bit_unsigned_iff)
  then have "bit (take_bit k (unat c)) n" using \<open>unat c < 2 ^ k\<close> by (simp only: take_bit_nat_eq_self)
  then show "n < k" by (simp add: bit_take_bit_iff)
qed

lemma join_bits2:
  assumes "c < 0x800"
  shows "push_bit 6 (drop_bit 6 c AND 0x1F) OR (c AND 0x3F) = (c :: char32)"
proof -
  have "n < 11" if "bit c n" for n
    using small_bits [of c 11 n] that assms by (simp add: word_less_nat_alt)
  then show ?thesis by (intro bit_eqI) (auto simp: bit_simps bit_consts not_less)
qed

lemma join_bits3:
  assumes "c < 0x10000"
  shows "push_bit 12 (drop_bit 12 c AND 0x0F) OR push_bit 6 (drop_bit 6 c AND 0x3F) OR (c AND 0x3F) = (c :: char32)"
proof -
  have "n < 16" if "bit c n" for n
    using small_bits [of c 16 n] that assms by (simp add: word_less_nat_alt)
  then show ?thesis
    by (intro bit_eqI, rename_tac n, case_tac "n < 12") (auto simp: bit_simps bit_consts not_less)
qed

lemma join_bits4:
  assumes "c < 0x200000"
  shows "push_bit 18 (drop_bit 18 c AND 0x07) OR push_bit 12 (drop_bit 12 c AND 0x3F) OR
    push_bit 6 (drop_bit 6 c AND 0x3F) OR (c AND 0x3F) = (c :: char32)"
proof -
  have "n < 21" if "bit c n" for n
    using small_bits [of c 21 n] that assms by (simp add: word_less_nat_alt)
  then show ?thesis
    by (intro bit_eqI, rename_tac n, case_tac "n < 12"; case_tac "n < 18") (auto simp: bit_simps bit_consts not_less)
qed

lemma ascii_byte: "(c :: char32) < 0x80 \<Longrightarrow> (ucast c :: byte) AND 0x80 = 0 \<and> ucast (ucast c :: byte) = c"
proof -
  assume "c < 0x80"
  then have b: "n < 7" if "bit c n" for n
    using small_bits [of c 7 n] that by (simp add: word_less_nat_alt)
  have "(ucast c :: byte) AND 0x80 = 0"
    by (rule bit_eqI) (auto simp: bit_simps bit_consts dest: b)
  moreover have "ucast (ucast c :: byte) = c"
    by (rule bit_eqI) (auto simp: bit_simps dest: b)
  ultimately show ?thesis by blast
qed

lemma utf8_decode:
  assumes "c \<noteq> 0" "c < 0x200000"
  shows "get_char32_from_utf8_string (utf8 c @ s) = (s, c)"
proof -
  consider "c < 0x80" | "\<not> c < 0x80" "c < 0x800" | "\<not> c < 0x80" "\<not> c < 0x800" "c < 0x10000"
    | "\<not> c < 0x80" "\<not> c < 0x800" "\<not> c < 0x10000" by blast
  then show ?thesis
  proof cases
    case 1
    note a = ascii_byte [OF 1]
    then have "(ucast c :: byte) \<noteq> 0" using assms(1) by force
    with a show ?thesis using 1 assms by (simp add: utf8_cases get_char32_from_utf8_string_def)
  next
    case 2
    then show ?thesis using byte_tests(1) [OF lead_bits(1)]
      by (simp add: utf8_cases get_char32_from_utf8_string_def Let_def cont_bits cont_value lead_value join_bits2 join_bits3 join_bits4 del: push_bit_and)
  next
    case 3
    then show ?thesis using byte_tests(2) [OF lead_bits(2)]
      by (simp add: utf8_cases get_char32_from_utf8_string_def Let_def cont_bits cont_value lead_value join_bits2 join_bits3 join_bits4 del: push_bit_and)
  next
    case 4
    then show ?thesis using byte_tests(3) [OF lead_bits(3)] assms
      by (simp add: utf8_cases get_char32_from_utf8_string_def Let_def cont_bits cont_value lead_value lead_bits join_bits2 join_bits3 join_bits4 del: push_bit_and)
  qed
qed

lemma not_surrogate: "\<not> (0xD800 \<le> c \<and> c \<le> 0xDFFF) \<Longrightarrow> \<not> (c :: char32) - 0xd800 < 2048"
  by (auto simp: word_le_nat_alt word_less_nat_alt unat_sub_if')

lemma ucast_ucast_char16: "unat (c :: char32) < 2 ^ 16 \<Longrightarrow> ucast (ucast c :: char16) = c"
  using small_bits [of c 16] by (intro bit_eqI) (auto simp: bit_simps)

lemma utf16_cases:
  "utf16 c = (if c \<le> 0xFFFF then [ucast c]
     else let d = c - 0x10000 in if (ucast ((d AND 0x3FF) + 0xDC00) :: char16) = 0 then [ucast (drop_bit 10 d + 0xD800)]
       else [ucast (drop_bit 10 d + 0xD800), ucast ((d AND 0x3FF) + 0xDC00)])"
  by (simp add: utf16_def get_utf16_from_char32_def get_char16_from_char32_def Let_def)

lemma top_bits:
  fixes a :: char32
  assumes "unat a < 0x400"
  shows "(a + push_bit 10 k) AND 0xfffffc00 = push_bit 10 k"
proof -
  have a: "\<not> bit a n" if "10 \<le> n" for n using small_bits [of a 10 n] that assms by auto
  have K: "bit (0xfffffc00 :: int) n \<longleftrightarrow> 10 \<le> n \<and> n < 10 + 22" for n
    by (rule bit_interval) (simp add: mask_eq_exp_minus_1)
  have "a + push_bit 10 k = a OR push_bit 10 k"
    by (rule disjunctive_add_eq_or) (auto simp: bit_eq_iff bit_simps a)
  then show ?thesis
    by (auto intro!: bit_eqI simp: bit_simps K a)
qed

lemma surrogate_pair:
  fixes d :: char32
  assumes "d < 0x100000"
  defines "hi \<equiv> drop_bit 10 d + 0xD800" and "lo \<equiv> (d AND 0x3FF) + 0xDC00"
  shows "ucast (ucast hi :: char16) = hi" "ucast (ucast lo :: char16) = lo"
    "hi - 0xd800 < 2048" "hi AND 0xfffffc00 = 0xd800" "lo AND 0xfffffc00 = 0xdc00"
    "push_bit 10 hi + lo - 0x35fdc00 = d + 0x10000"
proof -
  have m: "(0x3FF :: char32) = mask 10" by (simp add: mask_eq_exp_minus_1)
  have h: "unat (drop_bit 10 d) < 0x400"
    using assms(1) by (simp add: drop_bit_eq_div unat_div word_less_nat_alt)
  have l: "unat (d AND 0x3FF) < 0x400"
    by (simp add: m flip: take_bit_eq_mask)
      (simp add: unsigned_take_bit_eq take_bit_nat_less_exp [of 10, simplified])
  show "ucast (ucast hi :: char16) = hi" "ucast (ucast lo :: char16) = lo"
    using h l by (auto intro!: ucast_ucast_char16 simp: hi_def lo_def unat_word_ariths)
  show "hi - 0xd800 < 2048" using h by (simp add: hi_def word_less_nat_alt)
  show "hi AND 0xfffffc00 = 0xd800" "lo AND 0xfffffc00 = 0xdc00"
    unfolding hi_def lo_def using top_bits [OF h, of 54] top_bits [OF l, of 55] by simp_all
  have "push_bit 10 (drop_bit 10 d) + (d AND 0x3FF) = d"
    unfolding m by (simp flip: take_bit_eq_mask add: bits_ident)
  then show "push_bit 10 hi + lo - 0x35fdc00 = d + 0x10000"
    by (simp add: hi_def lo_def push_bit_add algebra_simps)
qed

lemma utf16_decode:
  assumes "scalar c"
  shows "get_char32_from_utf16_string (utf16 c @ s) = (s, c)"
proof (cases "c \<le> 0xFFFF")
  case True
  then have u: "ucast (ucast c :: char16) = c"
    by (intro ucast_ucast_char16) (simp add: word_le_nat_alt)
  then have "(ucast c :: char16) \<noteq> 0" using assms by (force simp: scalar_def)
  then show ?thesis
    using True u assms not_surrogate [of c]
    by (simp add: utf16_cases get_char32_from_utf16_string_def is_surrogate_def scalar_def)
next
  case False
  define d where "d = c - 0x10000"
  have "d < 0x100000"
    using assms False by (auto simp: d_def scalar_def word_less_nat_alt word_le_nat_alt unat_sub_if')
  note sp = surrogate_pair [OF this]
  have ne: "(ucast (drop_bit 10 d + 0xD800) :: char16) \<noteq> 0" "(ucast ((d AND 0x3FF) + 0xDC00) :: char16) \<noteq> 0"
    using sp(1,2,4,5) by force+
  have "c = d + 0x10000" by (simp add: d_def)
  then show ?thesis
    using False sp ne
    by (simp add: utf16_cases Let_def d_def [symmetric] get_char32_from_utf16_string_def is_surrogate_def
        is_high_surrogate_def is_low_surrogate_def surrogate_to_utf32_def)
qed

section \<open>Writing with a bound\<close>

lemma utf8_emit:
  "get_utf8_from_char32 n c = (if length (utf8 c) \<le> n then (utf8 c, n - length (utf8 c)) else ([], 0))"
  by (auto simp: utf8_cases get_utf8_from_char32_def utf8_tail_eval Let_def)

lemma utf16_emit:
  "get_utf16_from_char32 n c = (if length (utf16 c) \<le> n then (utf16 c, n - length (utf16 c)) else ([], 0))"
  by (auto simp: utf16_cases get_utf16_from_char32_def get_char16_from_char32_def Let_def)

lemma utf32_emit:
  "get_utf32_from_char32 n c = (if length (utf32 c) \<le> n then (utf32 c, n - length (utf32 c)) else ([], 0))"
  by (auto simp: utf32_def get_utf32_from_char32_def)

lemma length_utf8 [len_simps]: "c \<noteq> 0 \<Longrightarrow> length (utf8 c) = utf8_size_of_utf32_char c"
  by (auto simp: utf8_cases utf8_size_of_utf32_char_def word_less_nat_alt word_le_nat_alt)

lemma length_utf16 [len_simps]: "c \<le> 0x10FFFF \<Longrightarrow> length (utf16 c) = utf16_size_of_utf32_char c"
proof (cases "c \<le> 0xFFFF")
  case False
  assume "c \<le> 0x10FFFF"
  with False have "c - 0x10000 < 0x100000"
    by (auto simp: word_less_nat_alt word_le_nat_alt unat_sub_if')
  from surrogate_pair(2,5) [OF this] False show ?thesis
    by (force simp: utf16_cases utf16_size_of_utf32_char_def Let_def)
qed (simp add: utf16_cases utf16_size_of_utf32_char_def)

lemma length_utf32 [len_simps]: "length (utf32 c) = 1"
  by (simp add: utf32_def get_utf32_from_char32_def)

lemma utf8_nonempty: "utf8 c \<noteq> []" and utf16_nonempty: "utf16 c \<noteq> []" and utf32_nonempty: "utf32 c \<noteq> []"
  by (auto simp: utf8_cases utf16_cases utf32_def get_utf32_from_char32_def Let_def)

lemma scalar_bounds: "scalar c \<Longrightarrow> c \<noteq> 0 \<and> c < 0x200000 \<and> c \<le> 0x10FFFF"
  by (auto simp: scalar_def word_le_nat_alt word_less_nat_alt)

section \<open>Reading arbitrary units\<close>

lemma utf8_progress:
  "get_char32_from_utf8_string s = (s', c) \<Longrightarrow> length s' \<le> length s \<and> (c \<noteq> 0 \<longrightarrow> length s' < length s)"
  by (cases s) (auto simp: get_char32_from_utf8_string_def Let_def split: if_splits)

lemma utf16_progress:
  "get_char32_from_utf16_string s = (s', c) \<Longrightarrow> length s' \<le> length s \<and> (c \<noteq> 0 \<longrightarrow> length s' < length s)"
  by (cases s) (auto simp: get_char32_from_utf16_string_def Let_def split: if_splits)

lemma at_append: "i \<le> length s \<Longrightarrow> at (s @ 0 # ys) i = at s i"
  by (auto simp: at_def nth_append)

lemma utf16_ignores_rest:
  "get_char32_from_utf16_string (s @ 0 # ys) =
     (fst (get_char32_from_utf16_string s) @ 0 # ys, snd (get_char32_from_utf16_string s))"
proof (cases s)
  case (Cons a t)
  show ?thesis
    unfolding Cons by (cases t) (simp_all add: get_char32_from_utf16_string_def Let_def is_low_surrogate_def)
qed (simp add: get_char32_from_utf16_string_def)

lemma utf8_ignores_rest:
  "get_char32_from_utf8_string (s @ 0 # ys) =
     (fst (get_char32_from_utf8_string s) @ 0 # ys, snd (get_char32_from_utf8_string s))"
proof -
  consider "s = []" | a where "s = [a]" | a b where "s = [a, b]" | a b c where "s = [a, b, c]"
    | a b c d t where "s = a # b # c # d # t"
    by (metis neq_Nil_conv)
  then show ?thesis
    by cases (simp_all add: get_char32_from_utf8_string_def Let_def del: push_bit_and)
qed

end
