(* ===== verification/Unicode_Loops.thy ===== *)
theory Unicode_Loops
  imports Unicode_Char
begin

text \<open>
  The loops of the string routines of \<open>cpp_foundation/unicode_conversions.cpp\<close>. The file
  has each of them once per pair of encodings; here a loop takes the reader (\<open>dec\<close>) and
  the writer (\<open>emit\<close>) as arguments and \<open>Unicode_Conversions\<close> applies it. A C loop may run
  for ever, so the loops are partial functions and \<open>None\<close> means that the loop does not end.
  Where the code compares a destination pointer with its limit, the loop counts the
  remaining room down instead, which is what the writers do with \<open>*dst_max_size\<close>.
\<close>

section \<open>Sizes\<close>

partial_function (option) size_loop ::
  "('u list \<Rightarrow> 'u list \<times> char32) \<Rightarrow> (char32 \<Rightarrow> nat) \<Rightarrow> 'u list \<Rightarrow> char32 \<Rightarrow> nat \<Rightarrow> nat option" where
  "size_loop dec width s c sz =
     (if c \<noteq> 0 then (case dec s of (s', c') \<Rightarrow> size_loop dec width s' c' (sz + width c)) else Some sz)"

partial_function (option) size_len_loop ::
  "('u list \<Rightarrow> 'u list \<times> char32) \<Rightarrow> (char32 \<Rightarrow> nat) \<Rightarrow> 'u list \<Rightarrow> char32 \<Rightarrow> nat \<Rightarrow> nat \<Rightarrow> nat option" where
  "size_len_loop dec width s c len sz =
     (if c \<noteq> 0 \<and> len > 0 then
        (case dec s of (s', c') \<Rightarrow> size_len_loop dec width s' c' (len - 1) (sz + width c))
      else Some sz)"

partial_function (option) ptr_loop ::
  "('u :: zero list \<Rightarrow> nat \<Rightarrow> 'u list \<times> nat) \<Rightarrow> 'u list \<Rightarrow> nat \<Rightarrow> nat option" where
  "ptr_loop adv s sz =
     (if at s 0 \<noteq> 0 then (case adv s sz of (s', sz') \<Rightarrow> ptr_loop adv s' sz') else Some sz)"

fun ptr_len_loop :: "('u :: zero list \<Rightarrow> nat \<Rightarrow> 'u list \<times> nat) \<Rightarrow> 'u list \<Rightarrow> nat \<Rightarrow> nat \<Rightarrow> nat" where
  "ptr_len_loop adv s 0 sz = sz"
| "ptr_len_loop adv s (Suc len) sz =
     (if at s 0 \<noteq> 0 then (case adv s sz of (s', sz') \<Rightarrow> ptr_len_loop adv s' len sz') else sz)"

section \<open>Conversions\<close>

text \<open>\<open>while (char32) { store; if ( no room ) break; read }\<close>\<close>

partial_function (option) nn_loop ::
  "('u list \<Rightarrow> 'u list \<times> char32) \<Rightarrow> (nat \<Rightarrow> char32 \<Rightarrow> 'v list \<times> nat) \<Rightarrow> 'u list \<Rightarrow> char32 \<Rightarrow> nat \<Rightarrow> 'v list \<Rightarrow>
     'v list option" where
  "nn_loop dec emit s c room out =
     (if c \<noteq> 0 then
        (case emit room c of (bs, room') \<Rightarrow>
           if room' = 0 then Some (out @ bs)
           else (case dec s of (s', c') \<Rightarrow> nn_loop dec emit s' c' room' (out @ bs)))
      else Some out)"

text \<open>\<open>while (char32 && room && len > 0) { store; read; len--; }\<close>\<close>

partial_function (option) len_loop ::
  "('u list \<Rightarrow> 'u list \<times> char32) \<Rightarrow> (nat \<Rightarrow> char32 \<Rightarrow> 'v list \<times> nat) \<Rightarrow> 'u list \<Rightarrow> char32 \<Rightarrow> nat \<Rightarrow> nat \<Rightarrow> 'v list \<Rightarrow>
     'v list option" where
  "len_loop dec emit s c room len out =
     (if c \<noteq> 0 \<and> room > 0 \<and> len > 0 then
        (case emit room c of (bs, room') \<Rightarrow>
           case dec s of (s', c') \<Rightarrow> len_loop dec emit s' c' room' (len - 1) (out @ bs))
      else Some out)"

text \<open>\<open>while (char32 && room && s - s_start <= size) { store; read; }\<close>; \<open>start\<close> is the length at \<open>s_start\<close>\<close>

partial_function (option) bytes_loop ::
  "('u list \<Rightarrow> 'u list \<times> char32) \<Rightarrow> (nat \<Rightarrow> char32 \<Rightarrow> 'v list \<times> nat) \<Rightarrow> nat \<Rightarrow> nat \<Rightarrow> 'u list \<Rightarrow> char32 \<Rightarrow> nat \<Rightarrow>
     'v list \<Rightarrow> 'v list option" where
  "bytes_loop dec emit start sz s c room out =
     (if c \<noteq> 0 \<and> room > 0 \<and> start - length s \<le> sz then
        (case emit room c of (bs, room') \<Rightarrow>
           case dec s of (s', c') \<Rightarrow> bytes_loop dec emit start sz s' c' room' (out @ bs))
      else Some out)"

text \<open>\<open>while (*s && room) { read; store; }\<close>, whatever the reader says of the unit\<close>

partial_function (option) chk_loop ::
  "('u :: zero list \<Rightarrow> 'u list \<times> char32) \<Rightarrow> (nat \<Rightarrow> char32 \<Rightarrow> 'v list \<times> nat) \<Rightarrow> 'u list \<Rightarrow> nat \<Rightarrow> 'v list \<Rightarrow>
     'v list option" where
  "chk_loop dec emit s room out =
     (if at s 0 \<noteq> 0 \<and> room > 0 then
        (case dec s of (s', c) \<Rightarrow> case emit room c of (bs, room') \<Rightarrow> chk_loop dec emit s' room' (out @ bs))
      else Some out)"

fun chk_len_loop ::
  "('u :: zero list \<Rightarrow> 'u list \<times> char32) \<Rightarrow> (nat \<Rightarrow> char32 \<Rightarrow> 'v list \<times> nat) \<Rightarrow> 'u list \<Rightarrow> nat \<Rightarrow> nat \<Rightarrow> 'v list \<Rightarrow>
     'v list" where
  "chk_len_loop dec emit s room 0 out = out"
| "chk_len_loop dec emit s room (Suc len) out =
     (if at s 0 \<noteq> 0 \<and> room > 0 then
        (case dec s of (s', c) \<Rightarrow> case emit room c of (bs, room') \<Rightarrow> chk_len_loop dec emit s' room' len (out @ bs))
      else out)"

text \<open>
  \<open>while (*s && p < p_max) { read; if (c == 0) return; *p++ = c; }\<close>; the flag tells
  whether the loop was left by the \<open>return\<close>
\<close>

fun stop_loop :: "('u :: zero list \<Rightarrow> 'u list \<times> char32) \<Rightarrow> 'u list \<Rightarrow> nat \<Rightarrow> char32 list \<Rightarrow> char32 list \<times> bool" where
  "stop_loop dec s 0 out = (out, False)"
| "stop_loop dec s (Suc room) out =
     (if at s 0 \<noteq> 0 then
        (case dec s of (s', c) \<Rightarrow> if c = 0 then (out, True) else stop_loop dec s' room (out @ [c]))
      else (out, False))"

fun stop_len_loop ::
  "('u :: zero list \<Rightarrow> 'u list \<times> char32) \<Rightarrow> 'u list \<Rightarrow> nat \<Rightarrow> nat \<Rightarrow> char32 list \<Rightarrow> char32 list \<times> bool" where
  "stop_len_loop dec s 0 len out = (out, False)"
| "stop_len_loop dec s (Suc room) 0 out = (out, False)"
| "stop_len_loop dec s (Suc room) (Suc len) out =
     (if at s 0 \<noteq> 0 then
        (case dec s of (s', c) \<Rightarrow> if c = 0 then (out, True) else stop_len_loop dec s' room len (out @ [c]))
      else (out, False))"

text \<open>\<open>while (*s && room) { store *s++ }\<close>, for UTF-32 sources, and with a number of units\<close>

fun raw_loop :: "(nat \<Rightarrow> char32 \<Rightarrow> 'v list \<times> nat) \<Rightarrow> char32 list \<Rightarrow> nat \<Rightarrow> 'v list \<Rightarrow> 'v list" where
  "raw_loop emit [] room out = out"
| "raw_loop emit (c # s) room out =
     (if c \<noteq> 0 \<and> room > 0 then (case emit room c of (bs, room') \<Rightarrow> raw_loop emit s room' (out @ bs)) else out)"

fun raw_len_loop :: "(nat \<Rightarrow> char32 \<Rightarrow> 'v list \<times> nat) \<Rightarrow> char32 list \<Rightarrow> nat \<Rightarrow> nat \<Rightarrow> 'v list \<Rightarrow> 'v list" where
  "raw_len_loop emit [] room len out = out"
| "raw_len_loop emit (c # s) room len out =
     (if c \<noteq> 0 \<and> room > 0 \<and> len > 0
      then (case emit room c of (bs, room') \<Rightarrow> raw_len_loop emit s room' (len - 1) (out @ bs)) else out)"

declare size_loop.simps [code] size_len_loop.simps [code] ptr_loop.simps [code] nn_loop.simps [code]
  len_loop.simps [code] bytes_loop.simps [code] chk_loop.simps [code]

section \<open>Text\<close>

text \<open>The units of a text, and the longest prefix of a text whose units fit.\<close>

definition units :: "(char32 \<Rightarrow> 'u list) \<Rightarrow> char32 list \<Rightarrow> 'u list" where
  "units e cs = concat (map e cs)"

fun fit :: "(char32 \<Rightarrow> 'u list) \<Rightarrow> nat \<Rightarrow> char32 list \<Rightarrow> char32 list" where
  "fit e n [] = []"
| "fit e n (c # cs) = (if length (e c) \<le> n then c # fit e (n - length (e c)) cs else [])"

lemma units_simps [simp]: "units e [] = []" "units e (c # cs) = e c @ units e cs"
  by (simp_all add: units_def)

lemma fit_prefix: "\<exists>rest. cs = fit e n cs @ rest"
  by (induction e n cs rule: fit.induct) auto

lemma fit_size: "length (units e (fit e n cs)) \<le> n"
  by (induction e n cs rule: fit.induct) auto

lemma fit_maximal: "fit e n cs @ c # rest = cs \<Longrightarrow> n < length (units e (fit e n cs @ [c]))"
  by (induction e n cs rule: fit.induct) (auto split: if_splits)

lemma fit_all: "length (units e cs) \<le> n \<Longrightarrow> fit e n cs = cs"
  by (induction e n cs rule: fit.induct) auto

lemma fit_0: "(\<And>c. e c \<noteq> []) \<Longrightarrow> fit e 0 cs = []"
  by (cases cs) auto

section \<open>Readers and writers\<close>

text \<open>
  What the loops rely on. A reader takes the units of a valid code point off the string,
  stops at the end, and never stays in place when it reports a code point. A writer stores
  the units of the code point when they fit and otherwise uses up the room.
\<close>

locale unit_reader =
  fixes dec :: "'u :: zero list \<Rightarrow> 'u list \<times> char32"
    and enc :: "char32 \<Rightarrow> 'u list"
    and valid :: "char32 \<Rightarrow> bool"
  assumes dec_enc: "valid c \<Longrightarrow> dec (enc c @ s) = (s, c)"
    and dec_nil: "dec [] = ([], 0)"
    and dec_progress: "dec s = (s', c) \<Longrightarrow> length s' \<le> length s \<and> (c \<noteq> 0 \<longrightarrow> length s' < length s)"
    and enc_start: "valid c \<Longrightarrow> at (enc c @ s) 0 \<noteq> 0"
    and valid_nz: "valid c \<Longrightarrow> c \<noteq> 0"
begin

lemma size_loop_text:
  "list_all valid cs \<Longrightarrow>
   (case dec (units enc cs) of (s, c) \<Rightarrow> size_loop dec w s c n) = Some (n + sum_list (map w cs))"
proof (induction cs arbitrary: n)
  case (Cons c cs)
  then show ?case by (simp add: dec_enc) (subst size_loop.simps, simp add: valid_nz)
qed (simp add: dec_nil size_loop.simps)

lemma size_len_loop_text:
  "list_all valid cs \<Longrightarrow>
   (case dec (units enc cs) of (s, c) \<Rightarrow> size_len_loop dec w s c len n) = Some (n + sum_list (map w (take len cs)))"
proof (induction cs arbitrary: n len)
  case (Cons c cs)
  then show ?case
    by (cases len) (simp_all add: dec_enc size_len_loop.simps [of _ _ _ c] valid_nz)
qed (simp add: dec_nil size_len_loop.simps)

text \<open>The reader's pointer and look-ahead get smaller in every round.\<close>

lemma dec_smaller:
  assumes "dec s = (s', c')" and "c \<noteq> 0"
  shows "length s' + (if c' = 0 then 0 else 1) < length s + (if c = 0 then 0 else 1)"
  using dec_progress [OF assms(1)] assms(2) by auto

lemma size_loop_ends: "\<exists>n'. size_loop dec w s c n = Some n'"
proof (induction "length s + (if c = 0 then 0 else 1)" arbitrary: s c n rule: less_induct)
  case less
  obtain s' c' where d: "dec s = (s', c')" by fastforce
  show ?case
  proof (cases "c = 0")
    case False
    from less.hyps [OF dec_smaller [OF d False], of "n + w c"] show ?thesis
      using d by (subst size_loop.simps) simp
  qed (simp add: size_loop.simps)
qed

lemma size_len_loop_ends: "\<exists>n'. size_len_loop dec w s c len n = Some n'"
proof (induction len arbitrary: s c n)
  case (Suc len)
  obtain s' c' where "dec s = (s', c')" by fastforce
  then show ?case using Suc [of s' c' "n + w c"] by (subst size_len_loop.simps) simp
qed (simp add: size_len_loop.simps)

lemma stop_loop_text:
  "list_all valid cs \<Longrightarrow> stop_loop dec (units enc cs) room out = (out @ take room cs, False)"
proof (induction cs arbitrary: room out)
  case Nil
  then show ?case by (cases room) simp_all
next
  case (Cons c cs)
  then show ?case by (cases room) (auto simp: dec_enc enc_start dest: valid_nz)
qed

lemma stop_len_loop_text:
  "list_all valid cs \<Longrightarrow> stop_len_loop dec (units enc cs) room len out = (out @ take room (take len cs), False)"
proof (induction cs arbitrary: room len out)
  case Nil
  then show ?case by (cases room; cases len) simp_all
next
  case (Cons c cs)
  then show ?case by (cases room; cases len) (auto simp: dec_enc enc_start dest: valid_nz)
qed

end

lemma stop_loop_bound: "length (fst (stop_loop dec s room out)) \<le> length out + room"
proof (induction room arbitrary: s out)
  case (Suc room)
  obtain s' c where "dec s = (s', c)" by fastforce
  then show ?case using Suc [of s' "out @ [c]"] by simp
qed simp

lemma stop_len_loop_bound: "length (fst (stop_len_loop dec s room len out)) \<le> length out + room"
proof (induction room arbitrary: s len out)
  case (Suc room)
  obtain s' c where "dec s = (s', c)" by fastforce
  then show ?case using Suc [of s' _ "out @ [c]"] by (cases len) simp_all
qed simp

locale unit_writer =
  fixes emit :: "nat \<Rightarrow> char32 \<Rightarrow> 'v list \<times> nat"
    and put :: "char32 \<Rightarrow> 'v list"
  assumes emit_put: "emit n c = (if length (put c) \<le> n then (put c, n - length (put c)) else ([], 0))"
    and put_ne: "put c \<noteq> []"
begin

lemma emit_room: "emit room c = (bs, room') \<Longrightarrow> length bs + room' \<le> room \<and> (room > 0 \<longrightarrow> room' < room)"
  using put_ne [of c, folded length_greater_0_conv] by (auto simp: emit_put split: if_splits)

lemma fit_0_put [simp]: "fit put 0 cs = []"
  by (rule fit_0 [OF put_ne])

lemma raw_loop_text:
  "list_all (\<lambda>c. c \<noteq> 0) cs \<Longrightarrow> raw_loop emit cs room out = out @ units put (fit put room cs)"
proof (induction cs arbitrary: room out)
  case (Cons c cs)
  then show ?case
    using put_ne [of c] by (cases "room = 0"; cases "length (put c) \<le> room"; cases cs) (auto simp: emit_put)
qed simp

lemma raw_len_loop_text:
  "list_all (\<lambda>c. c \<noteq> 0) cs \<Longrightarrow> raw_len_loop emit cs room len out = out @ units put (fit put room (take len cs))"
proof (induction cs arbitrary: room len out)
  case (Cons c cs)
  then show ?case
    using put_ne [of c]
    by (cases len; cases "room = 0"; cases "length (put c) \<le> room"; cases cs) (auto simp: emit_put)
qed simp

lemma raw_loop_bound: "length (raw_loop emit s room out) \<le> length out + room"
proof (induction s arbitrary: room out)
  case (Cons c s)
  obtain bs room' where e: "emit room c = (bs, room')" by fastforce
  then show ?case using Cons [of room' "out @ bs"] emit_room [OF e] by auto
qed simp

lemma raw_len_loop_bound: "length (raw_len_loop emit s room len out) \<le> length out + room"
proof (induction s arbitrary: room len out)
  case (Cons c s)
  obtain bs room' where e: "emit room c = (bs, room')" by fastforce
  then show ?case using Cons [of room' "len - 1" "out @ bs"] emit_room [OF e] by auto
qed simp

lemma chk_loop_ends: "\<exists>out'. chk_loop dec emit s room out = Some out' \<and> length out' \<le> length out + room"
proof (induction room arbitrary: s out rule: less_induct)
  case (less room)
  obtain s' c where d: "dec s = (s', c)" by fastforce
  obtain bs room' where e: "emit room c = (bs, room')" by fastforce
  show ?case
  proof (cases "at s 0 \<noteq> 0 \<and> room > 0")
    case True
    then have "room' < room" using emit_room [OF e] by simp
    from less.IH [OF this, of s' "out @ bs"] show ?thesis
      using True d e emit_room [OF e] by (subst chk_loop.simps) fastforce
  qed (auto simp: chk_loop.simps)
qed

lemma chk_len_loop_bound: "length (chk_len_loop dec emit s room len out) \<le> length out + room"
proof (induction len arbitrary: s room out)
  case (Suc len)
  obtain s' c where d: "dec s = (s', c)" by fastforce
  obtain bs room' where e: "emit room c = (bs, room')" by fastforce
  show ?case using Suc [of s' room' "out @ bs"] emit_room [OF e] d e by auto
qed simp

end

locale unit_conversion = unit_reader dec enc valid + unit_writer emit put
  for dec :: "'u :: zero list \<Rightarrow> 'u list \<times> char32" and enc and valid and emit :: "nat \<Rightarrow> char32 \<Rightarrow> 'v list \<times> nat" and put
begin

lemma nn_loop_text:
  assumes "room > 0"
  shows "list_all valid cs \<Longrightarrow>
    (case dec (units enc cs) of (s, c) \<Rightarrow> nn_loop dec emit s c room out) = Some (out @ units put (fit put room cs))"
  using assms
proof (induction cs arbitrary: room out)
  case (Cons c cs)
  show ?case
  proof (cases "length (put c) < room")
    case True
    then show ?thesis
      using Cons by (simp add: dec_enc) (subst nn_loop.simps, simp add: valid_nz emit_put)
  next
    case False
    then show ?thesis
      using Cons.prems by (auto simp: dec_enc nn_loop.simps [of _ _ _ c] valid_nz emit_put)
  qed
qed (simp add: dec_nil nn_loop.simps)

lemma len_loop_text:
  "list_all valid cs \<Longrightarrow>
   (case dec (units enc cs) of (s, c) \<Rightarrow> len_loop dec emit s c room len out) =
     Some (out @ units put (fit put room (take len cs)))"
proof (induction cs arbitrary: room len out)
  case (Cons c cs)
  have stop: "len_loop dec emit s c 0 k out = Some out" for s c k out by (simp add: len_loop.simps)
  show ?case
  proof (cases "room > 0 \<and> len > 0")
    case True
    then obtain k where "len = Suc k" by (cases len) auto
    then show ?thesis
      using Cons True by (auto simp: dec_enc len_loop.simps [of _ _ _ c room] valid_nz emit_put [of room c] stop split: prod.split)
  next
    case False
    then show ?thesis
      using Cons.prems by (auto simp: dec_enc len_loop.simps [of _ _ _ c])
  qed
qed (simp add: dec_nil len_loop.simps)

lemma bytes_loop_text:
  "list_all valid cs \<Longrightarrow> done + length (units enc cs) = start \<Longrightarrow>
   (case dec (units enc cs) of (s, c) \<Rightarrow> bytes_loop dec emit start sz s c room out) =
     Some (out @ units put (fit put room (fit enc (sz - done) cs)))"
proof (induction cs arbitrary: room out "done")
  case (Cons c cs)
  have stop: "bytes_loop dec emit start sz s c 0 out = Some out" for s c out by (simp add: bytes_loop.simps)
  have pos: "enc c \<noteq> []" using Cons.prems(1) enc_start [of c "[]"] by auto
  show ?case
  proof (cases "room > 0 \<and> done + length (enc c) \<le> sz")
    case True
    have "done + length (enc c) + length (units enc cs) = start" using Cons.prems(2) by simp
    from Cons.IH [OF _ this] Cons.prems(1) True show ?thesis
      using Cons.prems(2)
      by (auto simp: dec_enc bytes_loop.simps [of _ _ _ _ _ c room] valid_nz emit_put [of room c] stop split: prod.split)
  next
    case False
    moreover have "0 < length (enc c)" using pos by simp
    ultimately have "room = 0 \<or> \<not> done + length (enc c) \<le> sz \<and> \<not> length (enc c) \<le> sz - done" by linarith
    then have "room = 0 \<or> \<not> done + length (enc c) \<le> sz \<and> fit enc (sz - done) (c # cs) = []" by auto
    then show ?thesis
      using Cons.prems by (auto simp: dec_enc bytes_loop.simps [of _ _ _ _ _ c] simp del: fit.simps(2))
  qed
qed (simp add: dec_nil bytes_loop.simps)

lemma chk_loop_text:
  "list_all valid cs \<Longrightarrow> chk_loop dec emit (units enc cs) room out = Some (out @ units put (fit put room cs))"
proof (induction cs arbitrary: room out)
  case (Cons c cs)
  have stop: "chk_loop dec emit s 0 out = Some out" for s out by (simp add: chk_loop.simps)
  show ?case
    using Cons put_ne [of c] by (subst chk_loop.simps) (auto simp: dec_enc enc_start emit_put [of room c] stop)
qed (simp add: chk_loop.simps)

lemma chk_len_loop_text:
  "list_all valid cs \<Longrightarrow> chk_len_loop dec emit (units enc cs) room len out = out @ units put (fit put room (take len cs))"
proof (induction cs arbitrary: room len out)
  case Nil
  then show ?case by (cases len) simp_all
next
  case (Cons c cs)
  have stop: "chk_len_loop dec emit s 0 len out = out" for s len out by (cases len) simp_all
  show ?case
    using Cons put_ne [of c] by (cases len) (auto simp: dec_enc enc_start emit_put [of room c] stop)
qed

lemma nn_loop_ends: "\<exists>out'. nn_loop dec emit s c room out = Some out' \<and> length out' \<le> length out + room"
proof (induction "length s + (if c = 0 then 0 else 1)" arbitrary: s c room out rule: less_induct)
  case less
  obtain s' c' where d: "dec s = (s', c')" by fastforce
  obtain bs room' where e: "emit room c = (bs, room')" by fastforce
  show ?case
  proof (cases "c = 0")
    case False
    from less.hyps [OF dec_smaller [OF d False], of room' "out @ bs"] show ?thesis
      using d e emit_room [OF e] by (subst nn_loop.simps) fastforce
  qed (simp add: nn_loop.simps)
qed

lemma len_loop_ends: "\<exists>out'. len_loop dec emit s c room len out = Some out' \<and> length out' \<le> length out + room"
proof (induction len arbitrary: s c room out)
  case (Suc len)
  obtain s' c' where d: "dec s = (s', c')" by fastforce
  obtain bs room' where e: "emit room c = (bs, room')" by fastforce
  from Suc [of s' c' room' "out @ bs"] show ?case
    using d e emit_room [OF e] by (subst len_loop.simps) fastforce
qed (simp add: len_loop.simps)

lemma bytes_loop_ends:
  "\<exists>out'. bytes_loop dec emit start sz s c room out = Some out' \<and> length out' \<le> length out + room"
proof (induction "length s + (if c = 0 then 0 else 1)" arbitrary: s c room out rule: less_induct)
  case less
  obtain s' c' where d: "dec s = (s', c')" by fastforce
  obtain bs room' where e: "emit room c = (bs, room')" by fastforce
  show ?case
  proof (cases "c = 0")
    case False
    from less.hyps [OF dec_smaller [OF d False], of room' "out @ bs"] show ?thesis
      using d e emit_room [OF e] by (subst bytes_loop.simps) fastforce
  qed (simp add: bytes_loop.simps)
qed

end

end
