(* ===== verification/Unicode_Conversions.thy ===== *)
theory Unicode_Conversions
  imports Unicode_Loops
begin

text \<open>
  The string routines of \<open>cpp_foundation/unicode_conversions.cpp\<close>, one definition each.
  A null source is \<open>None\<close>. A conversion returns the units it stored from \<open>dst\<close> on,
  terminator included, and the size it reports; \<open>None\<close> stands for a call that does not
  return. \<open>dst\<close> itself is not null.
\<close>

section \<open>The terminator\<close>

definition store_zero :: "'v :: zero list \<Rightarrow> nat \<Rightarrow> 'v list" where
  "store_zero ws k = (if k < length ws then ws[k := 0] else ws @ [0])"

text \<open>The tail that all \<open>X_string_from_Y_string\<close> routines share.\<close>

definition terminated :: "nat \<Rightarrow> 'v :: zero list \<times> nat \<Rightarrow> 'v list \<times> nat" where
  "terminated dst_max_size r =
     (case r of (ws, sz) \<Rightarrow>
        if sz \<ge> dst_max_size then (store_zero ws (dst_max_size - 1), dst_max_size - 1)
        else (store_zero ws sz, sz))"

text \<open>\<open>*p = 0; return p - dst;\<close>\<close>

definition finish :: "'v :: zero list \<Rightarrow> 'v list \<times> nat" where
  "finish ws = (ws @ [0], length ws)"

definition plain :: "'v list \<Rightarrow> 'v list \<times> nat" where
  "plain ws = (ws, length ws)"

section \<open>UTF-8 and UTF-32\<close>

definition utf8_size_of_utf32_char_ptr :: "char32 list \<Rightarrow> nat \<Rightarrow> char32 list \<times> nat" where
  "utf8_size_of_utf32_char_ptr s sz =
     (if at s 0 = 0 then (s, sz) else (drop 1 s, sz + utf8_size_of_utf32_char (at s 0)))"

definition utf8_size_of_utf32_string :: "char32 list option \<Rightarrow> nat option" where
  "utf8_size_of_utf32_string s =
     (case s of None \<Rightarrow> Some 0 | Some s \<Rightarrow> ptr_loop utf8_size_of_utf32_char_ptr s 0)"

definition utf32_size_of_utf8_string :: "byte list option \<Rightarrow> nat option" where
  "utf32_size_of_utf8_string s =
     (case s of None \<Rightarrow> Some 0
      | Some s \<Rightarrow> (case get_char32_from_utf8_string s of (s', c) \<Rightarrow>
          size_loop get_char32_from_utf8_string (\<lambda>_. 1) s' c 0))"

definition utf8_size_of_utf32_string_len :: "char32 list option \<Rightarrow> nat \<Rightarrow> nat" where
  "utf8_size_of_utf32_string_len s len =
     (case s of None \<Rightarrow> 0 | Some s \<Rightarrow> if len = 0 then 0 else ptr_len_loop utf8_size_of_utf32_char_ptr s len 0)"

definition utf32_stringnn_from_utf8_string :: "nat \<Rightarrow> byte list option \<Rightarrow> (char32 list \<times> nat) option" where
  "utf32_stringnn_from_utf8_string dst_max_size s =
     (if dst_max_size = 0 then Some ([], 0)
      else case s of None \<Rightarrow> Some ([0], 0)
      | Some s \<Rightarrow> (case get_char32_from_utf8_string s of (s', c) \<Rightarrow>
          map_option plain (nn_loop get_char32_from_utf8_string get_utf32_from_char32 s' c dst_max_size [])))"

definition utf32_string_from_utf8_string :: "nat \<Rightarrow> byte list option \<Rightarrow> (char32 list \<times> nat) option" where
  "utf32_string_from_utf8_string dst_max_size s =
     (if dst_max_size = 0 then Some ([], 0)
      else map_option (terminated dst_max_size) (utf32_stringnn_from_utf8_string dst_max_size s))"

definition utf32_size_of_utf8_string_len :: "byte list option \<Rightarrow> nat \<Rightarrow> nat option" where
  "utf32_size_of_utf8_string_len s len =
     (case s of None \<Rightarrow> Some 0
      | Some s \<Rightarrow> if len = 0 then Some 0
          else (case get_char32_from_utf8_string s of (s', c) \<Rightarrow>
            size_len_loop get_char32_from_utf8_string (\<lambda>_. 1) s' c len 0))"

definition utf32_string_from_utf8_string_len :: "nat \<Rightarrow> byte list option \<Rightarrow> nat \<Rightarrow> (char32 list \<times> nat) option" where
  "utf32_string_from_utf8_string_len dst_max_size s len =
     (if dst_max_size = 0 then Some ([], 0)
      else case s of None \<Rightarrow> Some ([0], 0)
      | Some s \<Rightarrow> if len = 0 then Some ([0], 0)
          else (case get_char32_from_utf8_string s of (s', c) \<Rightarrow>
            map_option finish
              (len_loop get_char32_from_utf8_string get_utf32_from_char32 s' c (dst_max_size - 1) len [])))"

definition utf32_string_from_utf8_string_size :: "nat \<Rightarrow> byte list option \<Rightarrow> nat \<Rightarrow> (char32 list \<times> nat) option" where
  "utf32_string_from_utf8_string_size dst_max_size s sz =
     (if dst_max_size = 0 then Some ([], 0)
      else case s of None \<Rightarrow> Some ([0], 0)
      | Some s \<Rightarrow> if sz = 0 then Some ([0], 0)
          else (case get_char32_from_utf8_string s of (s', c) \<Rightarrow>
            map_option finish
              (bytes_loop get_char32_from_utf8_string get_utf32_from_char32 (length s) sz s' c (dst_max_size - 1) [])))"

definition utf8_stringnn_from_utf32_string :: "nat \<Rightarrow> char32 list option \<Rightarrow> byte list \<times> nat" where
  "utf8_stringnn_from_utf32_string dst_max_size s =
     (if dst_max_size = 0 then ([], 0)
      else case s of None \<Rightarrow> ([], 0) | Some s \<Rightarrow> plain (raw_loop get_utf8_from_char32 s dst_max_size []))"

definition utf8_string_from_utf32_string :: "nat \<Rightarrow> char32 list option \<Rightarrow> byte list \<times> nat" where
  "utf8_string_from_utf32_string dst_max_size s =
     (if dst_max_size = 0 then ([], 0)
      else terminated dst_max_size (utf8_stringnn_from_utf32_string dst_max_size s))"

definition utf8_string_from_utf32_string_len :: "nat \<Rightarrow> char32 list option \<Rightarrow> nat \<Rightarrow> byte list \<times> nat" where
  "utf8_string_from_utf32_string_len dst_max_size s len =
     (if dst_max_size = 0 then ([], 0)
      else case s of None \<Rightarrow> ([0], 0)
      | Some s \<Rightarrow> if len = 0 then ([0], 0)
          else finish (raw_len_loop get_utf8_from_char32 s (dst_max_size - 1) len []))"

text \<open>For UTF-32 the condition \<open>s - s_start < size\<close> counts units like \<open>len\<close> does.\<close>

definition utf8_string_from_utf32_string_size :: "nat \<Rightarrow> char32 list option \<Rightarrow> nat \<Rightarrow> byte list \<times> nat" where
  "utf8_string_from_utf32_string_size dst_max_size s sz =
     (if dst_max_size = 0 then ([], 0)
      else case s of None \<Rightarrow> ([0], 0)
      | Some s \<Rightarrow> if sz = 0 then ([0], 0)
          else finish (raw_len_loop get_utf8_from_char32 s (dst_max_size - 1) sz []))"

fun at_pos_loop :: "('u list \<Rightarrow> 'u list \<times> char32) \<Rightarrow> 'u list \<Rightarrow> char32 \<Rightarrow> nat \<Rightarrow> char32" where
  "at_pos_loop dec s c 0 = c"
| "at_pos_loop dec s c (Suc pos) =
     (if c \<noteq> 0 then (case dec s of (s', c') \<Rightarrow> at_pos_loop dec s' c' pos) else c)"

definition get_char32_from_utf8_string_at_pos :: "byte list option \<Rightarrow> nat \<Rightarrow> char32" where
  "get_char32_from_utf8_string_at_pos s pos =
     (case s of None \<Rightarrow> 0
      | Some s \<Rightarrow> (case get_char32_from_utf8_string s of (s', c) \<Rightarrow> at_pos_loop get_char32_from_utf8_string s' c pos))"

section \<open>UTF-8 and UTF-16\<close>

definition utf8_size_of_utf16_char_ptr :: "char16 list \<Rightarrow> nat \<Rightarrow> char16 list \<times> nat" where
  "utf8_size_of_utf16_char_ptr s sz =
     (case get_char32_from_utf16_string s of (s', c) \<Rightarrow>
        if c = 0 then (s', sz) else (s', sz + utf8_size_of_utf32_char c))"

definition utf8_size_of_utf16_string :: "char16 list option \<Rightarrow> nat option" where
  "utf8_size_of_utf16_string s =
     (case s of None \<Rightarrow> Some 0 | Some s \<Rightarrow> ptr_loop utf8_size_of_utf16_char_ptr s 0)"

definition utf8_size_of_utf16_string_len :: "char16 list option \<Rightarrow> nat \<Rightarrow> nat" where
  "utf8_size_of_utf16_string_len s len =
     (case s of None \<Rightarrow> 0 | Some s \<Rightarrow> if len = 0 then 0 else ptr_len_loop utf8_size_of_utf16_char_ptr s len 0)"

definition utf16_size_of_utf8_string :: "byte list option \<Rightarrow> nat option" where
  "utf16_size_of_utf8_string s =
     (case s of None \<Rightarrow> Some 0
      | Some s \<Rightarrow> (case get_char32_from_utf8_string s of (s', c) \<Rightarrow>
          size_loop get_char32_from_utf8_string utf16_size_of_utf32_char s' c 0))"

definition utf16_size_of_utf8_string_len :: "byte list option \<Rightarrow> nat \<Rightarrow> nat option" where
  "utf16_size_of_utf8_string_len s len =
     (case s of None \<Rightarrow> Some 0
      | Some s \<Rightarrow> if len = 0 then Some 0
          else (case get_char32_from_utf8_string s of (s', c) \<Rightarrow>
            size_len_loop get_char32_from_utf8_string utf16_size_of_utf32_char s' c len 0))"

definition utf8_stringnn_from_utf16_string :: "nat \<Rightarrow> char16 list option \<Rightarrow> (byte list \<times> nat) option" where
  "utf8_stringnn_from_utf16_string dst_max_size s =
     (if dst_max_size = 0 then Some ([], 0)
      else case s of None \<Rightarrow> Some ([], 0)
      | Some s \<Rightarrow> map_option plain (chk_loop get_char32_from_utf16_string get_utf8_from_char32 s dst_max_size []))"

definition utf8_string_from_utf16_string :: "nat \<Rightarrow> char16 list option \<Rightarrow> (byte list \<times> nat) option" where
  "utf8_string_from_utf16_string dst_max_size s =
     (if dst_max_size = 0 then Some ([], 0)
      else map_option (terminated dst_max_size) (utf8_stringnn_from_utf16_string dst_max_size s))"

definition utf8_string_from_utf16_string_len :: "nat \<Rightarrow> char16 list option \<Rightarrow> nat \<Rightarrow> byte list \<times> nat" where
  "utf8_string_from_utf16_string_len dst_max_size s len =
     (if dst_max_size = 0 then ([], 0)
      else case s of None \<Rightarrow> ([0], 0)
      | Some s \<Rightarrow> if dst_max_size = 1 \<or> len = 0 then ([0], 0)
          else finish (chk_len_loop get_char32_from_utf16_string get_utf8_from_char32 s (dst_max_size - 1) len []))"

definition utf8_string_from_utf16_string_size :: "nat \<Rightarrow> char16 list option \<Rightarrow> nat \<Rightarrow> (byte list \<times> nat) option" where
  "utf8_string_from_utf16_string_size dst_max_size s sz =
     (if dst_max_size = 0 then Some ([], 0)
      else case s of None \<Rightarrow> Some ([0], 0)
      | Some s \<Rightarrow> if dst_max_size = 1 \<or> sz = 0 then Some ([0], 0)
          else (case get_char32_from_utf16_string s of (s', c) \<Rightarrow>
            map_option finish
              (bytes_loop get_char32_from_utf16_string get_utf8_from_char32 (length s) sz s' c (dst_max_size - 1) [])))"

definition utf16_stringnn_from_utf8_string :: "nat \<Rightarrow> byte list option \<Rightarrow> (char16 list \<times> nat) option" where
  "utf16_stringnn_from_utf8_string dst_max_size s =
     (if dst_max_size = 0 then Some ([], 0)
      else case s of None \<Rightarrow> Some ([], 0)
      | Some s \<Rightarrow> (case get_char32_from_utf8_string s of (s', c) \<Rightarrow>
          map_option plain (nn_loop get_char32_from_utf8_string get_utf16_from_char32 s' c dst_max_size [])))"

definition utf16_string_from_utf8_string :: "nat \<Rightarrow> byte list option \<Rightarrow> (char16 list \<times> nat) option" where
  "utf16_string_from_utf8_string dst_max_size s =
     (if dst_max_size = 0 then Some ([], 0)
      else map_option (terminated dst_max_size) (utf16_stringnn_from_utf8_string dst_max_size s))"

definition utf16_string_from_utf8_string_len :: "nat \<Rightarrow> byte list option \<Rightarrow> nat \<Rightarrow> (char16 list \<times> nat) option" where
  "utf16_string_from_utf8_string_len dst_max_size s len =
     (if dst_max_size = 0 then Some ([], 0)
      else case s of None \<Rightarrow> Some ([0], 0)
      | Some s \<Rightarrow> if len = 0 then Some ([0], 0)
          else (case get_char32_from_utf8_string s of (s', c) \<Rightarrow>
            map_option finish
              (len_loop get_char32_from_utf8_string get_utf16_from_char32 s' c (dst_max_size - 1) len [])))"

definition utf16_string_from_utf8_string_size :: "nat \<Rightarrow> byte list option \<Rightarrow> nat \<Rightarrow> (char16 list \<times> nat) option" where
  "utf16_string_from_utf8_string_size dst_max_size s sz =
     (if dst_max_size = 0 then Some ([], 0)
      else case s of None \<Rightarrow> Some ([0], 0)
      | Some s \<Rightarrow> if dst_max_size = 1 \<or> sz = 0 then Some ([0], 0)
          else (case get_char32_from_utf8_string s of (s', c) \<Rightarrow>
            map_option finish
              (bytes_loop get_char32_from_utf8_string get_utf16_from_char32 (length s) sz s' c (dst_max_size - 1) [])))"

section \<open>UTF-16 and UTF-32\<close>

fun raw_size :: "(char32 \<Rightarrow> nat) \<Rightarrow> char32 list \<Rightarrow> nat \<Rightarrow> nat" where
  "raw_size width [] sz = sz"
| "raw_size width (c # s) sz = (if c \<noteq> 0 then raw_size width s (sz + width c) else sz)"

fun raw_len_size :: "(char32 \<Rightarrow> nat) \<Rightarrow> char32 list \<Rightarrow> nat \<Rightarrow> nat \<Rightarrow> nat" where
  "raw_len_size width [] len sz = sz"
| "raw_len_size width (c # s) len sz =
     (if c \<noteq> 0 \<and> len > 0 then raw_len_size width s (len - 1) (sz + width c) else sz)"

definition utf16_size_of_utf32_string :: "char32 list option \<Rightarrow> nat" where
  "utf16_size_of_utf32_string s = (case s of None \<Rightarrow> 0 | Some s \<Rightarrow> raw_size utf16_size_of_utf32_char s 0)"

definition utf16_size_of_utf32_string_len :: "char32 list option \<Rightarrow> nat \<Rightarrow> nat" where
  "utf16_size_of_utf32_string_len s len =
     (case s of None \<Rightarrow> 0 | Some s \<Rightarrow> raw_len_size utf16_size_of_utf32_char s len 0)"

definition utf32_size_of_utf16_string :: "char16 list option \<Rightarrow> nat option" where
  "utf32_size_of_utf16_string s =
     (case s of None \<Rightarrow> Some 0
      | Some s \<Rightarrow> (case get_char32_from_utf16_string s of (s', c) \<Rightarrow>
          size_loop get_char32_from_utf16_string (\<lambda>_. 1) s' c 0))"

definition utf32_size_of_utf16_string_len :: "char16 list option \<Rightarrow> nat \<Rightarrow> nat option" where
  "utf32_size_of_utf16_string_len s len =
     (case s of None \<Rightarrow> Some 0
      | Some s \<Rightarrow> if len = 0 then Some 0
          else (case get_char32_from_utf16_string s of (s', c) \<Rightarrow>
            size_len_loop get_char32_from_utf16_string (\<lambda>_. 1) s' c len 0))"

definition utf16_stringnn_from_utf32_string :: "nat \<Rightarrow> char32 list option \<Rightarrow> char16 list \<times> nat" where
  "utf16_stringnn_from_utf32_string dst_max_size s =
     (if dst_max_size = 0 then ([], 0)
      else case s of None \<Rightarrow> ([], 0) | Some s \<Rightarrow> plain (raw_loop get_utf16_from_char32 s dst_max_size []))"

definition utf16_string_from_utf32_string :: "nat \<Rightarrow> char32 list option \<Rightarrow> char16 list \<times> nat" where
  "utf16_string_from_utf32_string dst_max_size s =
     (if dst_max_size = 0 then ([], 0)
      else terminated dst_max_size (utf16_stringnn_from_utf32_string dst_max_size s))"

definition utf16_string_from_utf32_string_len :: "nat \<Rightarrow> char32 list option \<Rightarrow> nat \<Rightarrow> char16 list \<times> nat" where
  "utf16_string_from_utf32_string_len dst_max_size s len =
     (if dst_max_size = 0 then ([], 0)
      else case s of None \<Rightarrow> ([0], 0)
      | Some s \<Rightarrow> if len = 0 then ([0], 0)
          else finish (raw_len_loop get_utf16_from_char32 s (dst_max_size - 1) len []))"

definition utf16_string_from_utf32_string_size :: "nat \<Rightarrow> char32 list option \<Rightarrow> nat \<Rightarrow> char16 list \<times> nat" where
  "utf16_string_from_utf32_string_size dst_max_size s sz =
     (if dst_max_size = 0 then ([], 0)
      else case s of None \<Rightarrow> ([0], 0)
      | Some s \<Rightarrow> if sz = 0 then ([0], 0)
          else finish (raw_len_loop get_utf16_from_char32 s (dst_max_size - 1) sz []))"

definition utf32_stringnn_from_utf16_string :: "nat \<Rightarrow> char16 list option \<Rightarrow> char32 list \<times> nat" where
  "utf32_stringnn_from_utf16_string dst_max_size s =
     (if dst_max_size = 0 then ([], 0)
      else case s of None \<Rightarrow> ([], 0)
      | Some s \<Rightarrow> plain (fst (stop_loop get_char32_from_utf16_string s dst_max_size [])))"

definition utf32_string_from_utf16_string :: "nat \<Rightarrow> char16 list option \<Rightarrow> char32 list \<times> nat" where
  "utf32_string_from_utf16_string dst_max_size s =
     (if dst_max_size = 0 then ([], 0)
      else terminated dst_max_size (utf32_stringnn_from_utf16_string dst_max_size s))"

definition utf32_string_from_utf16_string_len :: "nat \<Rightarrow> char16 list option \<Rightarrow> nat \<Rightarrow> char32 list \<times> nat" where
  "utf32_string_from_utf16_string_len dst_max_size s len =
     (if dst_max_size = 0 then ([], 0)
      else case s of None \<Rightarrow> ([0], 0)
      | Some s \<Rightarrow> if len = 0 then ([0], 0)
          else (case stop_len_loop get_char32_from_utf16_string s (dst_max_size - 1) len [] of
            (ws, returned) \<Rightarrow> if returned then plain ws else finish ws))"

definition utf32_string_from_utf16_string_size :: "nat \<Rightarrow> char16 list option \<Rightarrow> nat \<Rightarrow> (char32 list \<times> nat) option" where
  "utf32_string_from_utf16_string_size dst_max_size s sz =
     (if dst_max_size = 0 then Some ([], 0)
      else case s of None \<Rightarrow> Some ([0], 0)
      | Some s \<Rightarrow> if sz = 0 then Some ([0], 0)
          else (case get_char32_from_utf16_string s of (s', c) \<Rightarrow>
            map_option finish
              (bytes_loop get_char32_from_utf16_string get_utf32_from_char32 (length s) sz s' c (dst_max_size - 1) [])))"

definition get_char32_from_utf16_string_at_pos :: "char16 list option \<Rightarrow> nat \<Rightarrow> char32" where
  "get_char32_from_utf16_string_at_pos s pos =
     (case s of None \<Rightarrow> 0
      | Some s \<Rightarrow> (case get_char32_from_utf16_string s of (s', c) \<Rightarrow> at_pos_loop get_char32_from_utf16_string s' c pos))"

section \<open>No conversion\<close>

definition strlen :: "'u :: zero list \<Rightarrow> nat" where
  "strlen s = length (takeWhile (\<lambda>u. u \<noteq> 0) s)"

definition utf8_size_of_utf8_string :: "byte list option \<Rightarrow> nat" where
  "utf8_size_of_utf8_string s = (case s of None \<Rightarrow> 0 | Some s \<Rightarrow> strlen s)"

partial_function (option) skip_loop :: "('u list \<Rightarrow> 'u list \<times> char32) \<Rightarrow> 'u list \<Rightarrow> char32 \<Rightarrow> 'u list option" where
  "skip_loop dec p c = (if c \<noteq> 0 then (case dec p of (p', c') \<Rightarrow> skip_loop dec p' c') else Some p)"

declare skip_loop.simps [code]

fun skip_len_loop :: "('u list \<Rightarrow> 'u list \<times> char32) \<Rightarrow> 'u list \<Rightarrow> char32 \<Rightarrow> nat \<Rightarrow> 'u list" where
  "skip_len_loop dec p c 0 = p"
| "skip_len_loop dec p c (Suc len) =
     (if c \<noteq> 0 then (case dec p of (p', c') \<Rightarrow> skip_len_loop dec p' c' len) else p)"

definition utf8_size_of_utf8_string_len :: "byte list option \<Rightarrow> nat \<Rightarrow> nat" where
  "utf8_size_of_utf8_string_len s len =
     (case s of None \<Rightarrow> 0
      | Some s \<Rightarrow> if len = 0 then 0 else length s - length (skip_len_loop get_char32_from_utf8_string s 1 len))"

definition utf16_size_of_utf16_string :: "char16 list option \<Rightarrow> nat option" where
  "utf16_size_of_utf16_string s =
     (case s of None \<Rightarrow> Some 0
      | Some s \<Rightarrow> map_option (\<lambda>p. length s - length p) (skip_loop get_char32_from_utf16_string s 1))"

definition utf16_size_of_utf16_string_len :: "char16 list option \<Rightarrow> nat \<Rightarrow> nat option" where
  "utf16_size_of_utf16_string_len s len =
     (case s of None \<Rightarrow> Some 0
      | Some s \<Rightarrow> (case get_char32_from_utf16_string s of (s', c) \<Rightarrow>
          size_len_loop get_char32_from_utf16_string utf16_size_of_utf32_char s' c len 0))"

text \<open>The two UTF-32 sizes do not test for null; the model takes the string.\<close>

definition utf32_size_of_utf32_string :: "char32 list \<Rightarrow> nat" where
  "utf32_size_of_utf32_string s = strlen s"

fun utf32_size_of_utf32_string_len :: "char32 list \<Rightarrow> nat \<Rightarrow> nat" where
  "utf32_size_of_utf32_string_len [] len = 0"
| "utf32_size_of_utf32_string_len (c # s) len =
     (if c \<noteq> 0 \<and> len > 0 then Suc (utf32_size_of_utf32_string_len s (len - 1)) else 0)"

definition utf8_stringnn_from_utf8_string :: "nat \<Rightarrow> byte list option \<Rightarrow> (byte list \<times> nat) option" where
  "utf8_stringnn_from_utf8_string dst_max_size s =
     (case s of None \<Rightarrow> Some ([], 0)
      | Some s \<Rightarrow> if dst_max_size = 0 then Some ([], 0)
          else (case get_char32_from_utf8_string s of (s', c) \<Rightarrow>
            map_option plain (nn_loop get_char32_from_utf8_string get_utf8_from_char32 s' c dst_max_size [])))"

definition utf8_string_from_utf8_string :: "nat \<Rightarrow> byte list option \<Rightarrow> (byte list \<times> nat) option" where
  "utf8_string_from_utf8_string dst_max_size s =
     (if dst_max_size = 0 then Some ([], 0)
      else map_option (terminated dst_max_size) (utf8_stringnn_from_utf8_string dst_max_size s))"

definition utf8_string_from_utf8_string_len :: "nat \<Rightarrow> byte list option \<Rightarrow> nat \<Rightarrow> (byte list \<times> nat) option" where
  "utf8_string_from_utf8_string_len dst_max_size s len =
     (case s of None \<Rightarrow> Some (if dst_max_size > 0 then [0] else [], 0)
      | Some s \<Rightarrow>
          if len = 0 \<or> dst_max_size \<le> 1 then Some (if dst_max_size > 0 then [0] else [], 0)
          else (case get_char32_from_utf8_string s of (s', c) \<Rightarrow>
            map_option finish
              (len_loop get_char32_from_utf8_string get_utf8_from_char32 s' c (dst_max_size - 1) len [])))"

text \<open>
  \<open>utf8_string_from_utf8_string_size\<close> copies bytes and cuts the copy where a code point
  starts: \<open>lead_index\<close> is the loop that walks back over continuation bytes, \<open>strip_high\<close>
  the one that drops trailing bytes when no lead byte was found.
\<close>

fun lead_index :: "byte list \<Rightarrow> nat \<Rightarrow> nat" where
  "lead_index s 0 = 0"
| "lead_index s (Suc i) = (if at s i AND 0xC0 = 0x80 then lead_index s i else i)"

fun strip_high :: "byte list \<Rightarrow> nat \<Rightarrow> nat" where
  "strip_high s 0 = 0"
| "strip_high s (Suc 0) = Suc 0"
| "strip_high s (Suc (Suc n)) = (if at s (Suc n) AND 0x80 \<noteq> 0 then strip_high s (Suc n) else Suc n)"

definition cut_point :: "byte list \<Rightarrow> nat \<Rightarrow> nat" where
  "cut_point s sz =
     (if at s (sz - 1) AND 0x80 \<noteq> 0 then
        let i = lead_index s sz in
        if at s i AND 0xC0 = 0xC0 then
          (if at s i AND 0xE0 = 0xC0 then (if sz - i < 2 then i else i + 2)
           else if at s i AND 0xF0 = 0xE0 then (if sz - i < 3 then i else i + 3)
           else if at s i AND 0xF8 = 0xF0 then (if sz - i < 4 then i else i + 4)
           else sz)
        else strip_high s sz
      else sz)"

definition utf8_string_from_utf8_string_size :: "nat \<Rightarrow> byte list option \<Rightarrow> nat \<Rightarrow> byte list \<times> nat" where
  "utf8_string_from_utf8_string_size dst_max_size s sz =
     (case s of None \<Rightarrow> (if dst_max_size > 0 then [0] else [], 0)
      | Some s \<Rightarrow>
          if sz = 0 \<or> dst_max_size \<le> 1 then (if dst_max_size > 0 then [0] else [], 0)
          else let real_size = utf8_size_of_utf8_string (Some s) in
            if real_size = 0 then ([0], 0)
            else let n = cut_point s (min (min real_size sz) (dst_max_size - 1)) in (take n s @ [0], n))"

definition utf16_stringnn_from_utf16_string :: "nat \<Rightarrow> char16 list option \<Rightarrow> (char16 list \<times> nat) option" where
  "utf16_stringnn_from_utf16_string dst_max_size s =
     (case s of None \<Rightarrow> Some ([], 0)
      | Some s \<Rightarrow> if dst_max_size = 0 then Some ([], 0)
          else (case get_char32_from_utf16_string s of (s', c) \<Rightarrow>
            map_option plain (nn_loop get_char32_from_utf16_string get_utf16_from_char32 s' c dst_max_size [])))"

definition utf16_string_from_utf16_string :: "nat \<Rightarrow> char16 list option \<Rightarrow> (char16 list \<times> nat) option" where
  "utf16_string_from_utf16_string dst_max_size s =
     (if dst_max_size = 0 then Some ([], 0)
      else map_option (terminated dst_max_size) (utf16_stringnn_from_utf16_string dst_max_size s))"

definition utf16_string_from_utf16_string_len :: "nat \<Rightarrow> char16 list option \<Rightarrow> nat \<Rightarrow> (char16 list \<times> nat) option" where
  "utf16_string_from_utf16_string_len dst_max_size s len =
     (case s of None \<Rightarrow> Some (if dst_max_size > 0 then [0] else [], 0)
      | Some s \<Rightarrow>
          if len = 0 \<or> dst_max_size \<le> 1 then Some (if dst_max_size > 0 then [0] else [], 0)
          else (case get_char32_from_utf16_string s of (s', c) \<Rightarrow>
            map_option finish
              (len_loop get_char32_from_utf16_string get_utf16_from_char32 s' c (dst_max_size - 1) len [])))"

definition utf16_string_from_utf16_string_size :: "nat \<Rightarrow> char16 list option \<Rightarrow> nat \<Rightarrow> (char16 list \<times> nat) option" where
  "utf16_string_from_utf16_string_size dst_max_size s sz =
     (if dst_max_size = 0 then Some ([], 0)
      else case s of None \<Rightarrow> Some ([0], 0)
      | Some s \<Rightarrow> if dst_max_size = 1 \<or> sz = 0 then Some ([0], 0)
          else map_option (\<lambda>real_size.
              if real_size = 0 then ([0], 0)
              else let n = min (min real_size sz) (dst_max_size - 1);
                       n' = (if is_high_surrogate (at s (n - 1)) then n - 1 else n)
                   in (take n' s @ [0], n'))
            (utf16_size_of_utf16_string (Some s)))"

definition utf32_stringnn_from_utf32_string :: "nat \<Rightarrow> char32 list option \<Rightarrow> char32 list \<times> nat" where
  "utf32_stringnn_from_utf32_string dst_max_size s =
     (case s of None \<Rightarrow> ([], 0)
      | Some s \<Rightarrow> if dst_max_size = 0 then ([], 0)
          else let s_len = utf32_size_of_utf32_string s;
                   n = (if dst_max_size > s_len then s_len else dst_max_size)
               in (take n s, n))"

definition utf32_string_from_utf32_string :: "nat \<Rightarrow> char32 list option \<Rightarrow> char32 list \<times> nat" where
  "utf32_string_from_utf32_string dst_max_size s =
     (if dst_max_size = 0 then ([], 0)
      else terminated dst_max_size (utf32_stringnn_from_utf32_string dst_max_size s))"

definition utf32_string_from_utf32_string_len :: "nat \<Rightarrow> char32 list option \<Rightarrow> nat \<Rightarrow> char32 list \<times> nat" where
  "utf32_string_from_utf32_string_len dst_max_size s len =
     (case s of None \<Rightarrow> (if dst_max_size > 0 then [0] else [], 0)
      | Some s \<Rightarrow>
          if len = 0 \<or> dst_max_size \<le> 1 then (if dst_max_size > 0 then [0] else [], 0)
          else let s_len = utf32_size_of_utf32_string_len s len;
                   n = (if dst_max_size > s_len then s_len else dst_max_size - 1)
               in (take n s @ [0], n))"

definition utf32_string_from_utf32_string_size :: "nat \<Rightarrow> char32 list option \<Rightarrow> nat \<Rightarrow> char32 list \<times> nat" where
  "utf32_string_from_utf32_string_size dst_max_size s sz =
     (case s of None \<Rightarrow> (if dst_max_size > 0 then [0] else [], 0)
      | Some s \<Rightarrow>
          if sz = 0 \<or> dst_max_size \<le> 1 then (if dst_max_size > 0 then [0] else [], 0)
          else let real_size = utf32_size_of_utf32_string s in
            if real_size = 0 then ([0], 0)
            else let n = min (min real_size sz) (dst_max_size - 1) in (take n s @ [0], n))"

fun get_char32_from_utf32_string_at_pos :: "char32 list \<Rightarrow> nat \<Rightarrow> char32" where
  "get_char32_from_utf32_string_at_pos s 0 = at s 0"
| "get_char32_from_utf32_string_at_pos s (Suc pos) =
     (if at s 0 \<noteq> 0 then get_char32_from_utf32_string_at_pos (drop 1 s) pos else at s 0)"

definition length_of_utf8_string :: "byte list option \<Rightarrow> nat option" where
  "length_of_utf8_string s = utf32_size_of_utf8_string s"

definition length_of_utf16_string :: "char16 list option \<Rightarrow> nat option" where
  "length_of_utf16_string s = utf32_size_of_utf16_string s"

definition length_of_utf32_string :: "char32 list \<Rightarrow> nat" where
  "length_of_utf32_string s = utf32_size_of_utf32_string s"

end
