(* ===== verification/Unicode_Text.thy ===== *)
theory Unicode_Text
  imports Unicode_Conversions
begin

text \<open>
  What the string routines do on Unicode text, that is on the UTF-8, UTF-16 or UTF-32 units
  of a list of code points, and on arbitrary units.
\<close>

section \<open>Instances\<close>

lemma utf8_start: "scalar c \<Longrightarrow> at (utf8 c @ s) 0 \<noteq> 0"
  using utf8_decode [of c s] scalar_bounds [of c] by (auto simp: get_char32_from_utf8_string_def)

lemma utf16_start: "scalar c \<Longrightarrow> at (utf16 c @ s) 0 \<noteq> 0"
  using utf16_decode [of c s] scalar_bounds [of c] by (auto simp: get_char32_from_utf16_string_def)

lemma decode_nil: "get_char32_from_utf8_string [] = ([], 0)" "get_char32_from_utf16_string [] = ([], 0)"
  by (simp_all add: get_char32_from_utf8_string_def get_char32_from_utf16_string_def)

interpretation u8: unit_reader get_char32_from_utf8_string utf8 scalar
  using utf8_progress by unfold_locales (simp_all add: utf8_decode decode_nil utf8_start scalar_bounds)

interpretation u16: unit_reader get_char32_from_utf16_string utf16 scalar
  using utf16_progress by unfold_locales (simp_all add: utf16_decode decode_nil utf16_start scalar_bounds)

interpretation w8: unit_writer get_utf8_from_char32 utf8
  by unfold_locales (simp_all add: utf8_emit utf8_nonempty)

interpretation w16: unit_writer get_utf16_from_char32 utf16
  by unfold_locales (simp_all add: utf16_emit utf16_nonempty)

interpretation w32: unit_writer get_utf32_from_char32 utf32
  by unfold_locales (simp_all add: utf32_emit utf32_nonempty)

interpretation u8_u8: unit_conversion get_char32_from_utf8_string utf8 scalar get_utf8_from_char32 utf8 ..

interpretation u8_u16: unit_conversion get_char32_from_utf8_string utf8 scalar get_utf16_from_char32 utf16 ..

interpretation u8_u32: unit_conversion get_char32_from_utf8_string utf8 scalar get_utf32_from_char32 utf32 ..

interpretation u16_u8: unit_conversion get_char32_from_utf16_string utf16 scalar get_utf8_from_char32 utf8 ..

interpretation u16_u16: unit_conversion get_char32_from_utf16_string utf16 scalar get_utf16_from_char32 utf16 ..

interpretation u16_u32: unit_conversion get_char32_from_utf16_string utf16 scalar get_utf32_from_char32 utf32 ..

section \<open>The terminator\<close>

definition closed :: "nat \<Rightarrow> 'v :: zero list \<Rightarrow> 'v list \<times> nat" where
  "closed dst_max_size ws = (take (dst_max_size - 1) ws @ [0], min (length ws) (dst_max_size - 1))"

lemma terminated_plain:
  assumes "length ws \<le> dst_max_size" "dst_max_size > 0"
  shows "terminated dst_max_size (plain ws) = closed dst_max_size ws"
proof (cases "length ws = dst_max_size")
  case True
  then have "ws[dst_max_size - 1 := 0] = take (dst_max_size - 1) ws @ [0]"
    using assms(2) by (intro nth_equalityI) (auto simp: nth_append nth_list_update)
  then show ?thesis
    using True assms by (simp add: terminated_def plain_def closed_def store_zero_def)
qed (use assms in \<open>auto simp: terminated_def plain_def closed_def store_zero_def\<close>)

lemma units_utf32 [simp]: "units utf32 cs = cs"
  by (induction cs) (simp_all add: utf32_def get_utf32_from_char32_def)

lemma fit_utf32 [simp]: "fit utf32 n cs = take n cs"
  by (induction cs arbitrary: n) (auto simp: length_utf32 take_Cons' Suc_le_eq)

lemma text_nonzero: "list_all scalar cs \<Longrightarrow> list_all (\<lambda>c. c \<noteq> 0) cs"
  by (auto simp: list_all_iff dest: scalar_bounds)

lemma strlen_text: "list_all scalar cs \<Longrightarrow> strlen cs = length cs"
  by (induction cs) (auto simp: strlen_def dest: scalar_bounds)

section \<open>Cutting UTF-8 at a code point\<close>

lemma units_append [simp]: "units e (xs @ ys) = units e xs @ units e ys"
  by (simp add: units_def)

lemma fit_split:
  assumes ne: "\<And>c. e c \<noteq> []"
  shows "0 < k \<Longrightarrow> k \<le> length (units e cs) \<Longrightarrow>
   \<exists>a c b. cs = a @ c # b \<and> length (units e a) < k \<and> k \<le> length (units e a) + length (e c) \<and>
     fit e k cs = (if k = length (units e a) + length (e c) then a @ [c] else a)"
proof (induction cs arbitrary: k)
  case (Cons c cs)
  show ?case
  proof (cases "k \<le> length (e c)")
    case True
    then show ?thesis
      using Cons.prems by (intro exI [of _ "[]"] exI [of _ c] exI [of _ cs]) (auto simp: fit_0 [OF ne])
  next
    case False
    then have "0 < k - length (e c)" "k - length (e c) \<le> length (units e cs)" using Cons.prems by auto
    from Cons.IH [OF this] obtain a d b where "cs = a @ d # b" "length (units e a) < k - length (e c)"
      "k - length (e c) \<le> length (units e a) + length (e d)"
      "fit e (k - length (e c)) cs = (if k - length (e c) = length (units e a) + length (e d) then a @ [d] else a)"
      by blast
    then show ?thesis using False by (intro exI [of _ "c # a"] exI [of _ d] exI [of _ b]) auto
  qed
qed simp

lemma lead_index_eq:
  "p < k \<Longrightarrow> at s p AND 0xC0 \<noteq> 0x80 \<Longrightarrow> (\<And>j. p < j \<Longrightarrow> j < k \<Longrightarrow> at s j AND 0xC0 = 0x80) \<Longrightarrow> lead_index s k = p"
  by (induction k) (auto simp: less_Suc_eq)


lemma utf8_shape:
  assumes "scalar c" "1 < length (utf8 c)"
  shows "\<And>j. 0 < j \<Longrightarrow> j < length (utf8 c) \<Longrightarrow> utf8 c ! j AND 0xC0 = 0x80"
    "utf8 c ! 0 AND 0xC0 = 0xC0"
    "length (utf8 c) = 2 \<and> utf8 c ! 0 AND 0xE0 = 0xC0 \<or>
     length (utf8 c) = 3 \<and> utf8 c ! 0 AND 0xF0 = 0xE0 \<or> length (utf8 c) = 4 \<and> utf8 c ! 0 AND 0xF8 = 0xF0"
proof -
  have l: "b AND 0xE0 = 0xC0 \<Longrightarrow> b AND 0xC0 = 0xC0" "b AND 0xF0 = 0xE0 \<Longrightarrow> b AND 0xC0 = 0xC0"
    "b AND 0xF8 = 0xF0 \<Longrightarrow> b AND 0xC0 = 0xC0" for b :: byte
  proof -
    have "b AND 0xC0 = (b AND 0xE0) AND 0xC0" "b AND 0xC0 = (b AND 0xF0) AND 0xC0" "b AND 0xC0 = (b AND 0xF8) AND 0xC0"
      by (simp_all add: and.assoc)
    then show "b AND 0xE0 = 0xC0 \<Longrightarrow> b AND 0xC0 = 0xC0" "b AND 0xF0 = 0xE0 \<Longrightarrow> b AND 0xC0 = 0xC0"
      "b AND 0xF8 = 0xF0 \<Longrightarrow> b AND 0xC0 = 0xC0" by auto
  qed
  show "utf8 c ! j AND 0xC0 = 0x80" if "0 < j" "j < length (utf8 c)" for j
    using that assms by (auto simp: utf8_cases cont_bits nth_Cons' split: if_splits)
  show "length (utf8 c) = 2 \<and> utf8 c ! 0 AND 0xE0 = 0xC0 \<or>
     length (utf8 c) = 3 \<and> utf8 c ! 0 AND 0xF0 = 0xE0 \<or> length (utf8 c) = 4 \<and> utf8 c ! 0 AND 0xF8 = 0xF0"
    using assms by (auto simp: utf8_cases lead_bits split: if_splits)
  then show "utf8 c ! 0 AND 0xC0 = 0xC0" using l by blast
qed

lemma cut_point_char:
  assumes c: "scalar c" and s: "s = a @ utf8 c @ b" and k: "length a < k" "k \<le> length a + length (utf8 c)"
  shows "cut_point s k = (if k = length a + length (utf8 c) then k else length a)"
proof -
  have at: "at s (length a + j) = utf8 c ! j" if "j < length (utf8 c)" for j
    using that by (simp add: s at_def nth_append)
  show ?thesis
  proof (cases "length (utf8 c) = 1")
    case True
    then have "c < 0x80" using c by (auto simp: utf8_cases split: if_splits)
    moreover have "k - 1 = length a" using k True by simp
    ultimately have "at s (k - 1) AND 0x80 = 0"
      using at [of 0] ascii_byte [of c] True by (simp add: utf8_cases)
    then show ?thesis using True k by (simp add: cut_point_def)
  next
    case False
    then have m: "1 < length (utf8 c)" using utf8_nonempty [of c] by (cases "utf8 c") auto
    note sh = utf8_shape [OF c m]
    have "lead_index s k = length a"
    proof (rule lead_index_eq [OF k(1)])
      show "at s (length a) AND 0xC0 \<noteq> 0x80" using at [of 0] sh(2) utf8_nonempty [of c] by simp
      show "at s j AND 0xC0 = 0x80" if "length a < j" "j < k" for j
        using at [of "j - length a"] sh(1) [of "j - length a"] that k by simp
    qed
    moreover have "at s (k - 1) AND 0x80 \<noteq> 0"
    proof -
      have "at s (k - 1) AND 0xC0 = 0x80 \<or> at s (k - 1) AND 0xC0 = 0xC0"
        using at [of "k - 1 - length a"] sh(1) [of "k - 1 - length a"] sh(2) k utf8_nonempty [of c]
        by (cases "k = Suc (length a)") auto
      moreover have "at s (k - 1) AND 0x80 = (at s (k - 1) AND 0xC0) AND 0x80" by (simp add: and.assoc)
      ultimately show ?thesis by auto
    qed
    moreover have "at s (length a) = utf8 c ! 0" using at [of 0] utf8_nonempty [of c] by simp
    ultimately have cut: "cut_point s k = (let b = utf8 c ! 0; i = length a in
      if b AND 0xE0 = 0xC0 then (if k - i < 2 then i else i + 2)
      else if b AND 0xF0 = 0xE0 then (if k - i < 3 then i else i + 3)
      else if b AND 0xF8 = 0xF0 then (if k - i < 4 then i else i + 4) else k)"
      using sh(2) unfolding cut_point_def Let_def by simp
    from sh(3) show ?thesis
    proof (elim disjE conjE)
      assume "length (utf8 c) = 2" "utf8 c ! 0 AND 0xE0 = 0xC0"
      then show ?thesis using k unfolding cut Let_def by simp linarith
    next
      assume "length (utf8 c) = 3" "utf8 c ! 0 AND 0xF0 = 0xE0"
      then show ?thesis using k byte_tests(2) [of "utf8 c ! 0"] unfolding cut Let_def by simp linarith
    next
      assume "length (utf8 c) = 4" "utf8 c ! 0 AND 0xF8 = 0xF0"
      then show ?thesis using k byte_tests(3) [of "utf8 c ! 0"] unfolding cut Let_def by simp linarith
    qed
  qed
qed


lemma strlen_units: "(\<And>c. c \<in> set cs \<Longrightarrow> 0 \<notin> set (e c)) \<Longrightarrow> strlen (units e cs) = length (units e cs)"
proof -
  assume "\<And>c. c \<in> set cs \<Longrightarrow> 0 \<notin> set (e c)"
  then have "\<forall>u\<in>set (units e cs). u \<noteq> 0" by (force simp: units_def)
  then have "takeWhile (\<lambda>u. u \<noteq> 0) (units e cs) = units e cs" by (simp add: takeWhile_eq_all_conv)
  then show ?thesis unfolding strlen_def by (rule arg_cong)
qed

lemma utf8_nonzero: "scalar c \<Longrightarrow> 0 \<notin> set (utf8 c)"
proof (cases "length (utf8 c) = 1")
  case True
  assume "scalar c"
  then show ?thesis using True utf8_start [of c "[]"] by (cases "utf8 c") auto
next
  case False
  assume c: "scalar c"
  have "1 < length (utf8 c)" using False utf8_nonempty [of c] by (cases "utf8 c") auto
  note sh = utf8_shape [OF c this]
  show ?thesis
  proof
    assume "0 \<in> set (utf8 c)"
    then obtain j where "j < length (utf8 c)" "utf8 c ! j = 0" by (auto simp: in_set_conv_nth)
    then show False using sh(1) [of j] sh(2) by (cases "j = 0") auto
  qed
qed

lemma cut_point_text:
  assumes "list_all scalar cs" and "0 < k" "k \<le> length (units utf8 cs)"
  shows "cut_point (units utf8 cs) k = length (units utf8 (fit utf8 k cs))"
    and "take (length (units utf8 (fit utf8 k cs))) (units utf8 cs) = units utf8 (fit utf8 k cs)"
proof -
  obtain a c b where s: "cs = a @ c # b" "length (units utf8 a) < k" "k \<le> length (units utf8 a) + length (utf8 c)"
    "fit utf8 k cs = (if k = length (units utf8 a) + length (utf8 c) then a @ [c] else a)"
    using fit_split [OF utf8_nonempty assms(2,3)] by blast
  have "scalar c" using assms(1) s(1) by simp
  from cut_point_char [OF this _ s(2,3), of "units utf8 cs" "units utf8 b"]
  show "cut_point (units utf8 cs) k = length (units utf8 (fit utf8 k cs))" using s by auto
  show "take (length (units utf8 (fit utf8 k cs))) (units utf8 cs) = units utf8 (fit utf8 k cs)" using s(1,4) by auto
qed

lemma fit_min: "fit e m (fit e n cs) = fit e (min n m) cs"
proof (induction cs arbitrary: m n)
  case (Cons c cs)
  consider "length (e c) \<le> n" "length (e c) \<le> m" | "\<not> length (e c) \<le> n" | "\<not> length (e c) \<le> m" by blast
  then show ?case
  proof cases
    case 1
    then have "min n m - length (e c) = min (n - length (e c)) (m - length (e c))" by linarith
    then show ?thesis using Cons [of "m - length (e c)" "n - length (e c)"] 1 by simp
  qed simp_all
qed simp

lemma fit_beyond: "length (units e cs) \<le> n \<Longrightarrow> fit e n cs = fit e (length (units e cs)) cs"
  by (simp add: fit_all)

lemma utf8_size_cut:
  assumes "list_all scalar cs" "0 < sz" "1 < n"
  shows "utf8_string_from_utf8_string_size n (Some (units utf8 cs)) sz = finish (units utf8 (fit utf8 (n - 1) (fit utf8 sz cs)))"
proof -
  have len: "strlen (units utf8 cs) = length (units utf8 cs)"
    using assms(1) by (intro strlen_units) (auto simp: list_all_iff utf8_nonzero)
  define k where "k = min (min (length (units utf8 cs)) sz) (n - Suc 0)"
  have fit: "fit utf8 k cs = fit utf8 (n - 1) (fit utf8 sz cs)"
    unfolding fit_min k_def by (auto simp: min_def fit_all)
  show ?thesis
  proof (cases "cs = []")
    case False
    then have "0 < length (units utf8 cs)" using utf8_nonempty by (cases cs) auto
    then have "0 < k" "k \<le> length (units utf8 cs)" using assms(2,3) by (auto simp: k_def)
    note cut = cut_point_text [OF assms(1) this]
    then show ?thesis
      using assms(2,3) \<open>0 < length (units utf8 cs)\<close> len
      by (simp add: utf8_string_from_utf8_string_size_def utf8_size_of_utf8_string_def Let_def finish_def k_def [symmetric] fit)
  qed (use assms in \<open>simp add: utf8_string_from_utf8_string_size_def utf8_size_of_utf8_string_def strlen_def finish_def\<close>)
qed


section \<open>Cutting UTF-16 at a code point\<close>

lemma utf16_shape:
  assumes "scalar c"
  shows "length (utf16 c) = 1 \<and> \<not> is_high_surrogate (utf16 c ! 0) \<or>
    length (utf16 c) = 2 \<and> is_high_surrogate (utf16 c ! 0) \<and> \<not> is_high_surrogate (utf16 c ! 1)"
proof (cases "c \<le> 0xFFFF")
  case True
  then have u: "ucast (ucast c :: char16) = c"
    by (intro ucast_ucast_char16) (simp add: word_le_nat_alt)
  have "c AND 0xfffffc00 \<noteq> 0xd800"
  proof
    assume "c AND 0xfffffc00 = 0xd800"
    moreover have "(0xfffffc00 :: char32) = NOT (mask 10)" by (simp add: mask_eq_exp_minus_1)
    moreover have "(c AND NOT (mask 10)) + (c AND mask 10) = c"
      by (subst disjunctive_add_eq_or) (auto simp: bit_eq_iff bit_simps)
    ultimately have "c = 0xd800 + take_bit 10 c" by (simp add: take_bit_eq_mask)
    moreover have "unat (take_bit 10 c) < 0x400"
      by (simp add: unsigned_take_bit_eq take_bit_nat_less_exp [of 10, simplified])
    moreover from this have "unat (0xd800 + take_bit 10 c) = 0xd800 + unat (take_bit 10 c)"
      by (simp add: unat_word_ariths)
    ultimately have "unat c = 0xd800 + unat (take_bit 10 c)" "unat (take_bit 10 c) < 0x400" by metis+
    then have "0xd800 \<le> unat c \<and> unat c \<le> 0xdfff" by linarith
    then show False using assms by (simp add: scalar_def word_le_nat_alt)
  qed
  then show ?thesis using True u by (simp add: utf16_cases is_high_surrogate_def)
next
  case False
  define d where "d = c - 0x10000"
  have "d < 0x100000"
    using assms False by (auto simp: d_def scalar_def word_less_nat_alt word_le_nat_alt unat_sub_if')
  note sp = surrogate_pair [OF this]
  have "(ucast ((d AND 0x3FF) + 0xDC00) :: char16) \<noteq> 0" using sp(2,5) by force
  then show ?thesis
    using False sp by (simp add: utf16_cases Let_def d_def [symmetric] is_high_surrogate_def)
qed

lemma utf16_cut:
  assumes "list_all scalar cs" and "0 < k" "k \<le> length (units utf16 cs)"
  shows "(if is_high_surrogate (at (units utf16 cs) (k - 1)) then k - 1 else k) = length (units utf16 (fit utf16 k cs))"
    and "take (length (units utf16 (fit utf16 k cs))) (units utf16 cs) = units utf16 (fit utf16 k cs)"
proof -
  obtain a c b where s: "cs = a @ c # b" "length (units utf16 a) < k" "k \<le> length (units utf16 a) + length (utf16 c)"
    "fit utf16 k cs = (if k = length (units utf16 a) + length (utf16 c) then a @ [c] else a)"
    using fit_split [OF utf16_nonempty assms(2,3)] by blast
  have at: "at (units utf16 cs) (length (units utf16 a) + j) = utf16 c ! j" if "j < length (utf16 c)" for j
    using that s(1) by (simp add: at_def nth_append)
  have "scalar c" using assms(1) s(1) by simp
  from utf16_shape [OF this]
  show "(if is_high_surrogate (at (units utf16 cs) (k - 1)) then k - 1 else k) = length (units utf16 (fit utf16 k cs))"
  proof (elim disjE conjE)
    assume "length (utf16 c) = 1" "\<not> is_high_surrogate (utf16 c ! 0)"
    moreover from this have "k - 1 = length (units utf16 a)" using s(2,3) by simp
    ultimately show ?thesis using at [of 0] s(1,2,4) by simp
  next
    assume h: "length (utf16 c) = 2" "is_high_surrogate (utf16 c ! 0)" "\<not> is_high_surrogate (utf16 c ! 1)"
    then consider "k - 1 = length (units utf16 a)" "k \<noteq> length (units utf16 a) + 2"
      | "k - 1 = length (units utf16 a) + 1" "k = length (units utf16 a) + 2" using s(2,3) by linarith
    then show ?thesis
    proof cases
      case 1
      then show ?thesis using h at [of 0] s(4) by simp
    next
      case 2
      then show ?thesis using h at [of 1] s(4) by simp
    qed
  qed
  show "take (length (units utf16 (fit utf16 k cs))) (units utf16 cs) = units utf16 (fit utf16 k cs)" using s(1,4) by auto
qed

lemma skip_loop_text:
  "list_all scalar cs \<Longrightarrow> c \<noteq> 0 \<Longrightarrow> skip_loop get_char32_from_utf16_string (units utf16 cs) c = Some []"
proof (induction cs arbitrary: c)
  case Nil
  then show ?case by (simp add: skip_loop.simps decode_nil)
next
  case (Cons d cs)
  then show ?case
    by (subst skip_loop.simps) (simp add: u16.dec_enc u16.valid_nz)
qed

lemma utf16_size_cut:
  assumes "list_all scalar cs" "0 < sz" "1 < n"
  shows "utf16_string_from_utf16_string_size n (Some (units utf16 cs)) sz =
    Some (finish (units utf16 (fit utf16 (n - 1) (fit utf16 sz cs))))"
proof -
  define k where "k = min (min (length (units utf16 cs)) sz) (n - Suc 0)"
  have fit: "fit utf16 k cs = fit utf16 (n - 1) (fit utf16 sz cs)"
    unfolding fit_min k_def by (auto simp: min_def fit_all)
  show ?thesis
  proof (cases "cs = []")
    case False
    then have "0 < length (units utf16 cs)" using utf16_nonempty by (cases cs) auto
    then have "0 < k" "k \<le> length (units utf16 cs)" using assms(2,3) by (auto simp: k_def)
    note cut = utf16_cut [OF assms(1) this]
    then show ?thesis
      using assms(2,3) \<open>0 < length (units utf16 cs)\<close> skip_loop_text [OF assms(1), of 1]
      by (simp add: utf16_string_from_utf16_string_size_def utf16_size_of_utf16_string_def Let_def finish_def
          k_def [symmetric] fit)
  qed (use assms skip_loop_text [of "[]" 1] in
      \<open>simp add: utf16_string_from_utf16_string_size_def utf16_size_of_utf16_string_def finish_def\<close>)
qed


section \<open>Sizes\<close>

lemma length_units: "length (units e cs) = sum_list (map (\<lambda>c. length (e c)) cs)"
  by (induction cs) auto

lemma units_size:
  "list_all scalar cs \<Longrightarrow> sum_list (map utf8_size_of_utf32_char cs) = length (units utf8 cs)"
  "list_all scalar cs \<Longrightarrow> sum_list (map utf16_size_of_utf32_char cs) = length (units utf16 cs)"
  by (induction cs) (auto simp: len_simps scalar_bounds)

lemma char_ptr_text:
  "scalar c \<Longrightarrow> utf8_size_of_utf32_char_ptr (c # s) n = (s, n + utf8_size_of_utf32_char c)"
  "scalar c \<Longrightarrow> utf8_size_of_utf16_char_ptr (utf16 c @ t) n = (t, n + utf8_size_of_utf32_char c)"
  by (simp_all add: utf8_size_of_utf32_char_ptr_def utf8_size_of_utf16_char_ptr_def u16.dec_enc u16.valid_nz)

lemma ptr_loop_utf32:
  "list_all scalar cs \<Longrightarrow> ptr_loop utf8_size_of_utf32_char_ptr cs n = Some (n + sum_list (map utf8_size_of_utf32_char cs))"
proof (induction cs arbitrary: n)
  case (Cons c cs)
  then show ?case by (subst ptr_loop.simps) (simp add: char_ptr_text scalar_bounds)
qed (simp add: ptr_loop.simps)

lemma ptr_loop_utf16:
  "list_all scalar cs \<Longrightarrow> ptr_loop utf8_size_of_utf16_char_ptr (units utf16 cs) n =
     Some (n + sum_list (map utf8_size_of_utf32_char cs))"
proof (induction cs arbitrary: n)
  case (Cons c cs)
  then show ?case
    by (subst ptr_loop.simps) (simp add: char_ptr_text u16.enc_start)
qed (simp add: ptr_loop.simps)

lemma ptr_len_loop_utf32:
  "list_all scalar cs \<Longrightarrow> ptr_len_loop utf8_size_of_utf32_char_ptr cs len n =
     n + sum_list (map utf8_size_of_utf32_char (take len cs))"
proof (induction cs arbitrary: len n)
  case Nil
  then show ?case by (cases len) simp_all
next
  case (Cons c cs)
  then show ?case by (cases len) (simp_all add: char_ptr_text scalar_bounds)
qed

lemma ptr_len_loop_utf16:
  "list_all scalar cs \<Longrightarrow> ptr_len_loop utf8_size_of_utf16_char_ptr (units utf16 cs) len n =
     n + sum_list (map utf8_size_of_utf32_char (take len cs))"
proof (induction cs arbitrary: len n)
  case Nil
  then show ?case by (cases len) simp_all
next
  case (Cons c cs)
  then show ?case
    by (cases len) (simp_all add: char_ptr_text u16.enc_start)
qed

lemma raw_size_text:
  "list_all scalar cs \<Longrightarrow> raw_size w cs n = n + sum_list (map w cs)"
  "list_all scalar cs \<Longrightarrow> raw_len_size w cs len n = n + sum_list (map w (take len cs))"
  by (induction cs arbitrary: n len) (auto simp: scalar_bounds take_Cons' split: if_splits)

lemma skip_len_loop_text:
  "list_all scalar cs \<Longrightarrow> c \<noteq> 0 \<Longrightarrow>
   skip_len_loop get_char32_from_utf8_string (units utf8 cs) c len = units utf8 (drop len cs)"
proof (induction cs arbitrary: len c)
  case Nil
  have "skip_len_loop get_char32_from_utf8_string [] 0 k = []" for k by (cases k) simp_all
  then show ?case using Nil by (cases len) (simp_all add: decode_nil)
next
  case (Cons d cs)
  then show ?case by (cases len) (simp_all add: u8.dec_enc u8.valid_nz)
qed

lemma length_units_drop: "length (units e cs) - length (units e (drop k cs)) = length (units e (take k cs))"
proof -
  have "length (units e cs) = length (units e (take k cs @ drop k cs))" by simp
  then show ?thesis by (simp del: append_take_drop_id)
qed

lemma list_all_take: "list_all P cs \<Longrightarrow> list_all P (take k cs)"
  by (auto simp: list_all_iff dest: in_set_takeD)

lemma utf32_len_text: "list_all scalar cs \<Longrightarrow> utf32_size_of_utf32_string_len cs len = min len (length cs)"
  by (induction cs len rule: utf32_size_of_utf32_string_len.induct) (auto simp: scalar_bounds)

lemma terminated_fit:
  "0 < n \<Longrightarrow> terminated n (plain (units e (fit e n cs))) = closed n (units e (fit e n cs))"
  using fit_size by (intro terminated_plain) auto

lemma utf16_from_utf8_text:
  "list_all scalar cs \<Longrightarrow> 0 < n \<Longrightarrow>
   utf16_string_from_utf8_string n (Some (units utf8 cs)) = Some (closed n (units utf16 (fit utf16 n cs)))"
  using u8_u16.nn_loop_text [of n cs "[]"] terminated_fit [of n utf16 cs]
  by (cases "get_char32_from_utf8_string (units utf8 cs)")
    (simp add: utf16_string_from_utf8_string_def utf16_stringnn_from_utf8_string_def)

lemma utf8_from_utf16_text:
  "list_all scalar cs \<Longrightarrow> 0 < n \<Longrightarrow>
   utf8_string_from_utf16_string n (Some (units utf16 cs)) = Some (closed n (units utf8 (fit utf8 n cs)))"
  using u16_u8.chk_loop_text [of cs n "[]"] terminated_fit [of n utf8 cs]
  by (simp add: utf8_string_from_utf16_string_def utf8_stringnn_from_utf16_string_def)

lemma closed_all: "length ws < n \<Longrightarrow> closed n ws = (ws @ [0], length ws)"
  by (simp add: closed_def)

section \<open>Properties on text\<close>

text \<open>
  C16: Every conversion of a whole string. On the units of a Unicode text the nine routines
  store the units of the longest prefix of the text that fits in \<open>dst_max_size\<close>, cut to
  \<open>dst_max_size - 1\<close> units, followed by the terminator, and report the stored size.
\<close>
theorem string_conversions:
  assumes cs: "list_all scalar cs" and "0 < n"
  shows "utf16_string_from_utf8_string n (Some (units utf8 cs)) = Some (closed n (units utf16 (fit utf16 n cs))) \<and>
    utf32_string_from_utf8_string n (Some (units utf8 cs)) = Some (closed n (take n cs)) \<and>
    utf8_string_from_utf8_string n (Some (units utf8 cs)) = Some (closed n (units utf8 (fit utf8 n cs))) \<and>
    utf8_string_from_utf16_string n (Some (units utf16 cs)) = Some (closed n (units utf8 (fit utf8 n cs))) \<and>
    utf32_string_from_utf16_string n (Some (units utf16 cs)) = closed n (take n cs) \<and>
    utf16_string_from_utf16_string n (Some (units utf16 cs)) = Some (closed n (units utf16 (fit utf16 n cs))) \<and>
    utf8_string_from_utf32_string n (Some cs) = closed n (units utf8 (fit utf8 n cs)) \<and>
    utf16_string_from_utf32_string n (Some cs) = closed n (units utf16 (fit utf16 n cs)) \<and>
    utf32_string_from_utf32_string n (Some cs) = closed n (take n cs)"
proof (intro conjI)
  note t = terminated_fit [OF assms(2), where cs = cs]
  note m = u8_u16.nn_loop_text [OF assms(2,1), of "[]"] u8_u32.nn_loop_text [OF assms(2,1), of "[]"]
    u8_u8.nn_loop_text [OF assms(2,1), of "[]"] u16_u16.nn_loop_text [OF assms(2,1), of "[]"]
    u16_u8.chk_loop_text [OF cs, of n "[]"] u16.stop_loop_text [OF cs, of n "[]"]
    w8.raw_loop_text [OF text_nonzero [OF cs], of n "[]"] w16.raw_loop_text [OF text_nonzero [OF cs], of n "[]"]
  show "utf16_string_from_utf8_string n (Some (units utf8 cs)) = Some (closed n (units utf16 (fit utf16 n cs)))"
    using assms by (rule utf16_from_utf8_text)
  show "utf32_string_from_utf8_string n (Some (units utf8 cs)) = Some (closed n (take n cs))"
    using m(2) assms(2) t [of utf32]
    by (cases "get_char32_from_utf8_string (units utf8 cs)") (simp add: utf32_string_from_utf8_string_def utf32_stringnn_from_utf8_string_def)
  show "utf8_string_from_utf8_string n (Some (units utf8 cs)) = Some (closed n (units utf8 (fit utf8 n cs)))"
    using m(3) assms(2) t [of utf8]
    by (cases "get_char32_from_utf8_string (units utf8 cs)") (simp add: utf8_string_from_utf8_string_def utf8_stringnn_from_utf8_string_def)
  show "utf16_string_from_utf16_string n (Some (units utf16 cs)) = Some (closed n (units utf16 (fit utf16 n cs)))"
    using m(4) assms(2) t [of utf16]
    by (cases "get_char32_from_utf16_string (units utf16 cs)") (simp add: utf16_string_from_utf16_string_def utf16_stringnn_from_utf16_string_def)
  show "utf8_string_from_utf16_string n (Some (units utf16 cs)) = Some (closed n (units utf8 (fit utf8 n cs)))"
    using assms by (rule utf8_from_utf16_text)
  show "utf32_string_from_utf16_string n (Some (units utf16 cs)) = closed n (take n cs)"
    using m(6) assms(2) t [of utf32]
    by (simp add: utf32_string_from_utf16_string_def utf32_stringnn_from_utf16_string_def)
  show "utf8_string_from_utf32_string n (Some cs) = closed n (units utf8 (fit utf8 n cs))"
    using m(7) assms(2) t [of utf8]
    by (simp add: utf8_string_from_utf32_string_def utf8_stringnn_from_utf32_string_def)
  show "utf16_string_from_utf32_string n (Some cs) = closed n (units utf16 (fit utf16 n cs))"
    using m(8) assms(2) t [of utf16]
    by (simp add: utf16_string_from_utf32_string_def utf16_stringnn_from_utf32_string_def)
  show "utf32_string_from_utf32_string n (Some cs) = closed n (take n cs)"
    using assms(2) t [of utf32] strlen_text [OF cs]
    by (auto simp: utf32_string_from_utf32_string_def utf32_stringnn_from_utf32_string_def utf32_size_of_utf32_string_def
        Let_def plain_def min_def split: if_splits)
qed



theorem string_conversions_witness:
  "utf16_string_from_utf8_string 3 (Some [0x41, 0xF0, 0x9F, 0x98, 0x80, 0x42]) = Some ([0x41, 0xD83D, 0], 2) \<and>
   utf8_string_from_utf32_string 6 (Some [0x41, 0x1F600, 0x42]) = ([0x41, 0xF0, 0x9F, 0x98, 0x80, 0], 5)"
proof -
  have "list_all scalar [0x41, 0x1F600, 0x42]" by code_simp
  from string_conversions [OF this, of 3] string_conversions [OF this, of 6] show ?thesis
    by (simp del: list.size) code_simp
qed

text \<open>
  C17: Every conversion with a number of characters. On the units of a Unicode text the nine
  \<open>_len\<close> routines store the longest prefix of the first \<open>len\<close> code points that fits in
  \<open>dst_max_size - 1\<close> units, never part of a code point, and the terminator.
\<close>
theorem string_conversions_len:
  assumes cs: "list_all scalar cs" and "0 < n"
  shows "utf16_string_from_utf8_string_len n (Some (units utf8 cs)) len = Some (finish (units utf16 (fit utf16 (n - 1) (take len cs)))) \<and>
    utf32_string_from_utf8_string_len n (Some (units utf8 cs)) len = Some (finish (take (n - 1) (take len cs))) \<and>
    utf8_string_from_utf8_string_len n (Some (units utf8 cs)) len = Some (finish (units utf8 (fit utf8 (n - 1) (take len cs)))) \<and>
    utf8_string_from_utf16_string_len n (Some (units utf16 cs)) len = finish (units utf8 (fit utf8 (n - 1) (take len cs))) \<and>
    utf32_string_from_utf16_string_len n (Some (units utf16 cs)) len = finish (take (n - 1) (take len cs)) \<and>
    utf16_string_from_utf16_string_len n (Some (units utf16 cs)) len = Some (finish (units utf16 (fit utf16 (n - 1) (take len cs)))) \<and>
    utf8_string_from_utf32_string_len n (Some cs) len = finish (units utf8 (fit utf8 (n - 1) (take len cs))) \<and>
    utf16_string_from_utf32_string_len n (Some cs) len = finish (units utf16 (fit utf16 (n - 1) (take len cs))) \<and>
    utf32_string_from_utf32_string_len n (Some cs) len = finish (take (n - 1) (take len cs))"
proof (intro conjI)
  note m = u8_u16.len_loop_text [OF cs, of "n - 1" len "[]"] u8_u32.len_loop_text [OF cs, of "n - 1" len "[]"]
    u8_u8.len_loop_text [OF cs, of "n - 1" len "[]"] u16_u16.len_loop_text [OF cs, of "n - 1" len "[]"]
    u16_u8.chk_len_loop_text [OF cs, of "n - 1" len "[]"] u16.stop_len_loop_text [OF cs, of "n - 1" len "[]"]
    w8.raw_len_loop_text [OF text_nonzero [OF cs], of "n - 1" len "[]"]
    w16.raw_len_loop_text [OF text_nonzero [OF cs], of "n - 1" len "[]"]
  show "utf16_string_from_utf8_string_len n (Some (units utf8 cs)) len = Some (finish (units utf16 (fit utf16 (n - 1) (take len cs))))"
    using m(1) assms(2)
    by (cases "get_char32_from_utf8_string (units utf8 cs)") (simp add: utf16_string_from_utf8_string_len_def finish_def)
  show "utf32_string_from_utf8_string_len n (Some (units utf8 cs)) len = Some (finish (take (n - 1) (take len cs)))"
    using m(2) assms(2)
    by (cases "get_char32_from_utf8_string (units utf8 cs)") (simp add: utf32_string_from_utf8_string_len_def finish_def)
  show "utf8_string_from_utf8_string_len n (Some (units utf8 cs)) len = Some (finish (units utf8 (fit utf8 (n - 1) (take len cs))))"
    using m(3) assms(2)
    by (cases "get_char32_from_utf8_string (units utf8 cs)"; cases "n = 1")
      (simp_all add: utf8_string_from_utf8_string_len_def finish_def)
  show "utf16_string_from_utf16_string_len n (Some (units utf16 cs)) len = Some (finish (units utf16 (fit utf16 (n - 1) (take len cs))))"
    using m(4) assms(2)
    by (cases "get_char32_from_utf16_string (units utf16 cs)"; cases "n = 1")
      (simp_all add: utf16_string_from_utf16_string_len_def finish_def)
  show "utf8_string_from_utf16_string_len n (Some (units utf16 cs)) len = finish (units utf8 (fit utf8 (n - 1) (take len cs)))"
    using m(5) assms(2) by (cases "n = 1") (simp_all add: utf8_string_from_utf16_string_len_def finish_def)
  show "utf32_string_from_utf16_string_len n (Some (units utf16 cs)) len = finish (take (n - 1) (take len cs))"
    using m(6) assms(2) by (simp add: utf32_string_from_utf16_string_len_def finish_def)
  show "utf8_string_from_utf32_string_len n (Some cs) len = finish (units utf8 (fit utf8 (n - 1) (take len cs)))"
    using m(7) assms(2) by (simp add: utf8_string_from_utf32_string_len_def finish_def)
  show "utf16_string_from_utf32_string_len n (Some cs) len = finish (units utf16 (fit utf16 (n - 1) (take len cs)))"
    using m(8) assms(2) by (simp add: utf16_string_from_utf32_string_len_def finish_def)
  show "utf32_string_from_utf32_string_len n (Some cs) len = finish (take (n - 1) (take len cs))"
  proof (cases "len = 0 \<or> n = 1")
    case False
    have "(if min len (length cs) < n then min len (length cs) else n - 1) = min (n - 1) (min len (length cs))"
      using assms(2) by auto
    then show ?thesis
      using False assms(2) utf32_len_text [OF cs, of len]
      by (simp add: utf32_string_from_utf32_string_len_def finish_def Let_def min.commute min.left_commute
          flip: take_take) (simp add: min.commute)
  qed (use assms(2) in \<open>auto simp: utf32_string_from_utf32_string_len_def finish_def\<close>)
qed


theorem string_conversions_len_witness:
  "utf16_string_from_utf8_string_len 3 (Some [0x41, 0xF0, 0x9F, 0x98, 0x80, 0x42]) 2 = Some ([0x41, 0], 1)"
proof -
  have "list_all scalar [0x41, 0x1F600, 0x42]" by code_simp
  from string_conversions_len [OF this, of 3 2] show ?thesis
    by (simp del: list.size) code_simp
qed

text \<open>
  C18: Every conversion with a source size. On the units of a Unicode text the nine \<open>_size\<close>
  routines take the longest prefix of the text whose units fit in \<open>size\<close> source units and
  store its longest prefix that fits in \<open>dst_max_size - 1\<close> units, never part of a code point.
\<close>
theorem string_conversions_size:
  assumes cs: "list_all scalar cs" and n: "1 < n" and sz: "0 < sz"
  shows "utf16_string_from_utf8_string_size n (Some (units utf8 cs)) sz = Some (finish (units utf16 (fit utf16 (n - 1) (fit utf8 sz cs)))) \<and>
    utf32_string_from_utf8_string_size n (Some (units utf8 cs)) sz = Some (finish (take (n - 1) (fit utf8 sz cs))) \<and>
    utf8_string_from_utf8_string_size n (Some (units utf8 cs)) sz = finish (units utf8 (fit utf8 (n - 1) (fit utf8 sz cs))) \<and>
    utf8_string_from_utf16_string_size n (Some (units utf16 cs)) sz = Some (finish (units utf8 (fit utf8 (n - 1) (fit utf16 sz cs)))) \<and>
    utf32_string_from_utf16_string_size n (Some (units utf16 cs)) sz = Some (finish (take (n - 1) (fit utf16 sz cs))) \<and>
    utf16_string_from_utf16_string_size n (Some (units utf16 cs)) sz = Some (finish (units utf16 (fit utf16 (n - 1) (fit utf16 sz cs)))) \<and>
    utf8_string_from_utf32_string_size n (Some cs) sz = finish (units utf8 (fit utf8 (n - 1) (take sz cs))) \<and>
    utf16_string_from_utf32_string_size n (Some cs) sz = finish (units utf16 (fit utf16 (n - 1) (take sz cs))) \<and>
    utf32_string_from_utf32_string_size n (Some cs) sz = finish (take (n - 1) (take sz cs))"
proof (intro conjI)
  have z: "0 + length (units e cs) = length (units e cs)" for e :: "char32 \<Rightarrow> 'u list" by simp
  note m = u8_u16.bytes_loop_text [OF cs z, of sz "n - 1" "[]"] u8_u32.bytes_loop_text [OF cs z, of sz "n - 1" "[]"]
    u16_u8.bytes_loop_text [OF cs z, of sz "n - 1" "[]"] u16_u32.bytes_loop_text [OF cs z, of sz "n - 1" "[]"]
    w8.raw_len_loop_text [OF text_nonzero [OF cs], of "n - 1" sz "[]"]
    w16.raw_len_loop_text [OF text_nonzero [OF cs], of "n - 1" sz "[]"]
  show "utf16_string_from_utf8_string_size n (Some (units utf8 cs)) sz = Some (finish (units utf16 (fit utf16 (n - 1) (fit utf8 sz cs))))"
    using m(1) n sz
    by (cases "get_char32_from_utf8_string (units utf8 cs)") (simp add: utf16_string_from_utf8_string_size_def)
  show "utf32_string_from_utf8_string_size n (Some (units utf8 cs)) sz = Some (finish (take (n - 1) (fit utf8 sz cs)))"
    using m(2) n sz
    by (cases "get_char32_from_utf8_string (units utf8 cs)") (simp add: utf32_string_from_utf8_string_size_def)
  show "utf8_string_from_utf16_string_size n (Some (units utf16 cs)) sz = Some (finish (units utf8 (fit utf8 (n - 1) (fit utf16 sz cs))))"
    using m(3) n sz
    by (cases "get_char32_from_utf16_string (units utf16 cs)") (simp add: utf8_string_from_utf16_string_size_def)
  show "utf32_string_from_utf16_string_size n (Some (units utf16 cs)) sz = Some (finish (take (n - 1) (fit utf16 sz cs)))"
    using m(4) n sz
    by (cases "get_char32_from_utf16_string (units utf16 cs)") (simp add: utf32_string_from_utf16_string_size_def)
  show "utf8_string_from_utf32_string_size n (Some cs) sz = finish (units utf8 (fit utf8 (n - 1) (take sz cs)))"
    using m(5) n sz by (simp add: utf8_string_from_utf32_string_size_def)
  show "utf16_string_from_utf32_string_size n (Some cs) sz = finish (units utf16 (fit utf16 (n - 1) (take sz cs)))"
    using m(6) n sz by (simp add: utf16_string_from_utf32_string_size_def)
  show "utf32_string_from_utf32_string_size n (Some cs) sz = finish (take (n - 1) (take sz cs))"
    using n sz strlen_text [OF cs]
    by (auto simp: utf32_string_from_utf32_string_size_def utf32_size_of_utf32_string_def finish_def Let_def min_def)
qed (use utf8_size_cut [OF cs sz n] utf16_size_cut [OF cs sz n] in auto)

theorem string_conversions_size_witness:
  "utf8_string_from_utf8_string_size 9 (Some [0x41, 0xF0, 0x9F, 0x98, 0x80, 0x42]) 4 = ([0x41, 0], 1)"
proof -
  have "list_all scalar [0x41, 0x1F600, 0x42]" by code_simp
  from string_conversions_size [OF this, of 9 4] show ?thesis
    by (simp del: list.size) code_simp
qed

text \<open>
  C19: Every size routine reports the number of units the text has in the other encoding,
  for the whole text and, in the \<open>_len\<close> variants, for its first \<open>len\<close> code points.
\<close>
theorem string_sizes:
  assumes cs: "list_all scalar cs" and len: "0 < len"
  shows "utf8_size_of_utf16_string (Some (units utf16 cs)) = Some (length (units utf8 cs)) \<and>
    utf8_size_of_utf16_string_len (Some (units utf16 cs)) len = length (units utf8 (take len cs)) \<and>
    utf8_size_of_utf32_string (Some cs) = Some (length (units utf8 cs)) \<and>
    utf8_size_of_utf32_string_len (Some cs) len = length (units utf8 (take len cs)) \<and>
    utf16_size_of_utf8_string (Some (units utf8 cs)) = Some (length (units utf16 cs)) \<and>
    utf16_size_of_utf8_string_len (Some (units utf8 cs)) len = Some (length (units utf16 (take len cs))) \<and>
    utf16_size_of_utf32_string (Some cs) = length (units utf16 cs) \<and>
    utf16_size_of_utf32_string_len (Some cs) len = length (units utf16 (take len cs)) \<and>
    utf32_size_of_utf8_string (Some (units utf8 cs)) = Some (length cs) \<and>
    utf32_size_of_utf8_string_len (Some (units utf8 cs)) len = Some (length (take len cs)) \<and>
    utf32_size_of_utf16_string (Some (units utf16 cs)) = Some (length cs) \<and>
    utf32_size_of_utf16_string_len (Some (units utf16 cs)) len = Some (length (take len cs)) \<and>
    utf8_size_of_utf8_string (Some (units utf8 cs)) = length (units utf8 cs) \<and>
    utf8_size_of_utf8_string_len (Some (units utf8 cs)) len = length (units utf8 (take len cs)) \<and>
    utf16_size_of_utf16_string (Some (units utf16 cs)) = Some (length (units utf16 cs)) \<and>
    utf16_size_of_utf16_string_len (Some (units utf16 cs)) len = Some (length (units utf16 (take len cs)))"
proof -
  note tk = list_all_take [OF cs, of len]
  have ones: "sum_list (map (\<lambda>_. Suc 0) xs) = length xs" for xs :: "char32 list" by (induction xs) auto
  have "strlen (units utf8 cs) = length (units utf8 cs)"
    using cs by (intro strlen_units) (auto simp: list_all_iff utf8_nonzero)
  then have "utf8_size_of_utf8_string (Some (units utf8 cs)) = length (units utf8 cs)"
    by (simp add: utf8_size_of_utf8_string_def)
  moreover have "utf8_size_of_utf8_string_len (Some (units utf8 cs)) len = length (units utf8 (take len cs))"
    using skip_len_loop_text [OF cs, of 1 len] len
    by (simp add: utf8_size_of_utf8_string_len_def length_units_drop)
  moreover have "utf16_size_of_utf16_string (Some (units utf16 cs)) = Some (length (units utf16 cs))"
    using skip_loop_text [OF cs, of 1] by (simp add: utf16_size_of_utf16_string_def)
  moreover note u8.size_loop_text [OF cs, of "\<lambda>_. 1" 0] u16.size_loop_text [OF cs, of "\<lambda>_. 1" 0]
    u8.size_loop_text [OF cs, of utf16_size_of_utf32_char 0]
    u8.size_len_loop_text [OF cs, of "\<lambda>_. 1" len 0] u16.size_len_loop_text [OF cs, of "\<lambda>_. 1" len 0]
    u8.size_len_loop_text [OF cs, of utf16_size_of_utf32_char len 0]
    u16.size_len_loop_text [OF cs, of utf16_size_of_utf32_char len 0]
  ultimately show ?thesis
    using len
    by (simp add: utf8_size_of_utf16_string_def utf8_size_of_utf16_string_len_def utf8_size_of_utf32_string_def
        utf8_size_of_utf32_string_len_def utf16_size_of_utf8_string_def utf16_size_of_utf8_string_len_def
        utf16_size_of_utf32_string_def utf16_size_of_utf32_string_len_def utf32_size_of_utf8_string_def
        utf32_size_of_utf8_string_len_def utf32_size_of_utf16_string_def utf32_size_of_utf16_string_len_def
        utf16_size_of_utf16_string_len_def ptr_loop_utf16 ptr_loop_utf32 ptr_len_loop_utf16 ptr_len_loop_utf32
        raw_size_text units_size ones cs tk split: prod.splits)
qed

theorem string_sizes_witness:
  "utf16_size_of_utf8_string (Some [0x41, 0xF0, 0x9F, 0x98, 0x80, 0x42]) = Some 4"
proof -
  have "list_all scalar [0x41, 0x1F600, 0x42]" by code_simp
  from string_sizes [OF this, of 1] show ?thesis
    by (simp del: list.size) code_simp
qed


text \<open>
  C20: UTF-8 text survives the way through UTF-16 and back, and UTF-16 text the way through
  UTF-8, when the destination buffers are as large as the size routines say plus one unit.
\<close>
theorem utf8_utf16_roundtrip:
  assumes "list_all scalar cs"
  shows "utf16_string_from_utf8_string (length (units utf16 cs) + 1) (Some (units utf8 cs)) =
      Some (units utf16 cs @ [0], length (units utf16 cs)) \<and>
    utf8_string_from_utf16_string (length (units utf8 cs) + 1) (Some (units utf16 cs)) =
      Some (units utf8 cs @ [0], length (units utf8 cs)) \<and>
    utf16_size_of_utf8_string (Some (units utf8 cs)) = Some (length (units utf16 cs)) \<and>
    utf8_size_of_utf16_string (Some (units utf16 cs)) = Some (length (units utf8 cs))"
  using assms utf16_from_utf8_text [OF assms, of "length (units utf16 cs) + 1"]
    utf8_from_utf16_text [OF assms, of "length (units utf8 cs) + 1"]
    u8.size_loop_text [OF assms, of utf16_size_of_utf32_char 0]
  by (simp add: fit_all closed_all utf16_size_of_utf8_string_def utf8_size_of_utf16_string_def ptr_loop_utf16 units_size)

theorem utf8_utf16_roundtrip_witness:
  "utf16_string_from_utf8_string 5 (Some [0x41, 0xF0, 0x9F, 0x98, 0x80, 0x42]) = Some ([0x41, 0xD83D, 0xDE00, 0x42, 0], 4) \<and>
   utf8_string_from_utf16_string 7 (Some [0x41, 0xD83D, 0xDE00, 0x42]) = Some ([0x41, 0xF0, 0x9F, 0x98, 0x80, 0x42, 0], 6)"
proof -
  have "list_all scalar [0x41, 0x1F600, 0x42]" by code_simp
  moreover have "units utf8 [0x41, 0x1F600, 0x42] = [0x41, 0xF0, 0x9F, 0x98, 0x80, 0x42]"
    "units utf16 [0x41, 0x1F600, 0x42] = [0x41, 0xD83D, 0xDE00, 0x42]" by code_simp+
  ultimately show ?thesis
    using utf8_utf16_roundtrip [of "[0x41, 0x1F600, 0x42]"] by (simp add: numeral_eq_Suc)
qed

section \<open>Arbitrary units\<close>

definition bounded :: "nat \<Rightarrow> ('v :: zero list \<times> nat) option \<Rightarrow> bool" where
  "bounded n r = (case r of None \<Rightarrow> False | Some (ws, k) \<Rightarrow> k < n \<and> k < length ws \<and> length ws \<le> n \<and> ws ! k = 0)"

lemma bounded_finish: "length ws < n \<Longrightarrow> bounded n (Some (finish ws))"
  by (simp add: bounded_def finish_def)

lemma bounded_zero: "0 < n \<Longrightarrow> bounded n (Some ([0], 0))"
  by (simp add: bounded_def)

lemma bounded_terminated: "length ws \<le> n \<Longrightarrow> 0 < n \<Longrightarrow> bounded n (Some (terminated n (plain ws)))"
  by (auto simp: bounded_def terminated_plain closed_def nth_append min_def)

lemma bounded_map: "\<exists>out. r = Some out \<and> length out \<le> length ([] :: 'v :: zero list) + (n - 1) \<Longrightarrow> 0 < n \<Longrightarrow> bounded n (map_option finish r)"
  by (auto intro!: bounded_finish)

lemma bounded_nn:
  "\<exists>out. r = Some out \<and> length out \<le> length ([] :: 'v :: zero list) + n \<Longrightarrow> 0 < n \<Longrightarrow>
   bounded n (map_option (terminated n) (map_option plain r))"
  by (auto intro: bounded_terminated)



text \<open>
  C22: Reading back what was written. Every code point up to \<open>0x1FFFFF\<close> other than 0 is
  written to UTF-8 as the announced number of bytes, and reading those bytes, whatever
  follows them, gives the code point and the pointer behind it; the same for UTF-16 and
  the Unicode scalar values.
\<close>
theorem char_roundtrip:
  assumes "c \<noteq> 0"
  shows "(c < 0x200000 \<longrightarrow> (\<exists>bs. get_utf8_from_char32 n c = (if length bs \<le> n then (bs, n - length bs) else ([], 0)) \<and>
      length bs = utf8_size_of_utf32_char c \<and> get_char32_from_utf8_string (bs @ s) = (s, c))) \<and>
    (scalar c \<longrightarrow> (\<exists>us. get_utf16_from_char32 n c = (if length us \<le> n then (us, n - length us) else ([], 0)) \<and>
      length us = utf16_size_of_utf32_char c \<and> get_char32_from_utf16_string (us @ t) = (t, c)))"
proof (intro conjI impI)
  assume "c < 0x200000"
  then show "\<exists>bs. get_utf8_from_char32 n c = (if length bs \<le> n then (bs, n - length bs) else ([], 0)) \<and>
      length bs = utf8_size_of_utf32_char c \<and> get_char32_from_utf8_string (bs @ s) = (s, c)"
    using assms by (intro exI [of _ "utf8 c"]) (simp add: utf8_emit length_utf8 utf8_decode)
next
  assume "scalar c"
  then show "\<exists>us. get_utf16_from_char32 n c = (if length us \<le> n then (us, n - length us) else ([], 0)) \<and>
      length us = utf16_size_of_utf32_char c \<and> get_char32_from_utf16_string (us @ t) = (t, c)"
    by (intro exI [of _ "utf16 c"]) (simp add: utf16_emit length_utf16 utf16_decode scalar_bounds)
qed

theorem char_roundtrip_witness:
  "(0x1F600 :: char32) < 0x200000 \<and> scalar 0x1F600 \<and>
   (\<exists>bs. get_utf8_from_char32 4 0x1F600 = (if length bs \<le> 4 then (bs, 4 - length bs) else ([], 0)) \<and>
      length bs = utf8_size_of_utf32_char 0x1F600 \<and> get_char32_from_utf8_string (bs @ [0x41]) = ([0x41], 0x1F600))"
proof -
  have "scalar 0x1F600" by code_simp
  with char_roundtrip [where c = "0x1F600" and n = 4 and s = "[0x41]" and t = "[]"] show ?thesis by simp
qed

section \<open>Where the routines go wrong\<close>

text \<open>
  A low surrogate that does not follow a high one is reported as an error without moving
  on; the loop of \<open>utf8_size_of_utf16_string\<close> tests the unit and not the error, so it
  does not end.
\<close>
lemma lone_low_surrogate: "is_low_surrogate u \<Longrightarrow> get_char32_from_utf16_string (u # s) = (u # s, 0)"
proof -
  assume l: "is_low_surrogate u"
  then have "u \<noteq> 0" by (auto simp: is_low_surrogate_def)
  moreover have "\<not> is_high_surrogate u" using l by (simp add: is_high_surrogate_def is_low_surrogate_def)
  moreover have "is_surrogate u"
  proof -
    have "(ucast u :: char32) = (ucast u AND NOT (mask 10)) + (ucast u AND mask 10)"
      by (subst disjunctive_add_eq_or) (auto simp: bit_eq_iff bit_simps)
    moreover have "(0xfffffc00 :: char32) = NOT (mask 10)" by (simp add: mask_eq_exp_minus_1)
    ultimately have "(ucast u :: char32) = 0xdc00 + take_bit 10 (ucast u)"
      using l by (simp add: is_low_surrogate_def take_bit_eq_mask)
    then have e: "(ucast u :: char32) - 0xd800 = 0x400 + take_bit 10 (ucast u)" by (simp add: algebra_simps)
    have "unat (take_bit 10 (ucast u :: char32)) < 0x400"
      by (simp add: unsigned_take_bit_eq take_bit_nat_less_exp [of 10, simplified])
    then show ?thesis unfolding is_surrogate_def e by (simp add: word_less_nat_alt unat_word_ariths)
  qed
  ultimately show ?thesis by (simp add: get_char32_from_utf16_string_def)
qed

lemma ptr_loop_stuck:
  assumes "ptr_loop adv s n = Some y" "at s 0 \<noteq> 0"
  shows "\<not> (\<forall>k. adv s k = (s, k))"
proof -
  have "\<not> (at s 0 \<noteq> 0 \<and> (\<forall>k. adv s k = (s, k)))"
    by (rule ptr_loop.raw_induct [where P = "\<lambda>adv s n y. \<not> (at s 0 \<noteq> 0 \<and> (\<forall>k. adv s k = (s, k)))", OF _ assms(1)])
      (rule notI, clarsimp, blast)
  then show ?thesis using assms(2) by blast
qed

lemma utf8_size_of_utf16_diverges:
  assumes "is_low_surrogate u"
  shows "utf8_size_of_utf16_string (Some (u # s)) = None"
proof -
  have "u \<noteq> 0" using assms by (auto simp: is_low_surrogate_def)
  moreover have "utf8_size_of_utf16_char_ptr (u # s) k = (u # s, k)" for k
    by (simp add: utf8_size_of_utf16_char_ptr_def lone_low_surrogate [OF assms])
  ultimately have "ptr_loop utf8_size_of_utf16_char_ptr (u # s) 0 \<noteq> Some y" for y
    using ptr_loop_stuck [of utf8_size_of_utf16_char_ptr "u # s" 0 y] by auto
  then show ?thesis by (cases "utf8_size_of_utf16_string (Some (u # s))") (auto simp: utf8_size_of_utf16_string_def)
qed

text \<open>\<open>utf32_string_from_utf16_string_len\<close> returns at a bad surrogate without storing the terminator.\<close>
lemma utf32_from_utf16_len_unterminated:
  "utf32_string_from_utf16_string_len 8 (Some [0x41, 0xDC00]) 5 = ([0x41], 1)"
  by code_simp

text \<open>A buffer exactly as large as the text without terminator ends in part of a code point.\<close>
lemma utf8_from_utf32_split_char: "utf8_string_from_utf32_string 3 (Some [0x20AC]) = ([0xE2, 0x82, 0], 2)"
  by code_simp

text \<open>An overlong zero is taken for the end of the string with the pointer moved on.\<close>
lemma utf8_overlong_zero: "get_char32_from_utf8_string [0xC0, 0x80, 0x41] = ([0x41], 0)"
  by code_simp

end
