(* ===== verification/X_String.thy ===== *)
theory X_String
  imports Unicode_Text "HOL-Library.Sublist"
begin

text \<open>
  Comparison and search of strings, the function templates at the head of
  \<open>cpp_foundation/XStringAbstract.h\<close> that all string classes use. The templates take two
  character types; the model takes the two readers. \<open>None\<close> is a call that does not return.
\<close>

section \<open>Lower case\<close>

definition asciiToLower :: "char32 \<Rightarrow> char32" where
  "asciiToLower ch = (if ch \<ge> 0x41 \<and> ch \<le> 0x5A then (ch - 0x41) + 0x61 else ch)"

definition fold_case :: "bool \<Rightarrow> char32 \<Rightarrow> char32" where
  "fold_case ignoreCase ch = (if ignoreCase then asciiToLower ch else ch)"

section \<open>Reading UTF-32\<close>

definition get_char32_from_utf32_string :: "char32 list \<Rightarrow> char32 list \<times> char32" where
  "get_char32_from_utf32_string s = (if at s 0 = 0 then (s, 0) else (drop 1 s, at s 0))"

section \<open>Comparison\<close>

partial_function (option) startWith_loop ::
  "('s list \<Rightarrow> 's list \<times> char32) \<Rightarrow> ('o list \<Rightarrow> 'o list \<times> char32) \<Rightarrow> bool \<Rightarrow>
     's list \<Rightarrow> char32 \<Rightarrow> 'o list \<Rightarrow> char32 \<Rightarrow> (char32 \<times> bool) option" where
  "startWith_loop sdec odec ignoreCase src2 src_char32 other2 other_char32 =
     (if other_char32 \<noteq> 0 then
        (if fold_case ignoreCase src_char32 \<noteq> fold_case ignoreCase other_char32 then Some (0, False)
         else (case sdec src2 of (src2', sc) \<Rightarrow> case odec other2 of (other2', oc) \<Rightarrow>
                 startWith_loop sdec odec ignoreCase src2' sc other2' oc))
      else Some (src_char32, True))"

definition XStringAbstract__startWith ::
  "('s list \<Rightarrow> 's list \<times> char32) \<Rightarrow> ('o list \<Rightarrow> 'o list \<times> char32) \<Rightarrow> 's list \<Rightarrow> 'o list \<Rightarrow> bool \<Rightarrow> bool option" where
  "XStringAbstract__startWith sdec odec src other ignoreCase =
     (case odec other of (other2, oc) \<Rightarrow>
        if oc = 0 then Some True
        else (case sdec src of (src2, sc) \<Rightarrow>
          map_option (\<lambda>(c, ok). ok \<and> c \<noteq> 0) (startWith_loop sdec odec ignoreCase src2 sc other2 oc)))"

definition XStringAbstract__startWithOrEqualTo ::
  "('s list \<Rightarrow> 's list \<times> char32) \<Rightarrow> ('o list \<Rightarrow> 'o list \<times> char32) \<Rightarrow> 's list \<Rightarrow> 'o list \<Rightarrow> bool \<Rightarrow> bool option" where
  "XStringAbstract__startWithOrEqualTo sdec odec src other ignoreCase =
     (case odec other of (other2, oc) \<Rightarrow>
        if oc = 0 then Some True
        else (case sdec src of (src2, sc) \<Rightarrow>
          map_option snd (startWith_loop sdec odec ignoreCase src2 sc other2 oc)))"

text \<open>The sign of the comparison of the two code points a loop stopped at.\<close>

definition order :: "char32 \<times> char32 \<Rightarrow> int" where
  "order p = (case p of (src_char32, other_char32) \<Rightarrow>
     if src_char32 = other_char32 then 0 else if src_char32 > other_char32 then 1 else - 1)"

partial_function (option) compare_loop ::
  "('s list \<Rightarrow> 's list \<times> char32) \<Rightarrow> ('o list \<Rightarrow> 'o list \<times> char32) \<Rightarrow> bool \<Rightarrow>
     's list \<Rightarrow> char32 \<Rightarrow> 'o list \<Rightarrow> char32 \<Rightarrow> (char32 \<times> char32) option" where
  "compare_loop sdec odec ignoreCase src2 src_char32 other2 other_char32 =
     (if src_char32 \<noteq> 0 then
        (let sc = fold_case ignoreCase src_char32; oc = fold_case ignoreCase other_char32 in
         if sc \<noteq> oc then Some (sc, oc)
         else (case sdec src2 of (src2', sc') \<Rightarrow> case odec other2 of (other2', oc') \<Rightarrow>
                 compare_loop sdec odec ignoreCase src2' sc' other2' oc'))
      else Some (src_char32, other_char32))"

definition XStringAbstract__compare ::
  "('s :: zero list \<Rightarrow> 's list \<times> char32) \<Rightarrow> ('o :: zero list \<Rightarrow> 'o list \<times> char32) \<Rightarrow>
     's list option \<Rightarrow> 'o list option \<Rightarrow> bool \<Rightarrow> int option" where
  "XStringAbstract__compare sdec odec src other ignoreCase =
     (let empty_s = (case src of None \<Rightarrow> True | Some s \<Rightarrow> at s 0 = 0);
          empty_o = (case other of None \<Rightarrow> True | Some s \<Rightarrow> at s 0 = 0) in
      if empty_s then Some (if empty_o then 0 else - 1)
      else if empty_o then Some 1
      else (case sdec (the src) of (src2, sc) \<Rightarrow> case odec (the other) of (other2, oc) \<Rightarrow>
        map_option order (compare_loop sdec odec ignoreCase src2 sc other2 oc)))"

text \<open>
  In \<open>XStringAbstract__ncompare\<close> the loop ends before the characters at position \<open>n\<close> are
  changed to lower case. The argument \<open>k\<close> is \<open>n - nb\<close>.
\<close>

fun ncompare_loop ::
  "('s list \<Rightarrow> 's list \<times> char32) \<Rightarrow> ('o list \<Rightarrow> 'o list \<times> char32) \<Rightarrow> bool \<Rightarrow> nat \<Rightarrow>
     's list \<Rightarrow> char32 \<Rightarrow> 'o list \<Rightarrow> char32 \<Rightarrow> char32 \<times> char32" where
  "ncompare_loop sdec odec ignoreCase 0 src2 src_char32 other2 other_char32 = (src_char32, other_char32)"
| "ncompare_loop sdec odec ignoreCase (Suc k) src2 src_char32 other2 other_char32 =
     (if src_char32 \<noteq> 0 then
        (let sc = fold_case ignoreCase src_char32; oc = fold_case ignoreCase other_char32 in
         if sc \<noteq> oc then (sc, oc)
         else (case sdec src2 of (src2', sc') \<Rightarrow> case odec other2 of (other2', oc') \<Rightarrow>
                 ncompare_loop sdec odec ignoreCase k src2' sc' other2' oc'))
      else (src_char32, other_char32))"

definition XStringAbstract__ncompare ::
  "('s list \<Rightarrow> 's list \<times> char32) \<Rightarrow> ('o list \<Rightarrow> 'o list \<times> char32) \<Rightarrow> 's list \<Rightarrow> 'o list \<Rightarrow> nat \<Rightarrow> bool \<Rightarrow> int" where
  "XStringAbstract__ncompare sdec odec src other n ignoreCase =
     (if n = 0 then 0
      else (case sdec src of (src2, sc) \<Rightarrow> case odec other of (other2, oc) \<Rightarrow>
        order (ncompare_loop sdec odec ignoreCase (n - 1) src2 sc other2 oc)))"

section \<open>Search\<close>

partial_function (option) match_loop ::
  "('s list \<Rightarrow> 's list \<times> char32) \<Rightarrow> ('o list \<Rightarrow> 'o list \<times> char32) \<Rightarrow> bool \<Rightarrow> 's list \<Rightarrow> 'o list \<Rightarrow> bool option" where
  "match_loop sdec odec toLower s2 other2 =
     (case sdec s2 of (s2', sc0) \<Rightarrow> case odec other2 of (other2', oc0) \<Rightarrow>
        let sc = fold_case toLower sc0; oc = fold_case toLower oc0 in
        if sc \<noteq> 0 \<and> oc \<noteq> 0 \<and> sc = oc then match_loop sdec odec toLower s2' other2' else Some (oc = 0))"

text \<open>
  The first \<open>XStringAbstract__indexOf\<close> moves the caller's pointer: the result holds the index,
  \<open>None\<close> for \<open>MAX_XSIZE\<close>, and the new pointer.
\<close>

partial_function (option) indexOf_loop ::
  "('s list \<Rightarrow> 's list \<times> char32) \<Rightarrow> ('o list \<Rightarrow> 'o list \<times> char32) \<Rightarrow> bool \<Rightarrow> 'o list \<Rightarrow> nat \<Rightarrow> 's list \<Rightarrow> nat \<Rightarrow>
     (nat option \<times> 's list) option" where
  "indexOf_loop sdec odec toLower other offsetRet s Idx =
     (case match_loop sdec odec toLower s other of
        None \<Rightarrow> None
      | Some found \<Rightarrow>
          if found then Some (Some (Idx + offsetRet), s)
          else (case sdec s of (s', sc) \<Rightarrow>
            if sc \<noteq> 0 then indexOf_loop sdec odec toLower other offsetRet s' (Idx + 1) else Some (None, s')))"

fun skip_chars :: "('s list \<Rightarrow> 's list \<times> char32) \<Rightarrow> nat \<Rightarrow> 's list \<Rightarrow> char32 \<Rightarrow> 's list \<times> char32" where
  "skip_chars sdec 0 s c = (s, c)"
| "skip_chars sdec (Suc k) s c = (case sdec s of (s', c') \<Rightarrow> skip_chars sdec k s' c')"

definition XStringAbstract__indexOf ::
  "('s list \<Rightarrow> 's list \<times> char32) \<Rightarrow> ('o :: zero list \<Rightarrow> 'o list \<times> char32) \<Rightarrow> 's list \<Rightarrow> nat \<Rightarrow> 'o list \<Rightarrow> bool \<Rightarrow>
     nat option option" where
  "XStringAbstract__indexOf sdec odec s Pos other toLower =
     (if at other 0 = 0 then Some (Some Pos)
      else (case skip_chars sdec Pos s 1 of (s', c) \<Rightarrow>
        if c = 0 then Some None
        else map_option fst (indexOf_loop sdec odec toLower other Pos s' 0)))"

text \<open>
  \<open>rindexOf_loop\<close> is the loop of \<open>XStringAbstract__rindexOf\<close>: \<open>index\<close> is \<open>None\<close> for \<open>MAX_XSIZE\<close>,
  which is greater than every \<open>Pos\<close> the routine may be called with.
\<close>

partial_function (option) rindexOf_loop ::
  "('s list \<Rightarrow> 's list \<times> char32) \<Rightarrow> ('o list \<Rightarrow> 'o list \<times> char32) \<Rightarrow> bool \<Rightarrow> 'o list \<Rightarrow> nat \<Rightarrow> 's list \<Rightarrow> char32 \<Rightarrow>
     nat option \<Rightarrow> nat option \<Rightarrow> (nat option \<times> nat option) option" where
  "rindexOf_loop sdec odec toLower other Pos s char32 index prev_index =
     (case index of
        None \<Rightarrow> Some (index, prev_index)
      | Some i \<Rightarrow>
          if char32 \<noteq> 0 \<and> i < Pos then
            (case indexOf_loop sdec odec toLower other (i + 1) s 0 of
               None \<Rightarrow> None
             | Some (index', s') \<Rightarrow> (case sdec s' of (s'', c) \<Rightarrow>
                 rindexOf_loop sdec odec toLower other Pos s'' c index' index))
          else Some (index, prev_index))"

definition XStringAbstract__rindexOf ::
  "('s list \<Rightarrow> 's list \<times> char32) \<Rightarrow> ('o :: zero list \<Rightarrow> 'o list \<times> char32) \<Rightarrow> ('s list option \<Rightarrow> nat option) \<Rightarrow>
     's list \<Rightarrow> nat \<Rightarrow> 'o list \<Rightarrow> bool \<Rightarrow> nat option option" where
  "XStringAbstract__rindexOf sdec odec length_of_utf_string s Pos other toLower =
     (if at other 0 = 0 then map_option (\<lambda>n. Some (if Pos > n then n else Pos)) (length_of_utf_string (Some s))
      else (case indexOf_loop sdec odec toLower other 0 s 0 of
        None \<Rightarrow> None
      | Some (index, s') \<Rightarrow> (case sdec s' of (s'', c) \<Rightarrow>
          (case rindexOf_loop sdec odec toLower other Pos s'' c index index of
             None \<Rightarrow> None
           | Some (index, prev_index) \<Rightarrow>
               Some (if index = Some Pos then index
                     else case prev_index of Some i \<Rightarrow> if i \<le> Pos then Some i else None | None \<Rightarrow> None)))))"

declare startWith_loop.simps [code] compare_loop.simps [code] match_loop.simps [code] indexOf_loop.simps [code]
  rindexOf_loop.simps [code]

section \<open>Specification on text\<close>

lemma order_pair [simp]: "order (a, b) = (if a = b then 0 else if a > b then 1 else - 1)"
  by (simp add: order_def)

fun text_compare :: "bool \<Rightarrow> char32 list \<Rightarrow> char32 list \<Rightarrow> int" where
  "text_compare ic [] [] = 0"
| "text_compare ic [] (d # ds) = - 1"
| "text_compare ic (c # cs) [] = 1"
| "text_compare ic (c # cs) (d # ds) =
     (if fold_case ic c = fold_case ic d then text_compare ic cs ds
      else if fold_case ic c > fold_case ic d then 1 else - 1)"

lemma text_compare_equal: "text_compare ic cs ds = 0 \<longleftrightarrow> map (fold_case ic) cs = map (fold_case ic) ds"
  by (induction ic cs ds rule: text_compare.induct) auto

lemma text_compare_less:
  "text_compare ic cs ds < 0 \<longleftrightarrow> (map (fold_case ic) cs, map (fold_case ic) ds) \<in> lexord {(a, b). a < b}"
  by (induction ic cs ds rule: text_compare.induct) auto

lemma text_compare_sign: "text_compare ic cs ds \<in> {- 1, 0, 1}"
  by (induction ic cs ds rule: text_compare.induct) auto

lemma fold_case_0 [simp]: "fold_case ic c = 0 \<longleftrightarrow> c = 0"
proof -
  have "asciiToLower c \<noteq> 0" if "c \<noteq> 0"
    using that by (auto simp: asciiToLower_def word_le_nat_alt unat_word_ariths unat_sub_if' unat_eq_0 [symmetric])
  moreover have "asciiToLower 0 = 0" by (simp add: asciiToLower_def)
  ultimately show ?thesis by (auto simp: fold_case_def)
qed

lemma fold_case_of_0 [simp]: "fold_case ic 0 = 0"
  by simp

definition occurs_at :: "bool \<Rightarrow> char32 list \<Rightarrow> char32 list \<Rightarrow> nat \<Rightarrow> bool" where
  "occurs_at ic ds cs i \<longleftrightarrow> i \<le> length cs \<and> prefix (map (fold_case ic) ds) (map (fold_case ic) (drop i cs))"

lemma occurs_at_inside: "occurs_at ic ds cs i \<Longrightarrow> ds \<noteq> [] \<Longrightarrow> i < length cs"
  by (auto simp: occurs_at_def prefix_def le_less)

lemma occurs_at_drop: "n \<le> length cs \<Longrightarrow> occurs_at ic ds (drop n cs) k \<longleftrightarrow> occurs_at ic ds cs (n + k)"
  by (auto simp: occurs_at_def add.commute)

definition last_occurrence :: "bool \<Rightarrow> char32 list \<Rightarrow> char32 list \<Rightarrow> nat \<Rightarrow> nat option \<Rightarrow> bool" where
  "last_occurrence ic ds cs Pos r \<longleftrightarrow>
     (case r of None \<Rightarrow> \<forall>i\<le>Pos. \<not> occurs_at ic ds cs i
      | Some i \<Rightarrow> i \<le> Pos \<and> occurs_at ic ds cs i \<and> (\<forall>j. i < j \<and> j \<le> Pos \<longrightarrow> \<not> occurs_at ic ds cs j))"

fun text_index :: "bool \<Rightarrow> char32 list \<Rightarrow> char32 list \<Rightarrow> nat option" where
  "text_index ic ds [] = (if ds = [] then Some 0 else None)"
| "text_index ic ds (c # cs) =
     (if prefix (map (fold_case ic) ds) (map (fold_case ic) (c # cs)) then Some 0
      else map_option Suc (text_index ic ds cs))"

lemma text_index_first:
  "text_index ic ds cs = Some i \<Longrightarrow> occurs_at ic ds cs i \<and> (\<forall>j<i. \<not> occurs_at ic ds cs j)"
proof (induction cs arbitrary: i)
  case (Cons c cs)
  show ?case
  proof (cases "prefix (map (fold_case ic) ds) (map (fold_case ic) (c # cs))")
    case True
    then show ?thesis using Cons.prems by (simp add: occurs_at_def)
  next
    case False
    then obtain k where k: "i = Suc k" "text_index ic ds cs = Some k" using Cons.prems by auto
    have "occurs_at ic ds (c # cs) (Suc j) = occurs_at ic ds cs j" for j by (simp add: occurs_at_def)
    moreover have "\<not> occurs_at ic ds (c # cs) 0" using False by (simp add: occurs_at_def)
    ultimately show ?thesis using Cons.IH [OF k(2)] k(1) by (auto simp: less_Suc_eq_0_disj)
  qed
qed (auto simp: occurs_at_def split: if_splits)

lemma text_index_none: "text_index ic ds cs = None \<Longrightarrow> \<not> occurs_at ic ds cs i"
proof (induction cs arbitrary: i)
  case (Cons c cs)
  then show ?case by (cases i) (auto simp: occurs_at_def split: if_splits)
qed (auto simp: occurs_at_def split: if_splits)

section \<open>The loops on text\<close>

locale two_readers = S: unit_reader sdec senc valid + O: unit_reader odec oenc valid
  for sdec :: "'s :: zero list \<Rightarrow> 's list \<times> char32" and senc
    and odec :: "'o :: zero list \<Rightarrow> 'o list \<times> char32" and oenc and valid
begin

lemma compare_loop_text:
  "list_all valid cs \<Longrightarrow> list_all valid ds \<Longrightarrow>
   (case sdec (units senc cs) of (s, c) \<Rightarrow> case odec (units oenc ds) of (t, d) \<Rightarrow>
      map_option order (compare_loop sdec odec ic s c t d)) = Some (text_compare ic cs ds)"
proof (induction cs arbitrary: ds)
  case Nil
  then show ?case
    by (cases ds) (auto simp: S.dec_nil O.dec_nil O.dec_enc compare_loop.simps dest: O.valid_nz)
next
  case (Cons c cs)
  note nz = S.valid_nz [of c]
  show ?case
  proof (cases ds)
    case Nil
    then show ?thesis
      using Cons.prems nz by (auto simp: S.dec_enc O.dec_nil compare_loop.simps [of _ _ _ _ c] word_gt_0 Let_def)
  next
    case (Cons d ds')
    then show ?thesis
      using Cons.prems \<open>list_all valid (c # cs)\<close> nz Cons.IH [of ds']
      by (cases "sdec (units senc cs)"; cases "odec (units oenc ds')")
        (simp add: S.dec_enc O.dec_enc compare_loop.simps [of _ _ _ _ c] Let_def)
  qed
qed

lemma startWith_loop_text:
  "list_all valid cs \<Longrightarrow> list_all valid ds \<Longrightarrow>
   \<exists>e. (case sdec (units senc cs) of (s, c) \<Rightarrow> case odec (units oenc ds) of (t, d) \<Rightarrow>
      startWith_loop sdec odec ic s c t d) = Some (e, prefix (map (fold_case ic) ds) (map (fold_case ic) cs)) \<and>
      (prefix (map (fold_case ic) ds) (map (fold_case ic) cs) \<longrightarrow> (e = 0 \<longleftrightarrow> length cs = length ds))"
proof (induction ds arbitrary: cs)
  case Nil
  then show ?case
    by (cases cs) (auto simp: S.dec_nil O.dec_nil S.dec_enc startWith_loop.simps dest: S.valid_nz)
next
  case (Cons d ds)
  note nz = O.valid_nz [of d]
  show ?case
  proof (cases cs)
    case Nil
    then show ?thesis
      using Cons.prems nz by (auto simp: S.dec_nil O.dec_enc startWith_loop.simps [of _ _ _ _ _ _ d])
  next
    case (Cons c cs')
    then show ?thesis
      using Cons.prems \<open>list_all valid (d # ds)\<close> nz Cons.IH [of cs']
      by (cases "sdec (units senc cs')"; cases "odec (units oenc ds)")
        (simp add: S.dec_enc O.dec_enc startWith_loop.simps [of _ _ _ _ _ _ d])
  qed
qed

lemma match_loop_text:
  "list_all valid cs \<Longrightarrow> list_all valid ds \<Longrightarrow>
   match_loop sdec odec ic (units senc cs) (units oenc ds) =
     Some (prefix (map (fold_case ic) ds) (map (fold_case ic) cs))"
proof (induction ds arbitrary: cs)
  case Nil
  then show ?case
    by (cases "sdec (units senc cs)") (simp add: match_loop.simps O.dec_nil Let_def)
next
  case (Cons d ds)
  note nz = O.valid_nz [of d]
  show ?case
  proof (cases cs)
    case Nil
    then show ?thesis
      using Cons.prems nz by (simp add: match_loop.simps S.dec_nil O.dec_enc Let_def)
  next
    case (Cons c cs')
    then show ?thesis
      using Cons.prems \<open>list_all valid (d # ds)\<close> nz Cons.IH [of cs']
      by (subst match_loop.simps) (auto simp: S.dec_enc O.dec_enc Let_def dest: S.valid_nz)
  qed
qed

text \<open>The pointer ends at the occurrence, or at the end of the text when there is none.\<close>

lemma indexOf_loop_text:
  "list_all valid cs \<Longrightarrow> list_all valid ds \<Longrightarrow>
   indexOf_loop sdec odec ic (units oenc ds) k (units senc cs) n =
     Some (case text_index ic ds cs of None \<Rightarrow> (None, []) | Some i \<Rightarrow> (Some (i + n + k), units senc (drop i cs)))"
proof (induction cs arbitrary: n)
  case Nil
  then show ?case
    by (simp add: indexOf_loop.simps match_loop_text [of "[]", simplified] S.dec_nil)
next
  case (Cons c cs)
  show ?case
    using Cons.prems Cons.IH [of "Suc n"] match_loop_text [of "c # cs" ds ic] S.valid_nz [of c]
    by (subst indexOf_loop.simps) (simp add: S.dec_enc split: option.split)
qed

text \<open>
  The last occurrence up to \<open>Pos\<close>. In the loop \<open>index\<close> is an occurrence, and \<open>prev_index\<close> the
  same one when it is the first, otherwise the one before it.
\<close>

lemma rindexOf_loop_text:
  assumes cs: "list_all valid cs" and ds: "list_all valid ds" "ds \<noteq> []"
    and i: "occurs_at ic ds cs i"
    and h: "(h = i \<and> (\<forall>j<i. \<not> occurs_at ic ds cs j)) \<or>
      (occurs_at ic ds cs h \<and> h < Pos \<and> h < i \<and> (\<forall>j. h < j \<and> j < i \<longrightarrow> \<not> occurs_at ic ds cs j))"
    and c: "c \<noteq> 0"
  shows "\<exists>index prev. rindexOf_loop sdec odec ic (units oenc ds) Pos (units senc (drop (Suc i) cs)) c (Some i) (Some h) = Some (index, prev) \<and>
    last_occurrence ic ds cs Pos (if index = Some Pos then index else case prev of Some i \<Rightarrow> if i \<le> Pos then Some i else None | None \<Rightarrow> None)"
  using i h c
proof (induction "length cs - i" arbitrary: i h c rule: less_induct)
  case less
  have il: "i < length cs" using less.prems(1) ds(2) by (rule occurs_at_inside)
  show ?case
  proof (cases "i < Pos")
    case False
    then show ?thesis
      using less.prems by (subst rindexOf_loop.simps) (auto simp: last_occurrence_def)
  next
    case True
    have dcs: "list_all valid (drop (Suc i) cs)" using cs by (auto simp: list_all_iff dest: in_set_dropD)
    note ix = indexOf_loop_text [OF dcs ds(1), of ic "Suc i" 0]
    show ?thesis
    proof (cases "text_index ic ds (drop (Suc i) cs)")
      case None
      then have "\<not> occurs_at ic ds cs j" if "i < j" for j
        using text_index_none [OF None, of "j - Suc i"] that il by (simp add: occurs_at_drop)
      then show ?thesis
        using True less.prems None ix
        by (subst rindexOf_loop.simps) (auto simp: S.dec_nil rindexOf_loop.simps [of _ _ _ _ _ _ _ None] last_occurrence_def)
    next
      case (Some k)
      define i' where "i' = Suc i + k"
      note t = text_index_first [OF Some]
      have o: "occurs_at ic ds cs i'" using t il by (simp add: occurs_at_drop i'_def)
      then have i'l: "i' < length cs" using ds(2) by (rule occurs_at_inside)
      have between: "\<not> occurs_at ic ds cs j" if "i < j" "j < i'" for j
        using t that il occurs_at_drop [of "Suc i" cs ic ds "j - Suc i"] by (auto simp: i'_def)
      have dec: "sdec (units senc (drop i' cs)) = (units senc (drop (Suc i') cs), cs ! i')"
        using i'l cs by (simp add: Cons_nth_drop_Suc [symmetric] S.dec_enc list_all_length)
      have nz: "cs ! i' \<noteq> 0" using i'l cs by (auto simp: list_all_length dest: S.valid_nz)
      have "\<exists>index prev. rindexOf_loop sdec odec ic (units oenc ds) Pos (units senc (drop (Suc i') cs)) (cs ! i') (Some i') (Some i) = Some (index, prev) \<and>
        last_occurrence ic ds cs Pos (if index = Some Pos then index else case prev of Some i \<Rightarrow> if i \<le> Pos then Some i else None | None \<Rightarrow> None)"
        using less.prems o nz between True i'l by (intro less.hyps) (auto simp: i'_def)
      moreover have "indexOf_loop sdec odec ic (units oenc ds) (Suc i) (units senc (drop (Suc i) cs)) 0 = Some (Some i', units senc (drop i' cs))"
        using ix Some by (simp add: i'_def add.commute)
      ultimately show ?thesis
        using True less.prems dec by (subst rindexOf_loop.simps) simp
    qed
  qed
qed

lemma rindexOf_text:
  assumes cs: "list_all valid cs" and ds: "list_all valid ds" "ds \<noteq> []"
  shows "\<exists>r. XStringAbstract__rindexOf sdec odec length_of_utf_string (units senc cs) Pos (units oenc ds) ic = Some r \<and>
    last_occurrence ic ds cs Pos r"
proof -
  have ne: "at (units oenc ds) 0 \<noteq> 0" using ds by (cases ds) (auto simp: O.enc_start)
  note ix = indexOf_loop_text [OF cs ds(1), of ic 0 0]
  show ?thesis
  proof (cases "text_index ic ds cs")
    case None
    then show ?thesis
      using ne ix text_index_none [OF None]
      by (simp add: XStringAbstract__rindexOf_def S.dec_nil rindexOf_loop.simps [of _ _ _ _ _ _ _ None] last_occurrence_def)
  next
    case (Some i)
    note t = text_index_first [OF Some]
    then have il: "i < length cs" using occurs_at_inside ds(2) by blast
    have nz: "cs ! i \<noteq> 0" using il cs by (auto simp: list_all_length dest: S.valid_nz)
    have "sdec (units senc (drop i cs)) = (units senc (drop (Suc i) cs), cs ! i)"
      using il cs by (simp add: Cons_nth_drop_Suc [symmetric] S.dec_enc list_all_length)
    then show ?thesis
      using rindexOf_loop_text [OF cs ds, of ic i i Pos "cs ! i"] t nz ne ix Some
      by (auto simp: XStringAbstract__rindexOf_def)
  qed
qed

lemma skip_chars_text:
  "list_all valid cs \<Longrightarrow> k \<le> length cs \<Longrightarrow> c \<noteq> 0 \<Longrightarrow>
   \<exists>c'. skip_chars sdec k (units senc cs) c = (units senc (drop k cs), c') \<and> c' \<noteq> 0"
proof (induction k arbitrary: cs c)
  case (Suc k)
  then obtain d ds where "cs = d # ds" by (cases cs) auto
  then show ?case using Suc.IH [of ds d] Suc.prems by (simp add: S.dec_enc S.valid_nz)
qed simp

lemma skip_chars_end: "length cs < k \<Longrightarrow> list_all valid cs \<Longrightarrow> skip_chars sdec k (units senc cs) c = ([], 0)"
proof (induction k arbitrary: cs c)
  case (Suc k)
  have stuck: "skip_chars sdec k [] 0 = ([], 0)" for k by (induction k) (simp_all add: S.dec_nil)
  show ?case using Suc by (cases cs) (simp_all add: S.dec_nil S.dec_enc stuck)
qed simp

lemma ncompare_loop_text:
  "list_all valid cs \<Longrightarrow> list_all valid ds \<Longrightarrow> n < length cs \<Longrightarrow> n < length ds \<Longrightarrow>
   order (case sdec (units senc cs) of (s, c) \<Rightarrow> case odec (units oenc ds) of (t, d) \<Rightarrow>
     ncompare_loop sdec odec ic n s c t d) = 0 \<longleftrightarrow>
   take n (map (fold_case ic) cs) = take n (map (fold_case ic) ds) \<and> cs ! n = ds ! n"
proof (induction n arbitrary: cs ds)
  case 0
  then show ?case by (cases cs; cases ds) (auto simp: S.dec_enc O.dec_enc)
next
  case (Suc n)
  obtain c cs' d ds' where e: "cs = c # cs'" "ds = d # ds'" using Suc.prems by (cases cs; cases ds) auto
  show ?case
    using Suc.prems Suc.IH [of cs' ds'] S.valid_nz [of c] e
    by (cases "sdec (units senc cs')"; cases "odec (units oenc ds')")
      (auto simp: S.dec_enc O.dec_enc Let_def split: if_splits)
qed

end

interpretation r8_8: two_readers get_char32_from_utf8_string utf8 get_char32_from_utf8_string utf8 scalar ..

text \<open>The overload of \<open>get_char32_from_string\<close> for \<open>char32_t\<close> strings.\<close>

interpretation u32: unit_reader get_char32_from_utf32_string utf32 scalar
  by unfold_locales (auto simp: get_char32_from_utf32_string_def utf32_def get_utf32_from_char32_def scalar_bounds at_def split: if_splits)

interpretation r8_32: two_readers get_char32_from_utf8_string utf8 get_char32_from_utf32_string utf32 scalar ..

interpretation r8_16: two_readers get_char32_from_utf8_string utf8 get_char32_from_utf16_string utf16 scalar ..

interpretation r16_8: two_readers get_char32_from_utf16_string utf16 get_char32_from_utf8_string utf8 scalar ..

interpretation r16_16: two_readers get_char32_from_utf16_string utf16 get_char32_from_utf16_string utf16 scalar ..


section \<open>Properties\<close>

text \<open>
  C23: \<open>XStringAbstract__compare\<close> on the units of two Unicode texts, in UTF-8 or UTF-16 each,
  always returns, and returns -1, 0 or 1 as the first text is lexicographically smaller than,
  equal to or greater than the second by code points, after mapping \<open>A-Z\<close> to lower case when
  \<open>ignoreCase\<close> is set.
\<close>
theorem compare_correct:
  assumes "list_all scalar cs" and "list_all scalar ds"
  shows "\<exists>r \<in> {- 1, 0, 1}.
    XStringAbstract__compare get_char32_from_utf8_string get_char32_from_utf8_string (Some (units utf8 cs)) (Some (units utf8 ds)) ic = Some r \<and>
    XStringAbstract__compare get_char32_from_utf8_string get_char32_from_utf16_string (Some (units utf8 cs)) (Some (units utf16 ds)) ic = Some r \<and>
    XStringAbstract__compare get_char32_from_utf16_string get_char32_from_utf16_string (Some (units utf16 cs)) (Some (units utf16 ds)) ic = Some r \<and>
    (r = 0 \<longleftrightarrow> map (fold_case ic) cs = map (fold_case ic) ds) \<and>
    (r = - 1 \<longleftrightarrow> (map (fold_case ic) cs, map (fold_case ic) ds) \<in> lexord {(a, b). a < b})"
proof (intro bexI conjI)
  let ?f = "map (fold_case ic)"
  let ?r = "text_compare ic cs ds"
  show "?r \<in> {- 1, 0, 1}" by (rule text_compare_sign)
  then show "(?r = - 1) = ((?f cs, ?f ds) \<in> lexord {(a, b). a < b})"
    using text_compare_less [of ic cs ds] by auto
  show "(?r = 0) = (?f cs = ?f ds)" by (simp add: text_compare_equal)
  have e8: "at (units utf8 xs) 0 = 0 \<longleftrightarrow> xs = []" if "list_all scalar xs" for xs
    using that by (cases xs) (auto simp: u8.enc_start)
  have e16: "at (units utf16 xs) 0 = 0 \<longleftrightarrow> xs = []" if "list_all scalar xs" for xs
    using that by (cases xs) (auto simp: u16.enc_start)
  have t: "text_compare ic [] ds = (if ds = [] then 0 else - 1)" "cs \<noteq> [] \<Longrightarrow> text_compare ic cs [] = 1"
    by (cases ds; cases cs; simp)+
  show "XStringAbstract__compare get_char32_from_utf8_string get_char32_from_utf8_string (Some (units utf8 cs)) (Some (units utf8 ds)) ic = Some ?r"
    using r8_8.compare_loop_text [OF assms(1,2), of ic] t
    by (auto simp: XStringAbstract__compare_def Let_def e8 e16 assms)
  show "XStringAbstract__compare get_char32_from_utf8_string get_char32_from_utf16_string (Some (units utf8 cs)) (Some (units utf16 ds)) ic = Some ?r"
    using r8_16.compare_loop_text [OF assms(1,2), of ic] t
    by (auto simp: XStringAbstract__compare_def Let_def e8 e16 assms)
  show "XStringAbstract__compare get_char32_from_utf16_string get_char32_from_utf16_string (Some (units utf16 cs)) (Some (units utf16 ds)) ic = Some ?r"
    using r16_16.compare_loop_text [OF assms(1,2), of ic] t
    by (auto simp: XStringAbstract__compare_def Let_def e8 e16 assms)
qed

theorem compare_correct_witness:
  "XStringAbstract__compare get_char32_from_utf8_string get_char32_from_utf16_string (Some [0x41, 0x62]) (Some [0x61, 0x42]) True = Some 0"
proof -
  have "list_all scalar [0x41, 0x62]" "list_all scalar [0x61, 0x42]"
    "units utf8 [0x41, 0x62] = [0x41, 0x62]" "units utf16 [0x61, 0x42] = [0x61, 0x42]"
    "map (fold_case True) [0x41, 0x62] = map (fold_case True) [0x61, 0x42]"
    by code_simp+
  then show ?thesis using compare_correct [of "[0x41, 0x62]" "[0x61, 0x42]" True] by auto
qed

text \<open>
  C24: \<open>XStringAbstract__startWithOrEqualTo\<close> decides whether the second text is a prefix of
  the first, up to letter case when asked; \<open>XStringAbstract__startWith\<close> is true for the
  empty text and otherwise decides proper prefixes: it is false for equal texts.
\<close>
theorem startWith_correct:
  assumes "list_all scalar cs" and "list_all scalar ds"
  shows "XStringAbstract__startWithOrEqualTo get_char32_from_utf8_string get_char32_from_utf8_string (units utf8 cs) (units utf8 ds) ic =
      Some (prefix (map (fold_case ic) ds) (map (fold_case ic) cs)) \<and>
    XStringAbstract__startWith get_char32_from_utf8_string get_char32_from_utf8_string (units utf8 cs) (units utf8 ds) ic =
      Some (ds = [] \<or> strict_prefix (map (fold_case ic) ds) (map (fold_case ic) cs))"
proof (cases ds)
  case Nil
  then show ?thesis
    by (simp add: XStringAbstract__startWithOrEqualTo_def XStringAbstract__startWith_def decode_nil)
next
  case (Cons d ds')
  let ?f = "map (fold_case ic)"
  have "snd (get_char32_from_utf8_string (units utf8 ds)) \<noteq> 0"
    using Cons assms by (simp add: u8.dec_enc u8.valid_nz)
  moreover obtain e where e: "(case get_char32_from_utf8_string (units utf8 cs) of (s, c) \<Rightarrow>
      case get_char32_from_utf8_string (units utf8 ds) of (t, d) \<Rightarrow>
        startWith_loop get_char32_from_utf8_string get_char32_from_utf8_string ic s c t d) = Some (e, prefix (?f ds) (?f cs))"
    "prefix (?f ds) (?f cs) \<longrightarrow> (e = 0 \<longleftrightarrow> length cs = length ds)"
    using r8_8.startWith_loop_text [OF assms(1,2), of ic] by auto
  moreover have "strict_prefix (?f ds) (?f cs) \<longleftrightarrow> prefix (?f ds) (?f cs) \<and> length cs \<noteq> length ds"
  proof
    assume "strict_prefix (?f ds) (?f cs)"
    then show "prefix (?f ds) (?f cs) \<and> length cs \<noteq> length ds"
      using prefix_length_less [of "?f ds" "?f cs"] by auto
  next
    assume "prefix (?f ds) (?f cs) \<and> length cs \<noteq> length ds"
    then show "strict_prefix (?f ds) (?f cs)" by (auto simp: strict_prefix_def dest: map_eq_imp_length_eq)
  qed
  ultimately show ?thesis
    using Cons
    by (cases "get_char32_from_utf8_string (units utf8 cs)"; cases "get_char32_from_utf8_string (units utf8 ds)")
      (auto simp: XStringAbstract__startWithOrEqualTo_def XStringAbstract__startWith_def)
qed

theorem startWith_correct_witness:
  "XStringAbstract__startWith get_char32_from_utf8_string get_char32_from_utf8_string [0x61, 0x62] [0x61, 0x62] False = Some False"
proof -
  have "list_all scalar [0x61, 0x62]" "units utf8 [0x61, 0x62] = [0x61, 0x62]" by code_simp+
  then show ?thesis using startWith_correct [of "[0x61, 0x62]" "[0x61, 0x62]" False] by simp
qed

text \<open>
  C25: \<open>XStringAbstract__indexOf\<close> returns the first position from \<open>Pos\<close> on at which the second
  text, if not empty, occurs in the first, up to letter case when asked, and \<open>MAX_XSIZE\<close> when
  there is none or \<open>Pos\<close> lies behind the end.
\<close>
theorem indexOf_correct:
  assumes cs: "list_all scalar cs" and ds: "list_all scalar ds" and ne: "ds \<noteq> []"
  shows "XStringAbstract__indexOf get_char32_from_utf8_string get_char32_from_utf8_string (units utf8 cs) Pos (units utf8 ds) ic =
    Some (if Pos \<le> length cs then map_option (\<lambda>i. i + Pos) (text_index ic ds (drop Pos cs)) else None)"
proof -
  have "at (units utf8 ds) 0 \<noteq> 0" using ds ne by (cases ds) (auto simp: u8.enc_start)
  moreover have "list_all scalar (drop Pos cs)" using cs by (auto simp: list_all_iff dest: in_set_dropD)
  ultimately show ?thesis
    using r8_8.skip_chars_text [OF cs, of Pos 1] r8_8.skip_chars_end [of cs Pos 1]
      r8_8.indexOf_loop_text [OF _ ds, of "drop Pos cs" ic Pos 0] cs
    by (cases "Pos \<le> length cs") (auto simp: XStringAbstract__indexOf_def not_le split: option.splits)
qed

theorem indexOf_correct_witness:
  "XStringAbstract__indexOf get_char32_from_utf8_string get_char32_from_utf8_string [0x61, 0x62, 0x61, 0x62] 1 [0x41, 0x42] True = Some (Some 2)"
proof -
  have "list_all scalar [0x61, 0x62, 0x61, 0x62]" "list_all scalar [0x41, 0x42]"
    "units utf8 [0x61, 0x62, 0x61, 0x62] = [0x61, 0x62, 0x61, 0x62]" "units utf8 [0x41, 0x42] = [0x41, 0x42]"
    "text_index True [0x41, 0x42] (drop 1 [0x61, 0x62, 0x61, 0x62]) = Some 1"
    by code_simp+
  then show ?thesis using indexOf_correct [of "[0x61, 0x62, 0x61, 0x62]" "[0x41, 0x42]" 1 True] by simp
qed

text \<open>
  C26: \<open>XStringAbstract__rindexOf\<close> always returns, for a search text that is not empty, and
  returns the last position up to \<open>Pos\<close> at which it occurs, up to letter case when asked, and
  \<open>MAX_XSIZE\<close> when there is none.
\<close>
theorem rindexOf_correct:
  assumes cs: "list_all scalar cs" and ds: "list_all scalar ds" "ds \<noteq> []"
  shows "\<exists>r. XStringAbstract__rindexOf get_char32_from_utf8_string get_char32_from_utf8_string length_of_utf8_string
      (units utf8 cs) Pos (units utf8 ds) ic = Some r \<and> last_occurrence ic ds cs Pos r"
  using cs ds by (rule r8_8.rindexOf_text)

theorem rindexOf_correct_witness:
  "\<exists>r. XStringAbstract__rindexOf get_char32_from_utf8_string get_char32_from_utf8_string length_of_utf8_string
      [0x61, 0x62, 0x61, 0x62, 0x61] 3 [0x61] False = Some r \<and> last_occurrence False [0x61] [0x61, 0x62, 0x61, 0x62, 0x61] 3 r"
proof -
  have "list_all scalar [0x61, 0x62, 0x61, 0x62, 0x61]" "list_all scalar [0x61]"
    "units utf8 [0x61, 0x62, 0x61, 0x62, 0x61] = [0x61, 0x62, 0x61, 0x62, 0x61]" "units utf8 [0x61] = [0x61]"
    by code_simp+
  then show ?thesis using rindexOf_correct [of "[0x61, 0x62, 0x61, 0x62, 0x61]" "[0x61]" 3 False] by (simp del: units_simps)
qed

text \<open>
  C27: \<open>XStringAbstract__ncompare\<close> on two texts of at least \<open>n\<close> code points returns 0 exactly
  when the first \<open>n - 1\<close> code points agree, up to letter case when asked, and the \<open>n\<close>-th ones
  are the same: the last character is compared case sensitively even with \<open>ignoreCase\<close>.
\<close>
theorem ncompare_zero:
  assumes "list_all scalar cs" "list_all scalar ds" and "0 < n" "n \<le> length cs" "n \<le> length ds"
  shows "XStringAbstract__ncompare get_char32_from_utf8_string get_char32_from_utf8_string (units utf8 cs) (units utf8 ds) n ic = 0 \<longleftrightarrow>
    map (fold_case ic) (take (n - 1) cs) = map (fold_case ic) (take (n - 1) ds) \<and> cs ! (n - 1) = ds ! (n - 1)"
  using r8_8.ncompare_loop_text [OF assms(1,2), of "n - 1" ic] assms(3,4,5)
  by (cases "get_char32_from_utf8_string (units utf8 cs)"; cases "get_char32_from_utf8_string (units utf8 ds)")
    (auto simp: XStringAbstract__ncompare_def take_map)

theorem ncompare_zero_witness:
  "XStringAbstract__ncompare get_char32_from_utf8_string get_char32_from_utf8_string [0x61, 0x62] [0x41, 0x42] 2 True \<noteq> 0"
proof -
  have "list_all scalar [0x61, 0x62]" "list_all scalar [0x41, 0x42]"
    "units utf8 [0x61, 0x62] = [0x61, 0x62]" "units utf8 [0x41, 0x42] = [0x41, 0x42]"
    by code_simp+
  then show ?thesis using ncompare_zero [of "[0x61, 0x62]" "[0x41, 0x42]" 2 True] by simp
qed

end
