(* ===== verification/X_String8.thy ===== *)
theory X_String8
  imports X_String
begin

text \<open>
  The string class \<open>XString8\<close>: the class templates \<open>__String\<close> and \<open>XStringAbstract\<close> of
  \<open>cpp_foundation/XStringAbstract.h\<close> for \<open>T = char\<close>, with \<open>char*\<close> and \<open>char32_t\<close> arguments and
  without the optional caching of the size. The state of an object is the memory
  \<open>__m_data\<close> points to and \<open>m_allocatedSize\<close>; an allocated size of 0 means that the data is a
  literal or the static \<open>nullChar\<close>, which must not be written. \<open>None\<close> is a fault of the C code:
  an access outside the memory, a store into a literal, or a use of a null pointer after a
  failed allocation; for the loops it also is a call that does not return. A C string that is
  passed as an argument is the list of the bytes before its terminator.

  \<open>pool\<close> is the firmware's allocator: the contents of a new block of the given size.
\<close>

section \<open>The object\<close>

record xstring8 =
  m_data :: "byte list"
  m_allocatedSize :: nat

type_synonym pool = "nat \<Rightarrow> byte list option"

definition XStringGrowByDefault :: nat where
  "XStringGrowByDefault = 16"

definition c_string :: "byte list \<Rightarrow> byte list" where
  "c_string d = takeWhile (\<lambda>b. b \<noteq> 0) d"

text \<open>\<open>data()\<close>, \<open>size()\<close>, \<open>length()\<close> and \<open>isEmpty()\<close>\<close>

definition data :: "xstring8 \<Rightarrow> byte list" where
  "data s = c_string (m_data s)"

definition string_size :: "xstring8 \<Rightarrow> nat" where
  "string_size s = utf8_size_of_utf8_string (Some (data s))"

definition string_length :: "xstring8 \<Rightarrow> nat option" where
  "string_length s = length_of_utf8_string (Some (data s))"

definition isEmpty :: "xstring8 \<Rightarrow> bool" where
  "isEmpty s \<longleftrightarrow> at (data s) 0 = 0"

text \<open>The default constructor, and the one from a literal.\<close>

definition new_xstring8 :: xstring8 where
  "new_xstring8 = \<lparr>m_data = [0], m_allocatedSize = 0\<rparr>"

definition xstring8_of_literal :: "byte list \<Rightarrow> xstring8" where
  "xstring8_of_literal l = \<lparr>m_data = l @ [0], m_allocatedSize = 0\<rparr>"

section \<open>Memory\<close>

text \<open>Stores \<open>ws\<close> from \<open>__m_data + off\<close> on; \<open>memmove\<close> inside the data.\<close>

definition store :: "nat \<Rightarrow> byte list \<Rightarrow> xstring8 \<Rightarrow> xstring8 option" where
  "store off ws s =
     (if m_allocatedSize s > 0 \<and> off + length ws \<le> length (m_data s)
      then Some (s\<lparr>m_data := take off (m_data s) @ ws @ drop (off + length ws) (m_data s)\<rparr>) else None)"

definition memmove :: "nat \<Rightarrow> nat \<Rightarrow> nat \<Rightarrow> xstring8 \<Rightarrow> xstring8 option" where
  "memmove dst src n s =
     (if src + n \<le> length (m_data s) then store dst (take n (drop src (m_data s))) s else None)"

definition Alloc :: "pool \<Rightarrow> nat \<Rightarrow> xstring8 \<Rightarrow> xstring8 option" where
  "Alloc pool nNewAllocatedSize s =
     (case pool nNewAllocatedSize of
        None \<Rightarrow> None
      | Some b \<Rightarrow>
          let old = (if m_allocatedSize s = 0 then [] else take (min (m_allocatedSize s) nNewAllocatedSize) (m_data s))
          in Some \<lparr>m_data = old @ drop (length old) b, m_allocatedSize = nNewAllocatedSize\<rparr>)"

definition CheckSize :: "pool \<Rightarrow> nat \<Rightarrow> nat \<Rightarrow> xstring8 \<Rightarrow> (bool \<times> xstring8) option" where
  "CheckSize pool nNewAllocatedSize nGrowBy s =
     (if m_allocatedSize s < nNewAllocatedSize + 1 then
        (let n = nNewAllocatedSize + nGrowBy in
         if m_allocatedSize s = 0 then
           do {
             let n = (if n < string_size s then string_size s else n);
             s' \<leftarrow> Alloc pool (n + 1) s;
             (ws, _) \<leftarrow> utf8_string_from_utf8_string (m_allocatedSize s') (Some (data s));
             s'' \<leftarrow> store 0 ws s';
             Some (True, s'')
           }
         else map_option (\<lambda>s'. (True, s')) (Alloc pool (n + 1) s))
      else Some (False, s))"

text \<open>The calls that ignore the result of \<open>CheckSize\<close>.\<close>

definition ensure :: "pool \<Rightarrow> nat \<Rightarrow> nat \<Rightarrow> xstring8 \<Rightarrow> xstring8 option" where
  "ensure pool n nGrowBy s = map_option snd (CheckSize pool n nGrowBy s)"

definition setEmpty :: "xstring8 \<Rightarrow> xstring8 option" where
  "setEmpty s = (if m_allocatedSize s \<le> 0 then Some (s\<lparr>m_data := [0]\<rparr>) else store 0 [0] s)"

section \<open>Copying and appending\<close>

text \<open>\<open>other && *other\<close>\<close>

definition given :: "byte list option \<Rightarrow> bool" where
  "given other \<longleftrightarrow> (case other of None \<Rightarrow> False | Some t \<Rightarrow> at t 0 \<noteq> 0)"

definition strcpy :: "pool \<Rightarrow> byte list option \<Rightarrow> xstring8 \<Rightarrow> xstring8 option" where
  "strcpy pool other s =
     (if given other then do {
        let newSize = utf8_size_of_utf8_string other;
        s \<leftarrow> ensure pool newSize 0 s;
        (ws, _) \<leftarrow> utf8_string_from_utf8_string (m_allocatedSize s) other;
        s \<leftarrow> store 0 ws s;
        store newSize [0] s
      } else setEmpty s)"

definition strncpy :: "pool \<Rightarrow> byte list option \<Rightarrow> nat \<Rightarrow> xstring8 \<Rightarrow> xstring8 option" where
  "strncpy pool other other_len s =
     (if given other \<and> other_len > 0 then do {
        let newSize = utf8_size_of_utf8_string_len other other_len;
        s \<leftarrow> ensure pool newSize 0 s;
        (ws, _) \<leftarrow> utf8_string_from_utf8_string_len (m_allocatedSize s) other other_len;
        s \<leftarrow> store 0 ws s;
        store newSize [0] s
      } else setEmpty s)"

definition strsicpy :: "pool \<Rightarrow> byte list option \<Rightarrow> nat \<Rightarrow> xstring8 \<Rightarrow> xstring8 option" where
  "strsicpy pool other other_size s =
     (if given other \<and> other_size > 0 then do {
        s \<leftarrow> ensure pool other_size 0 s;
        s \<leftarrow> store 0 (fst (utf8_string_from_utf8_string_size (m_allocatedSize s) other other_size)) s;
        store other_size [0] s
      } else setEmpty s)"

definition strcat_char :: "pool \<Rightarrow> char32 \<Rightarrow> xstring8 \<Rightarrow> xstring8 option" where
  "strcat_char pool otherChar s =
     (if otherChar \<noteq> 0 then do {
        let currentSize = string_size s;
        let newSize = currentSize + utf8_size_of_utf32_string_len (Some [otherChar]) 1;
        s \<leftarrow> ensure pool newSize XStringGrowByDefault s;
        s \<leftarrow> store currentSize (fst (utf8_string_from_utf32_string_len (m_allocatedSize s) (Some [otherChar]) 1)) s;
        store newSize [0] s
      } else Some s)"

text \<open>The overload for a string object differs in that it does not test for an empty argument.\<close>

definition strcat_always :: "pool \<Rightarrow> byte list option \<Rightarrow> xstring8 \<Rightarrow> xstring8 option" where
  "strcat_always pool other s = do {
     let currentSize = string_size s;
     let newSize = currentSize + utf8_size_of_utf8_string other;
     s \<leftarrow> ensure pool newSize XStringGrowByDefault s;
     (ws, _) \<leftarrow> utf8_string_from_utf8_string (m_allocatedSize s - currentSize) other;
     s \<leftarrow> store currentSize ws s;
     store newSize [0] s
   }"

definition strcat :: "pool \<Rightarrow> byte list option \<Rightarrow> xstring8 \<Rightarrow> xstring8 option" where
  "strcat pool other s = (if given other then strcat_always pool other s else Some s)"

definition strcat_String :: "pool \<Rightarrow> xstring8 \<Rightarrow> xstring8 \<Rightarrow> xstring8 option" where
  "strcat_String pool other s = strcat_always pool (Some (data other)) s"

definition strncat :: "pool \<Rightarrow> byte list option \<Rightarrow> nat \<Rightarrow> xstring8 \<Rightarrow> xstring8 option" where
  "strncat pool other other_len s =
     (if given other \<and> other_len > 0 then do {
        let currentSize = string_size s;
        let newSize = currentSize + utf8_size_of_utf8_string_len other other_len;
        s \<leftarrow> ensure pool newSize XStringGrowByDefault s;
        (ws, _) \<leftarrow> utf8_string_from_utf8_string_len (m_allocatedSize s) other other_len;
        s \<leftarrow> store currentSize ws s;
        store newSize [0] s
      } else Some s)"

definition strsicat :: "pool \<Rightarrow> byte list option \<Rightarrow> nat \<Rightarrow> xstring8 \<Rightarrow> xstring8 option" where
  "strsicat pool other other_size s =
     (if given other \<and> other_size > 0 then do {
        let currentSize = string_size s;
        let newSize = currentSize + other_size;
        s \<leftarrow> ensure pool newSize XStringGrowByDefault s;
        s \<leftarrow> store currentSize (fst (utf8_string_from_utf8_string_size (m_allocatedSize s) other other_size)) s;
        store newSize [0] s
      } else Some s)"

text \<open>The copy assignment shares a literal and copies allocated data.\<close>

definition assign :: "pool \<Rightarrow> xstring8 \<Rightarrow> xstring8 \<Rightarrow> xstring8 option" where
  "assign pool S s =
     (if m_allocatedSize S = 0 then Some \<lparr>m_data = m_data S, m_allocatedSize = 0\<rparr>
      else strsicpy pool (Some (data S)) (string_size S) s)"

section \<open>Editing\<close>

definition insertAtPos :: "pool \<Rightarrow> byte list option \<Rightarrow> nat \<Rightarrow> nat \<Rightarrow> xstring8 \<Rightarrow> xstring8 option" where
  "insertAtPos pool other other_len pos s =
     (if \<not> given other then Some s
      else do {
        currentLength \<leftarrow> string_length s;
        if pos \<ge> currentLength then strncat pool other other_len s
        else do {
          let currentSize = string_size s;
          let otherSize = utf8_size_of_utf8_string_len other other_len;
          s \<leftarrow> ensure pool (currentSize + otherSize) XStringGrowByDefault s;
          let start = utf8_size_of_utf8_string_len (Some (data s)) pos;
          s \<leftarrow> memmove (start + otherSize) start (currentSize - start + 1) s;
          (ws, _) \<leftarrow> utf8_stringnn_from_utf8_string otherSize other;
          store start ws s
        }
      })"

definition deleteCharsAtPos :: "pool \<Rightarrow> nat \<Rightarrow> nat \<Rightarrow> xstring8 \<Rightarrow> xstring8 option" where
  "deleteCharsAtPos pool pos count s = do {
     currentLength \<leftarrow> string_length s;
     if pos \<ge> currentLength then Some s
     else do {
       let currentSize = string_size s;
       s \<leftarrow> ensure pool currentSize 0 s;
       let start = utf8_size_of_utf8_string_len (Some (data s)) pos;
       if pos + count \<ge> currentLength then store start [0] s
       else do {
         let end = start + utf8_size_of_utf8_string_len (Some (c_string (drop start (m_data s)))) count;
         memmove start end (currentSize - end + 1) s
       }
     }
   }"

text \<open>\<open>get_char32_from_string\<close> on a pointer into the data: the new offset and the code point.\<close>

definition read_at :: "xstring8 \<Rightarrow> nat \<Rightarrow> nat \<times> char32" where
  "read_at s p =
     (let t = c_string (drop p (m_data s)) in
      case get_char32_from_utf8_string t of (t', c) \<Rightarrow> (p + (length t - length t'), c))"

partial_function (option) replace_char_loop ::
  "pool \<Rightarrow> char32 \<Rightarrow> char32 \<Rightarrow> nat \<Rightarrow> nat \<Rightarrow> nat \<Rightarrow> nat \<Rightarrow> char32 \<Rightarrow> nat \<Rightarrow> xstring8 \<Rightarrow> xstring8 option" where
  "replace_char_loop pool charToSearch charToReplaceBy charToSearchSize charToReplaceBySize previousP p char32 currentSize s =
     (if char32 \<noteq> 0 then
        (if char32 = charToSearch then do {
           s \<leftarrow> ensure pool (currentSize + charToReplaceBySize - charToSearchSize) XStringGrowByDefault s;
           s \<leftarrow> memmove (p + charToReplaceBySize - charToSearchSize) p (currentSize - p + 1) s;
           let p = p + charToReplaceBySize - charToSearchSize;
           let currentSize = currentSize + charToReplaceBySize - charToSearchSize;
           s \<leftarrow> store previousP (fst (utf8_stringnn_from_utf32_string charToReplaceBySize (Some [charToReplaceBy]))) s;
           replace_char_loop pool charToSearch charToReplaceBy charToSearchSize charToReplaceBySize
             p (fst (read_at s p)) (snd (read_at s p)) currentSize s
         } else
           replace_char_loop pool charToSearch charToReplaceBy charToSearchSize charToReplaceBySize
             p (fst (read_at s p)) (snd (read_at s p)) currentSize s)
      else Some s)"

definition replaceAll_char :: "pool \<Rightarrow> char32 \<Rightarrow> char32 \<Rightarrow> xstring8 \<Rightarrow> xstring8 option" where
  "replaceAll_char pool charToSearch charToReplaceBy s =
     replace_char_loop pool charToSearch charToReplaceBy
       (utf8_size_of_utf32_string_len (Some [charToSearch]) 1) (utf8_size_of_utf32_string_len (Some [charToReplaceBy]) 1)
       0 (fst (read_at s 0)) (snd (read_at s 0)) (string_size s) s"

text \<open>
  \<open>XStringAbstract__indexOf\<close> on a pointer into the data: \<open>None\<close> for \<open>MAX_XSIZE\<close>, otherwise the
  offset \<open>p\<close> has moved to. The option around it is the loop's.
\<close>

definition search_from :: "xstring8 \<Rightarrow> byte list \<Rightarrow> nat \<Rightarrow> nat option option" where
  "search_from s search p =
     (let t = c_string (drop p (m_data s)) in
      map_option (\<lambda>(i, t'). map_option (\<lambda>_. p + (length t - length t')) i)
        (indexOf_loop get_char32_from_utf8_string get_char32_from_utf8_string False search 0 t 0))"

partial_function (option) replace_loop8 ::
  "pool \<Rightarrow> byte list \<Rightarrow> byte list \<Rightarrow> nat \<Rightarrow> nat \<Rightarrow> nat \<Rightarrow> nat option option \<Rightarrow> nat \<Rightarrow> nat \<Rightarrow> xstring8 \<Rightarrow> xstring8 option" where
  "replace_loop8 pool search replaceBy searchSize replaceBySize previousP found currentSize sizeLeft s =
     (case found of
        None \<Rightarrow> None
      | Some None \<Rightarrow> Some s
      | Some (Some p) \<Rightarrow> do {
          s \<leftarrow> ensure pool (currentSize + replaceBySize - searchSize) XStringGrowByDefault s;
          let sizeLeft = sizeLeft - (p - previousP);
          s \<leftarrow> memmove (p + replaceBySize) (p + searchSize) (sizeLeft - searchSize + 1) s;
          (ws, _) \<leftarrow> utf8_stringnn_from_utf8_string replaceBySize (Some replaceBy);
          s \<leftarrow> store p ws s;
          let p = p + replaceBySize;
          replace_loop8 pool search replaceBy searchSize replaceBySize p (search_from s search p)
            (currentSize + replaceBySize - searchSize) (sizeLeft - searchSize) s
        })"

definition replaceAll :: "pool \<Rightarrow> byte list \<Rightarrow> byte list \<Rightarrow> xstring8 \<Rightarrow> xstring8 option" where
  "replaceAll pool search replaceBy s =
     replace_loop8 pool search replaceBy (utf8_size_of_utf8_string (Some search)) (utf8_size_of_utf8_string (Some replaceBy))
       0 (search_from s search 0) (string_size s) (string_size s) s"

declare replace_char_loop.simps [code] replace_loop8.simps [code]

text \<open>\<open>skip_blanks\<close> is the loop over the leading, \<open>last_ink\<close> the one back over the trailing blanks.\<close>

fun skip_blanks :: "byte list \<Rightarrow> nat" where
  "skip_blanks [] = 0"
| "skip_blanks (b # bs) = (if b \<noteq> 0 \<and> b \<le> 32 then Suc (skip_blanks bs) else 0)"

fun last_ink :: "byte list \<Rightarrow> nat \<Rightarrow> nat option" where
  "last_ink d i =
     (if i < length d then
        (if d ! i \<noteq> 0 \<and> d ! i \<le> 32 then (case i of 0 \<Rightarrow> None | Suc j \<Rightarrow> last_ink d j) else Some i)
      else None)"

declare last_ink.simps [simp del]

definition trim :: "pool \<Rightarrow> xstring8 \<Rightarrow> xstring8 option" where
  "trim pool s =
     (let lengthInNativeBytes = string_size s in
      if lengthInNativeBytes = 0 then Some s
      else let start = skip_blanks (m_data s) in
        if at (m_data s) start = 0 then store 0 [0] s
        else do {
          let saved = m_data s;
          last \<leftarrow> last_ink saved (lengthInNativeBytes - 1);
          let newSize = last - start + 1;
          s \<leftarrow> ensure pool newSize 0 s;
          s \<leftarrow> store 0 (take newSize (drop start saved)) s;
          store newSize [0] s
        })"

definition asciiToUpper :: "byte \<Rightarrow> byte" where
  "asciiToUpper ch = (if ch \<ge> 0x61 \<and> ch \<le> 0x7A then (ch - 0x61) + 0x41 else ch)"

definition asciiToLower8 :: "byte \<Rightarrow> byte" where
  "asciiToLower8 ch = (if ch \<ge> 0x41 \<and> ch \<le> 0x5A then (ch - 0x41) + 0x61 else ch)"

definition lowerAscii :: "pool \<Rightarrow> xstring8 \<Rightarrow> xstring8 option" where
  "lowerAscii pool s = do {
     s \<leftarrow> ensure pool (string_size s) 0 s;
     store 0 (map asciiToLower8 (data s)) s
   }"

definition upperAscii :: "pool \<Rightarrow> xstring8 \<Rightarrow> xstring8 option" where
  "upperAscii pool s = do {
     s \<leftarrow> ensure pool (string_size s) 0 s;
     store 0 (map asciiToUpper (data s)) s
   }"

section \<open>Access\<close>

fun char32At_loop :: "byte list \<Rightarrow> nat \<Rightarrow> char32" where
  "char32At_loop p i =
     (case get_char32_from_utf8_string p of (p', c) \<Rightarrow>
        if c = 0 then 0 else (case i of 0 \<Rightarrow> c | Suc j \<Rightarrow> char32At_loop p' j))"

declare char32At_loop.simps [simp del]

definition char32At :: "xstring8 \<Rightarrow> int \<Rightarrow> char32" where
  "char32At s i = (if i < 0 then 0 else char32At_loop (data s) (nat i))"

definition char16At :: "xstring8 \<Rightarrow> int \<Rightarrow> char16" where
  "char16At s i = (let c = char32At s i in if c \<ge> 0x10000 then 0xFFFD else ucast c)"

definition lastChar :: "xstring8 \<Rightarrow> char32 option" where
  "lastChar s = map_option (\<lambda>n. if n > 0 then char32At s (int n - 1) else 0) (string_length s)"

fun advance :: "byte list \<Rightarrow> char32 \<Rightarrow> nat \<Rightarrow> byte list" where
  "advance src c 0 = src"
| "advance src c (Suc pos) =
     (if c \<noteq> 0 then (case get_char32_from_utf8_string src of (src', c') \<Rightarrow> advance src' c' pos) else src)"

definition subString :: "pool \<Rightarrow> nat \<Rightarrow> nat \<Rightarrow> xstring8 \<Rightarrow> xstring8 option" where
  "subString pool pos count s = strncat pool (Some (advance (data s) 1 pos)) count new_xstring8"

definition MAX_XSIZE :: nat where
  "MAX_XSIZE = 2 ^ 64 - 1"

text \<open>
  The loop of \<open>basename\<close>: the position of the last separator, \<open>None\<close> for \<open>MAX_XSIZE\<close>, and the
  final pointer.
\<close>

function basename_loop :: "byte list \<Rightarrow> char32 \<Rightarrow> nat \<Rightarrow> nat option \<Rightarrow> nat option \<times> byte list" where
  "basename_loop p c pos lastSepPos =
     (if c \<noteq> 0 then
        (case get_char32_from_utf8_string p of (p', c') \<Rightarrow>
           basename_loop p' c' (pos + 1) (if c = 0x2F \<or> c = 0x5C then Some pos else lastSepPos))
      else (lastSepPos, p))"
  by pat_completeness auto
termination
  by (relation "measure (\<lambda>(p, c, _, _). length p + (if c = 0 then 0 else 1))") (auto dest: u8.dec_progress [OF sym])

declare basename_loop.simps [simp del]

definition basename :: "pool \<Rightarrow> xstring8 \<Rightarrow> xstring8 option" where
  "basename pool s =
     (case get_char32_from_utf8_string (data s) of (p, c) \<Rightarrow>
      case basename_loop p c 0 None of (lastSepPos, p') \<Rightarrow>
        if lastSepPos = None \<and> length p' = length (data s) then strcpy pool (Some [0x2E]) new_xstring8
        else subString pool (case lastSepPos of None \<Rightarrow> 0 | Some i \<Rightarrow> i + 1) MAX_XSIZE s)"

definition rindexOf_char :: "char32 \<Rightarrow> nat \<Rightarrow> xstring8 \<Rightarrow> nat option option" where
  "rindexOf_char char32Searched Pos s =
     XStringAbstract__rindexOf get_char32_from_utf8_string get_char32_from_utf32_string length_of_utf8_string
       (data s) Pos [char32Searched] False"

definition dirname :: "pool \<Rightarrow> xstring8 \<Rightarrow> xstring8 option" where
  "dirname pool s = do {
     idx \<leftarrow> rindexOf_char 0x5C (MAX_XSIZE - 1) s;
     case idx of Some i \<Rightarrow> subString pool 0 i s
     | None \<Rightarrow> do {
         idx \<leftarrow> rindexOf_char 0x2F (MAX_XSIZE - 1) s;
         case idx of Some i \<Rightarrow> subString pool 0 i s | None \<Rightarrow> Some new_xstring8
       }
   }"

end
