(* ===== verification/X_String8_Text.thy ===== *)
theory X_String8_Text
  imports X_String8
begin

text \<open>
  What the operations of \<open>XString8\<close> do to the text of a string. An object represents a list
  of code points when its memory holds their UTF-8 units and a terminator; every operation
  keeps this and has the effect its name says on the list, without a fault, for every state
  of the memory behind the terminator and every amount of spare room.
\<close>

section \<open>Conversions of whole texts\<close>

lemma text_nonzero8: "list_all scalar cs \<Longrightarrow> 0 \<notin> set (units utf8 cs)"
  by (induction cs) (auto simp: utf8_nonzero)

lemma size_text [simp]: "list_all scalar cs \<Longrightarrow> utf8_size_of_utf8_string (Some (units utf8 cs)) = length (units utf8 cs)"
  by (simp add: utf8_size_of_utf8_string_def strlen_units list_all_iff utf8_nonzero)

lemma size_len_text [simp]:
  "list_all scalar cs \<Longrightarrow> utf8_size_of_utf8_string_len (Some (units utf8 cs)) len = length (units utf8 (take len cs))"
  using skip_len_loop_text [of cs 1 len] by (cases len) (auto simp: utf8_size_of_utf8_string_len_def length_units_drop)

lemma length_text [simp]: "list_all scalar cs \<Longrightarrow> length_of_utf8_string (Some (units utf8 cs)) = Some (length cs)"
proof -
  assume cs: "list_all scalar cs"
  have "sum_list (map (\<lambda>_. Suc 0) xs) = length xs" for xs :: "char32 list" by (induction xs) auto
  then show ?thesis
    using u8.size_loop_text [OF cs, of "\<lambda>_. 1" 0]
    by (simp add: length_of_utf8_string_def utf32_size_of_utf8_string_def split: prod.splits)
qed

lemma copy_text:
  assumes "list_all scalar cs" "length (units utf8 cs) < n"
  shows "utf8_string_from_utf8_string n (Some (units utf8 cs)) = Some (units utf8 cs @ [0], length (units utf8 cs))"
  using u8_u8.nn_loop_text [of n cs "[]"] terminated_fit [of n utf8 cs] assms
  by (cases "get_char32_from_utf8_string (units utf8 cs)")
    (simp add: utf8_string_from_utf8_string_def utf8_stringnn_from_utf8_string_def fit_all closed_all)

lemma copy_len_text:
  assumes "list_all scalar cs" "length (units utf8 (take len cs)) < n"
  shows "utf8_string_from_utf8_string_len n (Some (units utf8 cs)) len = Some (finish (units utf8 (take len cs)))"
  using u8_u8.len_loop_text [OF assms(1), of "n - 1" len "[]"] assms
  by (cases "get_char32_from_utf8_string (units utf8 cs)"; cases "n = 1"; cases len)
    (auto simp: utf8_string_from_utf8_string_len_def fit_all finish_def)

lemma copy_size_text:
  assumes "list_all scalar cs" "0 < sz" "sz < n"
  shows "utf8_string_from_utf8_string_size n (Some (units utf8 cs)) sz = finish (units utf8 (fit utf8 sz cs))"
  using utf8_size_cut [OF assms(1,2), of n] assms fit_size [of utf8 sz cs] by (simp add: fit_all)

lemma fit_prefix_units: "fit e (length (units e xs)) (xs @ ys) = xs @ fit e 0 ys"
  by (induction xs) auto

lemma fit_scalar: "list_all scalar cs \<Longrightarrow> list_all scalar (fit e n cs)"
  by (induction e n cs rule: fit.induct) auto

lemma list_all_drop: "list_all P cs \<Longrightarrow> list_all P (drop n cs)"
  by (auto simp: list_all_iff dest: in_set_dropD)

lemma nn_copy_text:
  assumes "list_all scalar cs"
  shows "utf8_stringnn_from_utf8_string (length (units utf8 (take k cs))) (Some (units utf8 cs)) =
    Some (units utf8 (take k cs), length (units utf8 (take k cs)))"
proof (cases "length (units utf8 (take k cs)) = 0")
  case True
  then show ?thesis by (simp add: utf8_stringnn_from_utf8_string_def)
next
  case False
  moreover have "fit utf8 (length (units utf8 (take k cs))) cs = take k cs"
    using fit_prefix_units [of utf8 "take k cs" "drop k cs"] by (simp add: fit_0 utf8_nonempty)
  ultimately show ?thesis
    using u8_u8.nn_loop_text [of "length (units utf8 (take k cs))" cs "[]"] assms
    by (cases "get_char32_from_utf8_string (units utf8 cs)")
      (simp add: utf8_stringnn_from_utf8_string_def plain_def)
qed

lemma char_size_text [simp]: "scalar c \<Longrightarrow> utf8_size_of_utf32_string_len (Some [c]) (Suc 0) = length (utf8 c)"
  using ptr_len_loop_utf32 [of "[c]" 1 0] units_size(1) [of "[c]"]
  by (simp add: utf8_size_of_utf32_string_len_def)

lemma char_copy_text:
  "scalar c \<Longrightarrow> length (utf8 c) < n \<Longrightarrow> utf8_string_from_utf32_string_len n (Some [c]) 1 = finish (utf8 c)"
  using w8.raw_len_loop_text [of "[c]" "n - 1" 1 "[]"] utf8_nonempty [of c]
  by (auto simp: utf8_string_from_utf32_string_len_def scalar_bounds)

lemma char_nn_copy_text:
  "scalar c \<Longrightarrow> utf8_stringnn_from_utf32_string (length (utf8 c)) (Some [c]) = (utf8 c, length (utf8 c))"
  using w8.raw_loop_text [of "[c]" "length (utf8 c)" "[]"] utf8_nonempty [of c]
  by (auto simp: utf8_stringnn_from_utf32_string_def scalar_bounds plain_def)

section \<open>The representation\<close>

definition holds :: "xstring8 \<Rightarrow> char32 list \<Rightarrow> byte list \<Rightarrow> bool" where
  "holds s cs rest \<longleftrightarrow> list_all scalar cs \<and> m_data s = units utf8 cs @ 0 # rest \<and>
     (m_allocatedSize s = 0 \<or> m_allocatedSize s = length (m_data s))"

definition represents :: "xstring8 \<Rightarrow> char32 list \<Rightarrow> bool" where
  "represents s cs \<longleftrightarrow> (\<exists>rest. holds s cs rest)"

text \<open>The allocator returns blocks of the size it is asked for.\<close>

definition good_pool :: "pool \<Rightarrow> bool" where
  "good_pool pool \<longleftrightarrow> (\<forall>n. \<exists>b. pool n = Some b \<and> length b = n)"

lemma c_string_text: "0 \<notin> set t \<Longrightarrow> c_string (t @ 0 # rest) = t"
  by (induction t) (auto simp: c_string_def)

lemma holds_data [simp]:
  assumes "holds s cs rest"
  shows "data s = units utf8 cs" "string_size s = length (units utf8 cs)" "string_length s = Some (length cs)"
proof -
  show d: "data s = units utf8 cs"
    using assms c_string_text [OF text_nonzero8, of cs rest] by (simp add: holds_def data_def)
  show "string_size s = length (units utf8 cs)" "string_length s = Some (length cs)"
    using assms by (simp_all add: d string_size_def string_length_def holds_def)
qed

lemma represents_data:
  "represents s cs \<Longrightarrow> data s = units utf8 cs \<and> string_size s = length (units utf8 cs) \<and> string_length s = Some (length cs)"
  by (auto simp: represents_def)

lemma units_empty: "units utf8 cs = [] \<longleftrightarrow> cs = []"
  using utf8_nonempty by (cases cs) auto

lemma represents_scalar: "represents s cs \<Longrightarrow> list_all scalar cs"
  by (auto simp: represents_def holds_def)

lemma given_nil [simp]: "\<not> given (Some [])"
  by (simp add: given_def)

lemma given_text: "list_all scalar ds \<Longrightarrow> given (Some (units utf8 ds)) \<longleftrightarrow> ds \<noteq> []"
  by (cases ds) (auto simp: given_def u8.enc_start)

text \<open>After \<open>CheckSize\<close> the text is the same, in allocated memory with room for \<open>n\<close> units.\<close>

lemma ensure_holds:
  assumes "good_pool pool" and h: "holds s cs rest"
  shows "\<exists>s' rest'. ensure pool n g s = Some s' \<and> holds s' cs rest' \<and> n < m_allocatedSize s'"
proof (cases "m_allocatedSize s < n + 1")
  case False
  then show ?thesis using h by (auto simp: ensure_def CheckSize_def)
next
  case True
  show ?thesis
  proof (cases "m_allocatedSize s = 0")
    case True
    let ?u = "units utf8 cs"
    define k where "k = (if n + g < length ?u then length ?u else n + g)"
    obtain b where b: "pool (k + 1) = Some b" "length b = k + 1" using assms(1) by (auto simp: good_pool_def)
    have u: "length ?u < k + 1" "n < k + 1" by (auto simp: k_def)
    have "Alloc pool (k + 1) s = Some \<lparr>m_data = b, m_allocatedSize = k + 1\<rparr>"
      using b True by (simp add: Alloc_def)
    then have "CheckSize pool n g s = Some (True, \<lparr>m_data = ?u @ 0 # drop (length ?u + 1) b, m_allocatedSize = k + 1\<rparr>)"
      using h True b u copy_text [of cs "k + 1"]
      by (cases "n + g < length ?u") (simp_all add: CheckSize_def Let_def k_def holds_data [OF h] store_def holds_def)
    then have "ensure pool n g s = Some \<lparr>m_data = ?u @ 0 # drop (length ?u + 1) b, m_allocatedSize = k + 1\<rparr>"
      by (simp add: ensure_def)
    then show ?thesis using h b u by (intro exI conjI) (auto simp: holds_def)
  next
    case pos: False
    obtain b where b: "pool (n + g + 1) = Some b" "length b = n + g + 1" using assms(1) by (auto simp: good_pool_def)
    have "ensure pool n g s = Some \<lparr>m_data = units utf8 cs @ 0 # rest @ drop (m_allocatedSize s) b, m_allocatedSize = n + g + 1\<rparr>"
      using h pos True b by (simp add: ensure_def CheckSize_def Alloc_def holds_def)
    then show ?thesis using h b pos True by (intro exI conjI) (auto simp: holds_def)
  qed
qed


lemma ensure_text:
  assumes "good_pool pool" "represents s cs"
  obtains s' where "ensure pool n g s = Some s'" "represents s' cs" "n < m_allocatedSize s'"
  using ensure_holds [of pool s cs _ n g] assms by (auto simp: represents_def)

lemma put_text:
  assumes "represents s (cs @ ds)" "list_all scalar es" "length (units utf8 (cs @ es)) < m_allocatedSize s"
  obtains s' where "store (length (units utf8 cs)) (units utf8 es @ [0]) s = Some s'" "represents s' (cs @ es)"
    "m_allocatedSize s' = m_allocatedSize s"
proof -
  obtain rest where h: "holds s (cs @ ds) rest" using assms(1) by (auto simp: represents_def)
  define s' where "s' = s\<lparr>m_data := units utf8 cs @ (units utf8 es @ [0]) @
    drop (length (units utf8 cs) + length (units utf8 es @ [0])) (m_data s)\<rparr>"
  have len: "m_allocatedSize s = length (m_data s)" "0 < m_allocatedSize s" using h assms(3) by (auto simp: holds_def)
  have "store (length (units utf8 cs)) (units utf8 es @ [0]) s = Some s'"
    using h assms(3) len by (simp add: store_def s'_def holds_def)
  moreover have "holds s' (cs @ es) (drop (length (units utf8 cs) + length (units utf8 es @ [0])) (m_data s))"
    using h assms(2,3) len by (simp add: holds_def s'_def)
  ultimately show ?thesis by (intro that [of s']) (auto simp: represents_def s'_def)
qed

lemma put_zero:
  assumes "represents s cs" "length (units utf8 cs) \<le> off" "off < m_allocatedSize s"
  obtains s' where "store off [0] s = Some s'" "represents s' cs" "m_allocatedSize s' = m_allocatedSize s"
proof -
  let ?u = "units utf8 cs"
  obtain rest where h: "holds s cs rest" using assms(1) by (auto simp: represents_def)
  have len: "m_allocatedSize s = length ?u + Suc (length rest)" "m_data s = ?u @ 0 # rest"
    using h assms(3) by (auto simp: holds_def)
  define rest' where "rest' = (if off = length ?u then rest else take (off - length ?u - 1) rest @ 0 # drop (off - length ?u) rest)"
  have "take off (m_data s) @ 0 # drop (Suc off) (m_data s) = ?u @ 0 # rest'"
    using assms(2) len by (cases "off - length ?u") (auto simp: rest'_def take_Cons' Suc_diff_le)
  moreover have "length rest' = length rest" using assms len by (auto simp: rest'_def)
  ultimately show ?thesis
    using assms h len by (intro that [of "s\<lparr>m_data := ?u @ 0 # rest'\<rparr>"]) (auto simp: store_def holds_def represents_def)
qed


text \<open>The common end of the copying and appending operations.\<close>

lemma write_tail:
  assumes "good_pool pool" "represents s (cs @ ds)" "list_all scalar es" "length (units utf8 (cs @ es)) \<le> newSize"
  obtains s1 s2 s3 where "ensure pool newSize g s = Some s1" "newSize < m_allocatedSize s1"
    "store (length (units utf8 cs)) (units utf8 es @ [0]) s1 = Some s2" "store newSize [0] s2 = Some s3"
    "represents s3 (cs @ es)"
proof -
  obtain s1 where s1: "ensure pool newSize g s = Some s1" "represents s1 (cs @ ds)" "newSize < m_allocatedSize s1"
    using ensure_text [OF assms(1,2)] by blast
  obtain s2 where s2: "store (length (units utf8 cs)) (units utf8 es @ [0]) s1 = Some s2" "represents s2 (cs @ es)"
    "m_allocatedSize s2 = m_allocatedSize s1"
    using put_text [OF s1(2) assms(3)] s1 assms(4) by auto
  obtain s3 where "store newSize [0] s2 = Some s3" "represents s3 (cs @ es)"
    using put_zero [OF s2(2) assms(4)] s1 s2 by auto
  then show ?thesis using that s1 s2 by blast
qed

section \<open>Copying and appending\<close>

lemma setEmpty_text:
  assumes "represents s cs"
  shows "\<exists>s'. setEmpty s = Some s' \<and> represents s' []"
proof (cases "m_allocatedSize s = 0")
  case True
  then show ?thesis by (auto simp: setEmpty_def represents_def holds_def)
next
  case False
  then show ?thesis
    using put_text [of s "[]" cs "[]"] assms by (auto simp: setEmpty_def)
qed

lemma strcpy_text:
  assumes "good_pool pool" "represents s cs" "list_all scalar ds"
  shows "\<exists>s'. strcpy pool (Some (units utf8 ds)) s = Some s' \<and> represents s' ds"
proof (cases "ds = []")
  case True
  then show ?thesis using setEmpty_text [OF assms(2)] by (simp add: strcpy_def)
next
  case False
  obtain s1 s2 s3 where w: "ensure pool (length (units utf8 ds)) 0 s = Some s1" "length (units utf8 ds) < m_allocatedSize s1"
    "store 0 (units utf8 ds @ [0]) s1 = Some s2" "store (length (units utf8 ds)) [0] s2 = Some s3" "represents s3 ds"
    using write_tail [OF assms(1), of s "[]" cs ds "length (units utf8 ds)" 0] assms by auto
  then show ?thesis
    using False copy_text [OF assms(3) w(2)] assms(3) by (auto simp: strcpy_def given_text)
qed

lemma strncpy_text:
  assumes "good_pool pool" "represents s cs" "list_all scalar ds"
  shows "\<exists>s'. strncpy pool (Some (units utf8 ds)) len s = Some s' \<and> represents s' (take len ds)"
proof (cases "ds = [] \<or> len = 0")
  case True
  then show ?thesis using setEmpty_text [OF assms(2)] by (auto simp: strncpy_def)
next
  case False
  let ?n = "length (units utf8 (take len ds))"
  obtain s1 s2 s3 where w: "ensure pool ?n 0 s = Some s1" "?n < m_allocatedSize s1"
    "store 0 (units utf8 (take len ds) @ [0]) s1 = Some s2" "store ?n [0] s2 = Some s3" "represents s3 (take len ds)"
    using write_tail [OF assms(1), of s "[]" cs "take len ds" ?n 0] assms list_all_take [OF assms(3)] by auto
  then show ?thesis
    using False copy_len_text [OF assms(3) w(2)] assms(3) by (auto simp: strncpy_def given_text finish_def)
qed

lemma strsicpy_text:
  assumes "good_pool pool" "represents s cs" "list_all scalar ds"
  shows "\<exists>s'. strsicpy pool (Some (units utf8 ds)) sz s = Some s' \<and> represents s' (fit utf8 sz ds)"
proof (cases "ds = [] \<or> sz = 0")
  case True
  then show ?thesis using setEmpty_text [OF assms(2)] by (auto simp: strsicpy_def fit_0 utf8_nonempty)
next
  case False
  obtain s1 s2 s3 where w: "ensure pool sz 0 s = Some s1" "sz < m_allocatedSize s1"
    "store 0 (units utf8 (fit utf8 sz ds) @ [0]) s1 = Some s2" "store sz [0] s2 = Some s3" "represents s3 (fit utf8 sz ds)"
    using write_tail [OF assms(1), of s "[]" cs "fit utf8 sz ds" sz 0] assms fit_scalar [OF assms(3), of utf8 sz] fit_size [of utf8 sz ds] by auto
  then show ?thesis
    using False copy_size_text [OF assms(3) _ w(2)] assms(3) by (auto simp: strsicpy_def given_text finish_def)
qed

lemma strcat_char_text:
  assumes "good_pool pool" "represents s cs" "scalar c"
  shows "\<exists>s'. strcat_char pool c s = Some s' \<and> represents s' (cs @ [c])"
proof -
  let ?n = "length (units utf8 (cs @ [c]))"
  obtain s1 s2 s3 where w: "ensure pool ?n XStringGrowByDefault s = Some s1" "?n < m_allocatedSize s1"
    "store (length (units utf8 cs)) (utf8 c @ [0]) s1 = Some s2" "store ?n [0] s2 = Some s3" "represents s3 (cs @ [c])"
    using write_tail [OF assms(1), of s cs "[]" "[c]" ?n XStringGrowByDefault] assms by auto
  then show ?thesis
    using char_copy_text [OF assms(3), of "m_allocatedSize s1"] assms(3) represents_data [OF assms(2)]
    by (auto simp: strcat_char_def finish_def scalar_bounds)
qed

lemma strcat_always_text:
  assumes "good_pool pool" "represents s cs" "list_all scalar ds"
  shows "\<exists>s'. strcat_always pool (Some (units utf8 ds)) s = Some s' \<and> represents s' (cs @ ds)"
proof -
  let ?n = "length (units utf8 (cs @ ds))"
  obtain s1 s2 s3 where w: "ensure pool ?n XStringGrowByDefault s = Some s1" "?n < m_allocatedSize s1"
    "store (length (units utf8 cs)) (units utf8 ds @ [0]) s1 = Some s2" "store ?n [0] s2 = Some s3" "represents s3 (cs @ ds)"
    using write_tail [OF assms(1), of s cs "[]" ds ?n XStringGrowByDefault] assms by auto
  then show ?thesis
    using copy_text [OF assms(3), of "m_allocatedSize s1 - length (units utf8 cs)"] represents_data [OF assms(2)] assms(3)
    by (auto simp: strcat_always_def)
qed

lemma strcat_text:
  assumes "good_pool pool" "represents s cs" "list_all scalar ds"
  shows "\<exists>s'. strcat pool (Some (units utf8 ds)) s = Some s' \<and> represents s' (cs @ ds)"
  using strcat_always_text [OF assms] assms(2,3) by (cases "ds = []") (auto simp: strcat_def given_text)

lemma strncat_text:
  assumes "good_pool pool" "represents s cs" "list_all scalar ds"
  shows "\<exists>s'. strncat pool (Some (units utf8 ds)) len s = Some s' \<and> represents s' (cs @ take len ds)"
proof (cases "ds = [] \<or> len = 0")
  case True
  then show ?thesis using assms(2) by (auto simp: strncat_def)
next
  case False
  let ?n = "length (units utf8 (cs @ take len ds))"
  obtain s1 s2 s3 where w: "ensure pool ?n XStringGrowByDefault s = Some s1" "?n < m_allocatedSize s1"
    "store (length (units utf8 cs)) (units utf8 (take len ds) @ [0]) s1 = Some s2" "store ?n [0] s2 = Some s3"
    "represents s3 (cs @ take len ds)"
    using write_tail [OF assms(1), of s cs "[]" "take len ds" ?n XStringGrowByDefault] assms list_all_take [OF assms(3)] by auto
  then show ?thesis
    using False copy_len_text [OF assms(3), of len "m_allocatedSize s1"] represents_data [OF assms(2)] assms(3)
    by (auto simp: strncat_def given_text finish_def)
qed

lemma strsicat_text:
  assumes "good_pool pool" "represents s cs" "list_all scalar ds"
  shows "\<exists>s'. strsicat pool (Some (units utf8 ds)) sz s = Some s' \<and> represents s' (cs @ fit utf8 sz ds)"
proof (cases "ds = [] \<or> sz = 0")
  case True
  then show ?thesis using assms(2) by (auto simp: strsicat_def fit_0 utf8_nonempty)
next
  case False
  let ?n = "length (units utf8 cs) + sz"
  obtain s1 s2 s3 where w: "ensure pool ?n XStringGrowByDefault s = Some s1" "?n < m_allocatedSize s1"
    "store (length (units utf8 cs)) (units utf8 (fit utf8 sz ds) @ [0]) s1 = Some s2" "store ?n [0] s2 = Some s3"
    "represents s3 (cs @ fit utf8 sz ds)"
    using write_tail [OF assms(1), of s cs "[]" "fit utf8 sz ds" ?n XStringGrowByDefault] assms fit_scalar [OF assms(3), of utf8 sz]
      fit_size [of utf8 sz ds] by auto
  then show ?thesis
    using False copy_size_text [OF assms(3), of sz "m_allocatedSize s1"] represents_data [OF assms(2)] assms(3)
    by (auto simp: strsicat_def given_text finish_def)
qed

lemma assign_text:
  assumes "good_pool pool" "represents s cs" "represents S ds"
  shows "\<exists>s'. assign pool S s = Some s' \<and> represents s' ds"
proof (cases "m_allocatedSize S = 0")
  case True
  then show ?thesis using assms(3) by (auto simp: assign_def represents_def holds_def)
next
  case False
  then show ?thesis
    using strsicpy_text [OF assms(1,2), of ds "length (units utf8 ds)"] represents_data [OF assms(3)] represents_scalar [OF assms(3)]
    by (simp add: assign_def fit_all)
qed

section \<open>Editing\<close>

lemma splice_bytes:
  assumes "d = a @ y" "length a + length w + length b \<le> length d"
  shows "take (length a) (take (length a + length w) d @ b @ r) @ w @ drop (length a + length w) (take (length a + length w) d @ b @ r) =
    a @ w @ b @ r"
proof -
  have "length (take (length a + length w) d) = length a + length w" using assms(2) by simp
  then show ?thesis using assms(1) by (simp del: length_take)
qed

text \<open>Moving the tail of the text and writing in front of it replaces what stood between.\<close>

lemma splice_text:
  assumes rep: "represents s (cs @ xs @ ds)" and es: "list_all scalar es"
    and room: "length (units utf8 (cs @ es @ ds)) < m_allocatedSize s"
  shows "\<exists>s1 s2.
    memmove (length (units utf8 (cs @ es))) (length (units utf8 (cs @ xs))) (length (units utf8 ds) + 1) s = Some s1 \<and>
    store (length (units utf8 cs)) (units utf8 es) s1 = Some s2 \<and>
    represents s2 (cs @ es @ ds) \<and> m_allocatedSize s2 = m_allocatedSize s"
proof -
  let ?u = "units utf8"
  obtain rest where h: "holds s (cs @ xs @ ds) rest" using rep by (auto simp: represents_def)
  define d where "d = m_data s"
  have d: "d = ?u cs @ ?u xs @ ?u ds @ 0 # rest" "m_allocatedSize s = length d" "0 < m_allocatedSize s"
    using h room by (auto simp: holds_def d_def)
  define e where "e = take (length (?u (cs @ es))) d @ (?u ds @ [0]) @ drop (length (?u (cs @ es @ ds)) + 1) d"
  define f where "f = ?u cs @ ?u es @ ?u ds @ 0 # drop (length (?u (cs @ es @ ds)) + 1) d"
  have src: "take (length (?u ds) + 1) (drop (length (?u (cs @ xs))) d) = ?u ds @ [0]"
    by (simp add: d)
  have "memmove (length (?u (cs @ es))) (length (?u (cs @ xs))) (length (?u ds) + 1) s = Some (s\<lparr>m_data := e\<rparr>)"
    using room src d
    by (simp add: memmove_def d_def [symmetric] store_def e_def)
  moreover have "store (length (?u cs)) (?u es) (s\<lparr>m_data := e\<rparr>) = Some (s\<lparr>m_data := f\<rparr>)"
  proof -
    have "length e = length d" using room d(2) by (simp add: e_def)
    moreover have "take (length (?u cs)) e @ ?u es @ drop (length (?u cs) + length (?u es)) e = f"
      using room d splice_bytes [of d "?u cs" "?u xs @ ?u ds @ 0 # rest" "?u es" "?u ds @ [0]"] by (simp add: e_def f_def add.assoc)
    ultimately show ?thesis using room d(2,3) by (simp add: store_def)
  qed
  moreover have "represents (s\<lparr>m_data := f\<rparr>) (cs @ es @ ds)"
    unfolding represents_def
  proof
    have "length f = length d" using room d(2) by (simp add: f_def)
    then show "holds (s\<lparr>m_data := f\<rparr>) (cs @ es @ ds) (drop (length (?u (cs @ es @ ds)) + 1) d)"
      using h es d(2) by (simp add: holds_def) (simp add: f_def)
  qed
  ultimately show ?thesis by fastforce
qed

lemma insertAtPos_text:
  assumes "good_pool pool" "represents s cs" "list_all scalar ds"
  shows "\<exists>s'. insertAtPos pool (Some (units utf8 ds)) len pos s = Some s' \<and>
    represents s' (take pos cs @ take len ds @ drop pos cs)"
proof (cases "ds = [] \<or> length cs \<le> pos")
  case True
  then show ?thesis
    using strncat_text [OF assms, of len] assms(2,3) represents_data [OF assms(2)]
    by (cases "ds = []") (auto simp: insertAtPos_def given_text)
next
  case False
  let ?es = "take len ds" and ?u = "units utf8"
  obtain s1 where s1: "ensure pool (length (?u cs) + length (?u ?es)) XStringGrowByDefault s = Some s1" "represents s1 cs"
    "length (?u cs) + length (?u ?es) < m_allocatedSize s1"
    using ensure_text [OF assms(1,2)] by blast
  have parts: "length (?u cs) = length (?u (take pos cs)) + length (?u (drop pos cs))"
    using units_append [of utf8 "take pos cs" "drop pos cs"] by simp
  obtain s2 s3 where "memmove (length (?u (take pos cs @ ?es))) (length (?u (take pos cs @ []))) (length (?u (drop pos cs)) + 1) s1 = Some s2"
    "store (length (?u (take pos cs))) (?u ?es) s2 = Some s3" "represents s3 (take pos cs @ ?es @ drop pos cs)"
    using splice_text [of s1 "take pos cs" "[]" "drop pos cs" ?es] s1 assms(3) parts by (auto simp: list_all_take)
  then show ?thesis
    using False s1 parts represents_data [OF assms(2)] represents_data [OF s1(2)] represents_scalar [OF assms(2)] nn_copy_text [OF assms(3), of len]
    by (auto simp: insertAtPos_def given_text assms(3))
qed

lemma deleteCharsAtPos_text:
  assumes "good_pool pool" "represents s cs"
  shows "\<exists>s'. deleteCharsAtPos pool pos count s = Some s' \<and> represents s' (take pos cs @ drop (pos + count) cs)"
proof (cases "length cs \<le> pos")
  case True
  then show ?thesis using assms represents_data [OF assms(2)] by (simp add: deleteCharsAtPos_def)
next
  case False
  let ?u = "units utf8" and ?xs = "take count (drop pos cs)" and ?ds = "drop (pos + count) cs"
  note cs = represents_scalar [OF assms(2)]
  obtain s1 where s1: "ensure pool (length (?u cs)) 0 s = Some s1" "represents s1 cs" "length (?u cs) < m_allocatedSize s1"
    using ensure_text [OF assms(1,2)] by blast
  have split: "cs = take pos cs @ ?xs @ ?ds"
    using append_take_drop_id [of pos cs] append_take_drop_id [of count "drop pos cs"] by (simp add: add.commute)
  have parts: "length (?u cs) = length (?u (take pos cs)) + length (?u ?xs) + length (?u ?ds)"
    using arg_cong [OF split, of "\<lambda>x. length (?u x)"] by simp
  show ?thesis
  proof (cases "length cs \<le> pos + count")
    case True
    then show ?thesis
      using put_text [of s1 "take pos cs" "drop pos cs" "[]"] s1 parts False cs represents_data [OF assms(2)] represents_data [OF s1(2)]
      by (auto simp: deleteCharsAtPos_def)
  next
    case within: False
    obtain rest where "m_data s1 = ?u (take pos cs) @ ?u (drop pos cs) @ 0 # rest"
      using s1(2) units_append [of utf8 "take pos cs" "drop pos cs"] by (auto simp: represents_def holds_def)
    then have tail: "c_string (drop (length (?u (take pos cs))) (m_data s1)) = ?u (drop pos cs)"
      using cs by (simp add: c_string_text text_nonzero8 list_all_drop)
    obtain s2 s3 where m: "memmove (length (?u (take pos cs @ []))) (length (?u (take pos cs @ ?xs))) (length (?u ?ds) + 1) s1 = Some s2"
      "store (length (?u (take pos cs))) (?u []) s2 = Some s3" "represents s3 (take pos cs @ [] @ ?ds)"
      using splice_text [of s1 "take pos cs" ?xs ?ds "[]"] s1 parts split [symmetric] by auto
    then have "s3 = s2" by (simp add: store_def split: if_splits)
    then show ?thesis
      using m False within s1 parts cs tail represents_data [OF assms(2)] represents_data [OF s1(2)]
      by (auto simp: deleteCharsAtPos_def list_all_drop)
  qed
qed

section \<open>Replacing\<close>

lemma tail_text:
  assumes "represents s (xs @ ys)"
  shows "c_string (drop (length (units utf8 xs)) (m_data s)) = units utf8 ys"
  using assms by (auto simp: represents_def holds_def c_string_text text_nonzero8)

lemma read_at_text:
  assumes "represents s (xs @ ys)"
  shows "read_at s (length (units utf8 xs)) =
    (case ys of [] \<Rightarrow> (length (units utf8 xs), 0) | c # _ \<Rightarrow> (length (units utf8 (xs @ [c])), c))"
  using tail_text [OF assms] represents_scalar [OF assms]
  by (cases ys) (simp_all add: read_at_def decode_nil u8.dec_enc)

lemma replace_char_loop_text:
  assumes "good_pool pool" "scalar a" "scalar b"
  shows "represents s (xs @ ys) \<Longrightarrow>
    \<exists>s'. replace_char_loop pool a b (length (utf8 a)) (length (utf8 b)) (length (units utf8 xs))
      (fst (read_at s (length (units utf8 xs)))) (snd (read_at s (length (units utf8 xs)))) (length (units utf8 (xs @ ys))) s = Some s' \<and>
      represents s' (xs @ map (\<lambda>c. if c = a then b else c) ys)"
proof (induction ys arbitrary: xs s)
  case Nil
  then show ?case by (subst replace_char_loop.simps) (simp add: read_at_text [OF Nil])
next
  case (Cons c ys)
  note r = read_at_text [OF Cons.prems]
  have c: "c \<noteq> 0" using represents_scalar [OF Cons.prems] by (auto simp: scalar_bounds)
  show ?case
  proof (cases "c = a")
    case False
    then show ?thesis
      using Cons.IH [of s "xs @ [c]"] Cons.prems c r by (subst replace_char_loop.simps) simp
  next
    case True
    let ?n = "length (units utf8 (xs @ [b] @ ys))"
    obtain s1 where s1: "ensure pool ?n XStringGrowByDefault s = Some s1" "represents s1 (xs @ [c] @ ys)" "?n < m_allocatedSize s1"
      using ensure_text [OF assms(1), of s "xs @ [c] @ ys" ?n] Cons.prems by auto
    obtain s2 s3 where s3: "memmove (length (units utf8 (xs @ [b]))) (length (units utf8 (xs @ [c]))) (length (units utf8 ys) + 1) s1 = Some s2"
      "store (length (units utf8 xs)) (units utf8 [b]) s2 = Some s3" "represents s3 (xs @ [b] @ ys)"
      using splice_text [OF s1(2), of "[b]"] s1(3) assms(3) by auto
    then show ?thesis
      using Cons.IH [of s3 "xs @ [b]"] c r s1 True char_nn_copy_text [OF assms(3)]
      by (subst replace_char_loop.simps) (simp add: add_ac Let_def)
  qed
qed

lemma replaceAll_char_text:
  assumes "good_pool pool" "scalar a" "scalar b" "represents s cs"
  shows "\<exists>s'. replaceAll_char pool a b s = Some s' \<and> represents s' (map (\<lambda>c. if c = a then b else c) cs)"
  using replace_char_loop_text [OF assms(1,2,3), of s "[]" cs] assms represents_data [OF assms(4)]
  by (simp add: replaceAll_char_def)

lemma text_index_shorter:
  assumes "text_index ic ds cs = Some i" "ds \<noteq> []"
  shows "length (drop (i + length ds) cs) < length cs"
  using occurs_at_inside [of ic ds cs i] text_index_first [OF assms(1)] assms(2) by (cases ds) auto

text \<open>Replacing the occurrences of a text from left to right.\<close>

function text_replace :: "char32 list \<Rightarrow> char32 list \<Rightarrow> char32 list \<Rightarrow> char32 list" where
  "text_replace ds es cs =
     (if ds = [] then cs
      else case text_index False ds cs of
        None \<Rightarrow> cs
      | Some i \<Rightarrow> take i cs @ es @ text_replace ds es (drop (i + length ds) cs))"
  by pat_completeness auto
termination
  by (relation "measure (\<lambda>(ds, es, cs). length cs)") (auto dest: text_index_shorter)

declare text_replace.simps [simp del]

lemma text_index_exact:
  assumes "text_index False ds cs = Some i"
  shows "cs = take i cs @ ds @ drop (i + length ds) cs"
proof -
  have "map (fold_case False) xs = xs" for xs by (induction xs) (simp_all add: fold_case_def)
  then have "prefix ds (drop i cs)" using text_index_first [OF assms] by (simp add: occurs_at_def)
  then have "drop i cs = ds @ drop (length ds) (drop i cs)" by (metis append_eq_conv_conj prefix_def)
  then show ?thesis using append_take_drop_id [of i cs] by (simp add: add.commute)
qed

lemma search_from_text:
  assumes "represents s (xs @ ys)" "list_all scalar ds"
  shows "search_from s (units utf8 ds) (length (units utf8 xs)) =
    Some (map_option (\<lambda>i. length (units utf8 (xs @ take i ys))) (text_index False ds ys))"
proof -
  have ys: "list_all scalar ys" using represents_scalar [OF assms(1)] by simp
  show ?thesis
    using r8_8.indexOf_loop_text [OF ys assms(2), of False 0 0] tail_text [OF assms(1)]
    by (auto simp: search_from_def length_units_drop split: option.split)
qed

lemma replace_loop8_text:
  assumes "good_pool pool" "list_all scalar ds" "list_all scalar es" "ds \<noteq> []"
  shows "represents s (xs @ ys) \<Longrightarrow>
    \<exists>s'. replace_loop8 pool (units utf8 ds) (units utf8 es) (length (units utf8 ds)) (length (units utf8 es))
      (length (units utf8 xs)) (search_from s (units utf8 ds) (length (units utf8 xs))) (length (units utf8 (xs @ ys)))
      (length (units utf8 ys)) s = Some s' \<and> represents s' (xs @ text_replace ds es ys)"
proof (induction "length ys" arbitrary: xs ys s rule: less_induct)
  case less
  note sf = search_from_text [OF less.prems assms(2)]
  show ?case
  proof (cases "text_index False ds ys")
    case None
    then show ?thesis
      using less.prems sf by (subst replace_loop8.simps, subst text_replace.simps) simp
  next
    case (Some i)
    let ?a = "take i ys" and ?b = "drop (i + length ds) ys"
    have ys: "ys = ?a @ ds @ ?b" by (rule text_index_exact [OF Some])
    have sizes: "length (units utf8 ys) = length (units utf8 ?a) + length (units utf8 ds) + length (units utf8 ?b)"
      using arg_cong [OF ys, of "\<lambda>x. length (units utf8 x)"] by simp
    have shorter: "length ?b < length ys"
      using text_index_shorter [OF Some assms(4)] .
    let ?n = "length (units utf8 (xs @ ?a @ es @ ?b))"
    obtain s1 where s1: "ensure pool ?n XStringGrowByDefault s = Some s1" "represents s1 ((xs @ ?a) @ ds @ ?b)" "?n < m_allocatedSize s1"
      using ensure_text [OF assms(1) less.prems, of ?n XStringGrowByDefault] ys [symmetric] by auto
    obtain s2 s3 where s3: "memmove (length (units utf8 ((xs @ ?a) @ es))) (length (units utf8 ((xs @ ?a) @ ds))) (length (units utf8 ?b) + 1) s1 = Some s2"
      "store (length (units utf8 (xs @ ?a))) (units utf8 es) s2 = Some s3" "represents s3 ((xs @ ?a) @ es @ ?b)"
      using splice_text [OF s1(2) assms(3)] s1(3) by auto
    have "\<exists>s'. replace_loop8 pool (units utf8 ds) (units utf8 es) (length (units utf8 ds)) (length (units utf8 es))
      (length (units utf8 (xs @ ?a @ es))) (search_from s3 (units utf8 ds) (length (units utf8 (xs @ ?a @ es)))) (length (units utf8 ((xs @ ?a @ es) @ ?b)))
      (length (units utf8 ?b)) s3 = Some s' \<and> represents s' ((xs @ ?a @ es) @ text_replace ds es ?b)"
      using s3(3) shorter by (intro less.hyps) simp_all
    moreover have "utf8_stringnn_from_utf8_string (length (units utf8 es)) (Some (units utf8 es)) = Some (units utf8 es, length (units utf8 es))"
      using nn_copy_text [OF assms(3), of "length es"] by simp
    ultimately show ?thesis
      using s1 s3 sf Some sizes assms(4)
      by (subst replace_loop8.simps, subst text_replace.simps) (simp add: add_ac Let_def)
  qed
qed

lemma replaceAll_text:
  assumes "good_pool pool" "list_all scalar ds" "list_all scalar es" "ds \<noteq> []" "represents s cs"
  shows "\<exists>s'. replaceAll pool (units utf8 ds) (units utf8 es) s = Some s' \<and> represents s' (text_replace ds es cs)"
  using replace_loop8_text [OF assms(1-4), of s "[]" cs] assms represents_data [OF assms(5)] by (simp add: replaceAll_def)


section \<open>Letter case and blanks\<close>

lemma high_byte: "bit (b :: byte) 7 \<Longrightarrow> 128 \<le> unat b"
  using small_bits [of b 7 7] by (cases "unat b < 128") auto

text \<open>The bytes of a code point: a single one below \<open>0x80\<close>, otherwise all have the high bit.\<close>

lemma utf8_bytes:
  assumes "scalar c"
  shows "c < 0x80 \<Longrightarrow> utf8 c = [ucast c] \<and> unat (ucast c :: byte) = unat c"
    and "\<not> c < 0x80 \<Longrightarrow> b \<in> set (utf8 c) \<Longrightarrow> 128 \<le> unat b"
proof -
  assume "c < 0x80"
  then show "utf8 c = [ucast c] \<and> unat (ucast c :: byte) = unat c"
    by (simp add: utf8_cases unsigned_ucast_eq take_bit_nat_eq_self word_less_nat_alt)
next
  have "128 \<le> unat (ucast (x OR 0x80 :: char32) :: byte)" "128 \<le> unat (ucast (x OR 0xC0 :: char32) :: byte)"
    "128 \<le> unat (ucast (x OR 0xE0 :: char32) :: byte)" "128 \<le> unat (ucast (x OR 0xF0 :: char32) :: byte)" for x
    by (rule high_byte, simp add: bit_simps bit_consts)+
  moreover assume "\<not> c < 0x80" "b \<in> set (utf8 c)"
  ultimately show "128 \<le> unat b" by (auto simp: utf8_cases split: if_splits)
qed

lemma utf8_ascii: "c < 0x80 \<Longrightarrow> utf8 c = [ucast c]"
  by (simp add: utf8_cases)

text \<open>Changing the case of the ASCII letters byte by byte is changing that of the code points.\<close>

definition upper32 :: "char32 \<Rightarrow> char32" where
  "upper32 c = (if 0x61 \<le> c \<and> c \<le> 0x7A then (c - 0x61) + 0x41 else c)"

lemma shift_letter:
  fixes x :: "'a :: len word"
  assumes "7 \<le> LENGTH('a)" "a < 128" "b < 128" "a \<le> unat x" "unat x < a + 26" "b + 26 < 128"
  shows "unat ((x - word_of_nat a) + word_of_nat b) = unat x - a + b"
proof -
  have "(128 :: nat) \<le> 2 ^ LENGTH('a)" using power_increasing [OF assms(1), of "2 :: nat"] by simp
  then have "unat (word_of_nat a :: 'a word) = a" "unat (word_of_nat b :: 'a word) = b" "unat x - a + b < 2 ^ LENGTH('a)"
    using assms by (auto simp: unat_of_nat_small)
  then show ?thesis using assms by (simp add: unat_word_ariths unat_sub_if')
qed

lemma case_bytes:
  assumes "c < 0x80"
  shows "asciiToLower8 (ucast c) = ucast (asciiToLower c)" "asciiToUpper (ucast c) = ucast (upper32 c)"
proof -
  have u: "unat (ucast (d :: char32) :: byte) = unat d" if "unat d < 128" for d
    using that by (simp add: unsigned_ucast_eq take_bit_nat_eq_self)
  have c: "unat c < 128" using assms by (simp add: word_less_nat_alt)
  show "asciiToLower8 (ucast c) = ucast (asciiToLower c)"
    using shift_letter [where a = "0x41" and b = "0x61" and x = c] shift_letter [where a = "0x41" and b = "0x61" and x = "ucast c :: byte"] c
    by (intro word_unat_eq_iff [THEN iffD2]) (auto simp: asciiToLower8_def asciiToLower_def word_le_nat_alt u)
  show "asciiToUpper (ucast c) = ucast (upper32 c)"
    using shift_letter [where a = "0x61" and b = "0x41" and x = c] shift_letter [where a = "0x61" and b = "0x41" and x = "ucast c :: byte"] c
    by (intro word_unat_eq_iff [THEN iffD2]) (auto simp: asciiToUpper_def upper32_def word_le_nat_alt u)
qed

lemma utf8_case:
  assumes "scalar c"
  shows "map asciiToLower8 (utf8 c) = utf8 (asciiToLower c) \<and> scalar (asciiToLower c)"
    and "map asciiToUpper (utf8 c) = utf8 (upper32 c) \<and> scalar (upper32 c)"
proof -
  have c: "c \<noteq> 0" using assms by (simp add: scalar_bounds)
  have low: "asciiToLower c < 0x80" "upper32 c < 0x80" "asciiToLower c \<noteq> 0" "upper32 c \<noteq> 0" if "c < 0x80"
    using that c shift_letter [where a = "0x41" and b = "0x61" and x = c] shift_letter [where a = "0x61" and b = "0x41" and x = c]
    by (auto simp: asciiToLower_def upper32_def word_less_nat_alt word_le_nat_alt unat_eq_0 [symmetric] simp del: unat_eq_0)
  have high: "map asciiToLower8 (utf8 c) = utf8 c" "map asciiToUpper (utf8 c) = utf8 c" "asciiToLower c = c" "upper32 c = c" if "\<not> c < 0x80"
    using that utf8_bytes(2) [OF assms that]
    by (fastforce intro!: map_idI simp: asciiToLower8_def asciiToUpper_def asciiToLower_def upper32_def word_le_nat_alt word_less_nat_alt)+
  have sc: "scalar d" if "d < 0x80" "d \<noteq> 0" for d using that by (auto simp: scalar_def word_less_nat_alt word_le_nat_alt)
  show "map asciiToLower8 (utf8 c) = utf8 (asciiToLower c) \<and> scalar (asciiToLower c)"
    using low high sc assms case_bytes(1) [of c] by (cases "c < 0x80") (simp_all add: utf8_ascii)
  show "map asciiToUpper (utf8 c) = utf8 (upper32 c) \<and> scalar (upper32 c)"
    using low high sc assms case_bytes(2) [of c] by (cases "c < 0x80") (simp_all add: utf8_ascii)
qed

lemma units_case:
  assumes "\<And>c. scalar c \<Longrightarrow> map f (utf8 c) = utf8 (g c) \<and> scalar (g c)" "list_all scalar cs"
  shows "map f (units utf8 cs) = units utf8 (map g cs)" "list_all scalar (map g cs)"
  using assms(2) by (induction cs) (auto simp: assms(1))

lemma case_text:
  assumes "good_pool pool" "represents s cs"
    and f: "\<And>c. scalar c \<Longrightarrow> map f (utf8 c) = utf8 (g c) \<and> scalar (g c)"
  shows "\<exists>s'. (do { s \<leftarrow> ensure pool (string_size s) 0 s; store 0 (map f (data s)) s }) = Some s' \<and> represents s' (map g cs)"
proof -
  obtain s1 where s1: "ensure pool (string_size s) 0 s = Some s1" "represents s1 cs" "string_size s < m_allocatedSize s1"
    using ensure_text [OF assms(1,2)] by blast
  then obtain rest where h: "holds s1 cs rest" by (auto simp: represents_def)
  note u = units_case [of f g, OF f represents_scalar [OF assms(2)]]
  have len: "length (units utf8 (map g cs)) = length (units utf8 cs)" using u(1) by (metis length_map)
  have "store 0 (map f (data s1)) s1 = Some (s1\<lparr>m_data := units utf8 (map g cs) @ 0 # rest\<rparr>)"
    using h s1(3) u len by (simp add: store_def) (simp add: holds_def)
  moreover have "represents (s1\<lparr>m_data := units utf8 (map g cs) @ 0 # rest\<rparr>) (map g cs)"
    using h u len by (auto simp: represents_def holds_def)
  ultimately show ?thesis using s1 by simp
qed

lemmas lowerAscii_text = case_text [where f = asciiToLower8 and g = asciiToLower, folded lowerAscii_def, OF _ _ utf8_case(1)]
lemmas upperAscii_text = case_text [where f = asciiToUpper and g = upper32, folded upperAscii_def, OF _ _ utf8_case(2)]

definition blank :: "char32 \<Rightarrow> bool" where
  "blank c \<longleftrightarrow> c \<le> 32"

definition text_trim :: "char32 list \<Rightarrow> char32 list" where
  "text_trim cs = rev (dropWhile blank (rev (dropWhile blank cs)))"

lemma blank_bytes:
  assumes "scalar c" "b \<in> set (utf8 c)"
  shows "b \<noteq> 0 \<and> (b \<le> 32 \<longleftrightarrow> blank c)" "blank c \<Longrightarrow> length (utf8 c) = 1"
proof -
  have nz: "b \<noteq> 0" using assms utf8_nonzero by metis
  show "b \<noteq> 0 \<and> (b \<le> 32 \<longleftrightarrow> blank c)"
    using nz utf8_bytes(1) [OF assms(1)] utf8_bytes(2) [OF assms(1) _ assms(2)] assms(2)
    by (cases "c < 0x80") (auto simp: blank_def word_le_nat_alt word_less_nat_alt)
  show "blank c \<Longrightarrow> length (utf8 c) = 1"
    using utf8_ascii [of c] by (simp add: blank_def word_le_nat_alt word_less_nat_alt)
qed

lemma blank_units:
  assumes "list_all scalar cs" "\<And>c. c \<in> set cs \<Longrightarrow> blank c" "b \<in> set (units utf8 cs)"
  shows "b \<noteq> 0 \<and> b \<le> 32"
  using assms by (induction cs) (auto dest: blank_bytes(1))

lemma store_snoc:
  "store off (w @ [z]) s = Some s' \<Longrightarrow> (store off w s \<bind> store (off + length w) [z]) = Some s'"
  by (auto simp: store_def min_def split: if_splits)

lemma skip_blanks_text:
  "list_all scalar cs \<Longrightarrow> skip_blanks (units utf8 cs @ 0 # r) = length (units utf8 (takeWhile blank cs))"
proof (induction cs)
  case (Cons c cs)
  obtain b bs where u: "utf8 c = b # bs" using utf8_nonempty by (cases "utf8 c") auto
  then show ?case using Cons blank_bytes [of c b] by (cases "blank c") auto
qed simp

lemma last_ink_blanks:
  assumes "\<And>b. b \<in> set bl \<Longrightarrow> b \<noteq> 0 \<and> b \<le> 32" "\<not> (b \<noteq> 0 \<and> b \<le> 32)"
  shows "last_ink (x @ [b] @ bl @ y) (length x + length bl) = Some (length x)"
  using assms(1)
proof (induction bl arbitrary: y rule: rev_induct)
  case Nil
  then show ?case using assms(2) by (subst last_ink.simps) auto
next
  case (snoc a bl)
  have "(x @ [b] @ (bl @ [a]) @ y) ! (length x + length (bl @ [a])) = a"
    by (simp add: nth_append)
  then show ?case
    using snoc.IH [of "a # y"] snoc.prems by (subst last_ink.simps) simp
qed

lemma trim_parts:
  "cs = takeWhile blank cs @ text_trim cs @ rev (takeWhile blank (rev (dropWhile blank cs)))"
proof -
  have "rev (takeWhile blank (rev (dropWhile blank cs)) @ dropWhile blank (rev (dropWhile blank cs))) = dropWhile blank cs"
    by (simp only: takeWhile_dropWhile_id rev_rev_ident)
  then have "dropWhile blank cs = text_trim cs @ rev (takeWhile blank (rev (dropWhile blank cs)))"
    by (simp only: rev_append text_trim_def)
  then show ?thesis by (metis takeWhile_dropWhile_id)
qed

lemma trim_last:
  assumes "text_trim cs \<noteq> []"
  shows "\<not> blank (last (text_trim cs))"
  using assms hd_dropWhile [of blank "rev (dropWhile blank cs)"] by (auto simp: text_trim_def last_rev)

lemma trim_empty: "text_trim cs = [] \<longleftrightarrow> dropWhile blank cs = []"
proof (cases "dropWhile blank cs")
  case (Cons c t)
  then have "\<not> blank c" using hd_dropWhile [of blank cs] by simp
  then have "dropWhile blank (rev t @ [c]) \<noteq> []" by (simp add: dropWhile_eq_Nil_conv)
  then show ?thesis using Cons by (simp add: text_trim_def)
next
  case Nil
  then show ?thesis unfolding text_trim_def by (simp only: rev.simps dropWhile.simps)
qed

text \<open>Trimming works unless the string is a literal of blanks only, which the routine would write to.\<close>

lemma trim_string_text:
  assumes pool: "good_pool pool" and rep: "represents s cs"
    and lit: "m_allocatedSize s > 0 \<or> text_trim cs \<noteq> [] \<or> cs = []"
  shows "\<exists>s'. trim pool s = Some s' \<and> represents s' (text_trim cs)"
proof -
  let ?u = "units utf8" and ?t = "text_trim cs"
  let ?pre = "takeWhile blank cs" and ?post = "rev (takeWhile blank (rev (dropWhile blank cs)))"
  note cs = represents_scalar [OF rep]
  obtain rest where h: "holds s cs rest" using rep by (auto simp: represents_def)
  then have d: "m_data s = ?u cs @ 0 # rest" by (simp add: holds_def)
  have start: "skip_blanks (m_data s) = length (?u ?pre)" using skip_blanks_text [OF cs] d by simp
  have parts: "?u cs = ?u ?pre @ ?u ?t @ ?u ?post" using arg_cong [OF trim_parts [of cs], of ?u] by simp
  have scalars: "list_all scalar ?t" "list_all scalar ?post"
    using cs trim_parts [of cs] by (metis list_all_append)+
  show ?thesis
  proof (cases "?t = []")
    case True
    then have "dropWhile blank cs = []" by (simp add: trim_empty)
    then have pre: "?pre = cs" using takeWhile_dropWhile_id [of blank cs] by simp
    have "at (m_data s) (length (?u ?pre)) = 0" unfolding pre d by (simp add: at_def nth_append)
    then show ?thesis
      using put_text [of s "[]" cs "[]"] rep lit True represents_data [OF rep] start
      by (cases "cs = []") (auto simp: trim_def units_empty)
  next
    case False
    define c where "c = last ?t"
    have tb: "?t = butlast ?t @ [c]" using False by (simp add: c_def)
    have c: "scalar c" "\<not> blank c"
      using scalars(1) trim_last [OF False] last_in_set [OF False] by (auto simp: list_all_iff c_def)
    define x b where "x = ?u (butlast ?t) @ butlast (utf8 c)" and "b = last (utf8 c)"
    have xb: "?u ?t = x @ [b]"
      using arg_cong [OF tb, of ?u] utf8_nonempty [of c] by (simp add: x_def b_def)
    have b: "\<not> (b \<noteq> 0 \<and> b \<le> 32)" "b \<in> set (utf8 c)"
      using blank_bytes(1) [OF c(1), of b] c(2) utf8_nonempty [of c] by (auto simp: b_def)
    have whole: "m_data s = (?u ?pre @ x) @ [b] @ ?u ?post @ 0 # rest" using d parts xb by simp
    have first: "at (m_data s) (length (?u ?pre)) \<noteq> 0"
      using text_nonzero8 [OF scalars(1)] xb by (cases x) (auto simp: whole at_def nth_append)
    have post: "b' \<noteq> 0 \<and> b' \<le> 32" if "b' \<in> set (?u ?post)" for b'
      using blank_units [OF scalars(2) _ that] set_takeWhileD by (metis set_rev)
    have "last_ink (m_data s) (length (?u cs) - 1) = Some (length (?u ?pre @ x))"
      unfolding whole using last_ink_blanks [of "?u ?post" b "?u ?pre @ x" "0 # rest"] b(1) post parts xb by (simp add: add.assoc)
    moreover have "length (?u ?pre @ x) - length (?u ?pre) + 1 = length (?u ?t)" using xb by simp
    moreover have "take (length (?u ?t)) (drop (length (?u ?pre)) (m_data s)) = ?u ?t" using d parts by simp
    moreover obtain s1 where s1: "ensure pool (length (?u ?t)) 0 s = Some s1" "represents s1 cs" "length (?u ?t) < m_allocatedSize s1"
      using ensure_text [OF pool rep] by blast
    moreover obtain s2 where "store 0 (?u ?t @ [0]) s1 = Some s2" "represents s2 ?t"
      using put_text [of s1 "[]" cs ?t] s1 scalars(1) by auto
    ultimately show ?thesis
      using first start represents_data [OF rep] False store_snoc [of 0 "?u ?t" 0 s1]
      by (auto simp: trim_def units_empty trim_empty)
  qed
qed

section \<open>Access\<close>

lemma char32At_text:
  assumes "represents s cs"
  shows "char32At s i = (if 0 \<le> i \<and> nat i < length cs then cs ! nat i else 0)"
proof -
  have "char32At_loop (units utf8 cs) k = (if k < length cs then cs ! k else 0)" if "list_all scalar cs" for cs k
    using that
  proof (induction cs arbitrary: k)
    case Nil
    then show ?case by (subst char32At_loop.simps) (simp add: decode_nil)
  next
    case (Cons c cs)
    then show ?case by (subst char32At_loop.simps) (auto simp: u8.dec_enc u8.valid_nz split: nat.split)
  qed
  then show ?thesis using represents_scalar [OF assms] represents_data [OF assms] by (simp add: char32At_def)
qed

lemma lastChar_text: "represents s cs \<Longrightarrow> lastChar s = Some (if cs = [] then 0 else last cs)"
  by (auto simp: lastChar_def represents_data char32At_text last_conv_nth nat_diff_distrib')

lemma advance_text: "list_all scalar cs \<Longrightarrow> c \<noteq> 0 \<Longrightarrow> advance (units utf8 cs) c pos = units utf8 (drop pos cs)"
proof (induction pos arbitrary: cs c)
  case (Suc pos)
  have stuck: "advance [] 0 k = []" for k by (cases k) simp_all
  show ?case using Suc by (cases cs) (simp_all add: decode_nil stuck u8.dec_enc u8.valid_nz)
qed simp

lemma new_represents: "represents new_xstring8 []"
  by (auto simp: represents_def holds_def new_xstring8_def)

lemma represents_bytes: "represents s cs \<Longrightarrow> units utf8 cs = u \<Longrightarrow> data s = u"
  by (simp add: represents_data)

lemma literal_represents: "list_all scalar cs \<Longrightarrow> represents (xstring8_of_literal (units utf8 cs)) cs"
  by (auto simp: represents_def holds_def xstring8_of_literal_def)

lemma subString_text:
  assumes "good_pool pool" "represents s cs"
  shows "\<exists>s'. subString pool pos count s = Some s' \<and> represents s' (take count (drop pos cs))"
  using strncat_text [OF assms(1) new_represents, of "drop pos cs" count] represents_scalar [OF assms(2)]
    represents_data [OF assms(2)]
  by (simp add: subString_def advance_text list_all_drop)

abbreviation separator :: "char32 \<Rightarrow> bool" where
  "separator c \<equiv> c = 0x2F \<or> c = 0x5C"

lemma takeWhile_shorter: "\<exists>x\<in>set xs. \<not> P x \<Longrightarrow> length (takeWhile P xs) < length xs"
  by (induction xs) auto

lemma basename_loop_text:
  "list_all scalar cs \<Longrightarrow>
   (case get_char32_from_utf8_string (units utf8 cs) of (p, c) \<Rightarrow> basename_loop p c pos lst) =
     (if \<exists>c\<in>set cs. separator c
      then Some (pos + (length cs - 1 - length (takeWhile (\<lambda>c. \<not> separator c) (rev cs)))) else lst, [])"
proof (induction cs arbitrary: pos lst)
  case Nil
  then show ?case by (simp add: decode_nil basename_loop.simps)
next
  case (Cons c cs)
  let ?P = "\<lambda>c. \<not> separator c"
  have step: "(case get_char32_from_utf8_string (units utf8 (c # cs)) of (p, c) \<Rightarrow> basename_loop p c pos lst) =
    (case get_char32_from_utf8_string (units utf8 cs) of (p, c') \<Rightarrow>
      basename_loop p c' (pos + 1) (if separator c then Some pos else lst))"
    using Cons.prems by (simp add: u8.dec_enc basename_loop.simps [of _ c] u8.valid_nz)
  show ?case
  proof (cases "\<exists>c\<in>set cs. separator c")
    case True
    then have "takeWhile ?P (rev (c # cs)) = takeWhile ?P (rev cs)" by (auto simp: takeWhile_append)
    moreover have "length (takeWhile ?P (rev cs)) < length cs"
      using True takeWhile_shorter [of "rev cs" ?P] by auto
    ultimately show ?thesis
      unfolding step using Cons.prems Cons.IH [of "pos + 1"] True by (simp add: Suc_diff_Suc)
  next
    case False
    then have "takeWhile ?P (rev (c # cs)) = rev cs @ takeWhile ?P [c]" by (auto simp: takeWhile_append)
    then show ?thesis
      unfolding step using Cons.prems Cons.IH [of "pos + 1"] False by simp
  qed
qed

text \<open>The part behind the last separator, or a dot for the empty string.\<close>

definition text_basename :: "char32 list \<Rightarrow> char32 list" where
  "text_basename cs = (if cs = [] then [0x2E] else rev (takeWhile (\<lambda>c. \<not> separator c) (rev cs)))"

lemma dot_units: "units utf8 [0x2E] = [0x2E]" "list_all scalar [0x2E]"
  by code_simp+

lemma basename_text:
  assumes "good_pool pool" "represents s cs" "length cs \<le> MAX_XSIZE"
  shows "\<exists>s'. basename pool s = Some s' \<and> represents s' (text_basename cs)"
proof -
  let ?n = "length (takeWhile (\<lambda>c. \<not> separator c) (rev cs))"
  note cs = represents_scalar [OF assms(2)] and d = represents_data [OF assms(2)]
  let ?b = "rev (takeWhile (\<lambda>c. \<not> separator c) (rev cs))"
  have "rev (drop (length cs - ?n) cs) = take ?n (rev cs)" by (simp add: take_rev)
  then have "rev (drop (length cs - ?n) cs) = takeWhile (\<lambda>c. \<not> separator c) (rev cs)"
    by (simp only: takeWhile_eq_take [symmetric])
  then have bt: "drop (length cs - ?n) cs = ?b" by (simp only: rev_swap rev_rev_ident)
  show ?thesis
  proof (cases "\<exists>c\<in>set cs. separator c")
    case True
    then have "?n < length cs" using takeWhile_shorter [of "rev cs" "\<lambda>c. \<not> separator c"] by auto
    then have n: "Suc (length cs - 1 - ?n) = length cs - ?n" and b: "length ?b \<le> MAX_XSIZE" and "cs \<noteq> []"
      using assms(3) by auto
    obtain s' where "subString pool (length cs - ?n) MAX_XSIZE s = Some s'" "represents s' ?b"
      using subString_text [OF assms(1,2), of "length cs - ?n" MAX_XSIZE] b unfolding bt by auto
    moreover have "basename pool s = subString pool (length cs - ?n) MAX_XSIZE s"
      using basename_loop_text [OF cs, of 0 None] True d n
      by (cases "get_char32_from_utf8_string (units utf8 cs)") (simp add: basename_def)
    ultimately show ?thesis using \<open>cs \<noteq> []\<close> by (simp add: text_basename_def)
  next
    case False
    then have tw: "takeWhile (\<lambda>c. \<not> separator c) (rev cs) = rev cs" by simp
    have b: "text_basename cs = (if cs = [] then [0x2E] else cs)" unfolding text_basename_def tw rev_rev_ident ..
    have "basename pool s = (if cs = [] then strcpy pool (Some [0x2E]) new_xstring8 else subString pool 0 MAX_XSIZE s)"
      using basename_loop_text [OF cs, of 0 None] False d
      by (cases "get_char32_from_utf8_string (units utf8 cs)") (simp add: basename_def units_empty)
    then show ?thesis
      using subString_text [OF assms(1,2), of 0 MAX_XSIZE] strcpy_text [OF assms(1) new_represents dot_units(2)] assms(3)
      unfolding b dot_units(1) by simp
  qed
qed


text \<open>The part before the last backslash, and without a backslash before the last slash.\<close>

definition before_last :: "char32 \<Rightarrow> char32 list \<Rightarrow> char32 list" where
  "before_last x cs = rev (tl (dropWhile (\<lambda>c. c \<noteq> x) (rev cs)))"

definition text_dirname :: "char32 list \<Rightarrow> char32 list" where
  "text_dirname cs = (if 0x5C \<in> set cs then before_last 0x5C cs else if 0x2F \<in> set cs then before_last 0x2F cs else [])"

lemma occurs_at_single: "occurs_at False [x] cs i \<longleftrightarrow> i < length cs \<and> cs ! i = x"
proof (cases "i < length cs")
  case True
  then show ?thesis by (auto simp: occurs_at_def fold_case_def Cons_nth_drop_Suc [symmetric])
qed (auto simp: occurs_at_def)

lemma before_last_take:
  assumes "i < length cs" "cs ! i = x" "\<And>j. i < j \<Longrightarrow> j < length cs \<Longrightarrow> cs ! j \<noteq> x"
  shows "before_last x cs = take i cs"
proof -
  have "cs = take i cs @ x # drop (Suc i) cs" using assms(1,2) id_take_nth_drop by blast
  then have r: "rev cs = rev (drop (Suc i) cs) @ x # rev (take i cs)" by (metis rev.simps(2) rev_append append_assoc append_Cons append_Nil)
  have "x \<notin> set (drop (Suc i) cs)"
  proof
    assume "x \<in> set (drop (Suc i) cs)"
    then obtain k where "k < length cs - Suc i" "cs ! (Suc i + k) = x" by (auto simp: in_set_conv_nth)
    moreover from this have "Suc i + k < length cs" by linarith
    ultimately show False using assms(3) [of "Suc i + k"] by simp
  qed
  then have "dropWhile (\<lambda>c. c \<noteq> x) (rev cs) = x # rev (take i cs)" unfolding r by (subst dropWhile_append2) auto
  then show ?thesis by (simp add: before_last_def)
qed

lemma rindexOf_char_text:
  assumes "represents s cs" "scalar x" "length cs \<le> MAX_XSIZE"
  shows "\<exists>r. rindexOf_char x (MAX_XSIZE - 1) s = Some r \<and>
    (case r of None \<Rightarrow> x \<notin> set cs | Some i \<Rightarrow> x \<in> set cs \<and> i \<le> MAX_XSIZE \<and> take i cs = before_last x cs)"
proof -
  note cs = represents_scalar [OF assms(1)]
  obtain r where r: "rindexOf_char x (MAX_XSIZE - 1) s = Some r" "last_occurrence False [x] cs (MAX_XSIZE - 1) r"
    using r8_32.rindexOf_text [OF cs, of "[x]" length_of_utf8_string "MAX_XSIZE - 1" False, unfolded units_utf32] assms(2) represents_data [OF assms(1)]
    by (auto simp: rindexOf_char_def)
  have small: "i \<le> MAX_XSIZE - 1" if "i < length cs" for i using that assms(3) by simp
  show ?thesis
  proof (cases r)
    case None
    then have "x \<notin> set cs" using r(2) small by (auto simp: last_occurrence_def occurs_at_single in_set_conv_nth)
    then show ?thesis using r(1) None by simp
  next
    case (Some i)
    then have i: "i < length cs" "cs ! i = x" "\<And>j. i < j \<Longrightarrow> j < length cs \<Longrightarrow> cs ! j \<noteq> x"
      using r(2) small by (auto simp: last_occurrence_def occurs_at_single)
    then show ?thesis using r(1) Some assms(3) before_last_take [OF i] by auto
  qed
qed

lemma dirname_text:
  assumes "good_pool pool" "represents s cs" "length cs \<le> MAX_XSIZE"
  shows "\<exists>s'. dirname pool s = Some s' \<and> represents s' (text_dirname cs)"
proof -
  have "scalar 0x5C" "scalar 0x2F" by (simp_all add: scalar_def)
  then obtain r q where r: "rindexOf_char 0x5C (MAX_XSIZE - 1) s = Some r"
      "case r of None \<Rightarrow> 0x5C \<notin> set cs | Some i \<Rightarrow> 0x5C \<in> set cs \<and> i \<le> MAX_XSIZE \<and> take i cs = before_last 0x5C cs"
    and q: "rindexOf_char 0x2F (MAX_XSIZE - 1) s = Some q"
      "case q of None \<Rightarrow> 0x2F \<notin> set cs | Some i \<Rightarrow> 0x2F \<in> set cs \<and> i \<le> MAX_XSIZE \<and> take i cs = before_last 0x2F cs"
    using rindexOf_char_text [OF assms(2) _ assms(3)] by blast
  show ?thesis
  proof (cases r)
    case (Some i)
    then show ?thesis using r subString_text [OF assms(1,2), of 0 i] by (simp add: dirname_def text_dirname_def)
  next
    case None
    show ?thesis
    proof (cases q)
      case (Some i)
      then show ?thesis using None r q subString_text [OF assms(1,2), of 0 i] by (simp add: dirname_def text_dirname_def)
    qed (use None r q new_represents in \<open>simp add: dirname_def text_dirname_def\<close>)
  qed
qed

section \<open>Properties\<close>





text \<open>
  C32: Access to \<open>XString8\<close>: the character operators, the last character and \<open>subString\<close> agree
  with the list of code points; \<open>trim\<close> removes the leading and trailing code points up to the
  space; \<open>basename\<close> and \<open>dirname\<close> split a path at its last separator.
\<close>
theorem xstring8_access:
  assumes "good_pool pool" and "represents s cs" and "length cs \<le> MAX_XSIZE"
  shows "char32At s i = (if 0 \<le> i \<and> nat i < length cs then cs ! nat i else 0) \<and>
    lastChar s = Some (if cs = [] then 0 else last cs) \<and>
    (\<exists>s'. subString pool pos count s = Some s' \<and> represents s' (take count (drop pos cs))) \<and>
    (m_allocatedSize s > 0 \<or> text_trim cs \<noteq> [] \<longrightarrow> (\<exists>s'. trim pool s = Some s' \<and> represents s' (text_trim cs))) \<and>
    (\<exists>s'. basename pool s = Some s' \<and> represents s' (text_basename cs)) \<and>
    (\<exists>s'. dirname pool s = Some s' \<and> represents s' (text_dirname cs))"
  using assms
  by (intro conjI impI char32At_text lastChar_text subString_text trim_string_text basename_text dirname_text) auto

theorem xstring8_access_witness:
  "\<exists>s'. dirname (\<lambda>n. Some (replicate n 7)) (xstring8_of_literal [0x61, 0x5C, 0x62, 0x5C, 0x63]) = Some s' \<and>
     data s' = [0x61, 0x5C, 0x62]"
proof -
  have e: "units utf8 [0x61, 0x5C, 0x62, 0x5C, 0x63] = [0x61, 0x5C, 0x62, 0x5C, 0x63]" "list_all scalar [0x61, 0x5C, 0x62, 0x5C, 0x63]"
    "units utf8 (text_dirname [0x61, 0x5C, 0x62, 0x5C, 0x63]) = [0x61, 0x5C, 0x62]"
    by code_simp+
  have gp: "good_pool (\<lambda>n. Some (replicate n 7))" by (simp add: good_pool_def)
  have rep: "represents (xstring8_of_literal [0x61, 0x5C, 0x62, 0x5C, 0x63]) [0x61, 0x5C, 0x62, 0x5C, 0x63]"
    using literal_represents [OF e(2)] unfolding e(1) .
  have len: "length [0x61, 0x5C, 0x62, 0x5C, 0x63 :: char32] \<le> MAX_XSIZE" by (simp add: MAX_XSIZE_def)
  have "\<exists>s'. dirname (\<lambda>n. Some (replicate n 7)) (xstring8_of_literal [0x61, 0x5C, 0x62, 0x5C, 0x63]) = Some s' \<and>
      represents s' (text_dirname [0x61, 0x5C, 0x62, 0x5C, 0x63])"
    using xstring8_access [OF gp rep len, of 0 0 0] by (elim conjE)
  then show ?thesis using represents_bytes [OF _ e(3)] by (elim exE conjE) (intro exI conjI)
qed

text \<open>Trimming a literal that consists of blanks stores a terminator into the literal.\<close>
lemma trim_writes_literal: "trim pool (xstring8_of_literal [0x20]) = None"
  by (simp add: trim_def xstring8_of_literal_def string_size_def data_def c_string_def utf8_size_of_utf8_string_def strlen_def
      store_def)

text \<open>Replacing the empty text never ends.\<close>

lemma search_empty: "search_from s [] p = Some (Some p)"
proof -
  have "match_loop get_char32_from_utf8_string get_char32_from_utf8_string False t [] = Some True" for t
    by (subst match_loop.simps) (simp add: decode_nil Let_def split: prod.split)
  then show ?thesis by (simp add: search_from_def indexOf_loop.simps Let_def)
qed

lemma replace_empty_stuck:
  assumes "replace_loop8 pool [] r 0 n pp (Some (Some p)) cs sl s = Some y"
  shows False
proof -
  have "([] :: byte list) = [] \<longrightarrow> Some (Some p) = None \<or> Some (Some p) = Some None"
    by (rule replace_loop8.raw_induct [where P = "\<lambda>pool search r m n pp found cs sl s y. search = [] \<longrightarrow> found = None \<or> found = Some None", OF _ assms])
      (clarsimp simp: Let_def search_empty Option.bind_eq_Some_conv split: option.splits, fastforce)
  then show False by simp
qed

lemma replaceAll_empty_diverges: "replaceAll pool [] r s = None"
  using replace_empty_stuck [of pool r _ 0 0] by (cases "replaceAll pool [] r s") (auto simp: replaceAll_def search_empty utf8_size_of_utf8_string_def strlen_def)

end
