(* ===== verification/Xml_Entities.thy ===== *)
theory Xml_Entities
  imports X_String
begin

text \<open>
  \<open>XMLDecode\<close> of \<open>Platform/plist/xml.cpp\<close>, which replaces the five predefined XML entities.
  The routine may decode in place; it never stores a byte before it has read it
  (\<open>xml_loop_inplace\<close>), so the model returns the stored bytes.
\<close>

definition ascii :: "string \<Rightarrow> byte list" where
  "ascii = map of_char"

definition ents :: "(byte list \<times> byte) list" where
  "ents = [(ascii ''quot;'', 0x22), (ascii ''apos;'', 0x27), (ascii ''lt;'', 0x3C), (ascii ''gt;'', 0x3E), (ascii ''amp;'', 0x26)]"

text \<open>The \<open>for\<close> loop over the table: the length of the first matching name and its value.\<close>

fun find_entity :: "(byte list \<times> byte) list \<Rightarrow> byte list \<Rightarrow> (nat \<times> byte) option" where
  "find_entity [] s = None"
| "find_entity ((name, val) # es) s =
     (if XStringAbstract__ncompare get_char32_from_utf8_string get_char32_from_utf8_string name s (length name) False = 0
      then Some (length name, val) else find_entity es s)"

text \<open>
  \<open>left\<close> is the distance from \<open>s\<close> to the end of the source. The flag of the result tells that
  the routine returned because the output was full.
\<close>

function xml_loop :: "byte list \<Rightarrow> nat \<Rightarrow> byte list \<Rightarrow> nat \<Rightarrow> byte list \<times> bool" where
  "xml_loop s left out outlen =
     (if left > 0 then
        (if at s 0 = 0x26 then
           (case find_entity ents (drop 1 s) of
              Some (nameLen, val) \<Rightarrow>
                if length out \<ge> outlen then (out, True)
                else xml_loop (drop nameLen (drop 1 s)) (left - 1 - nameLen) (out @ [val]) outlen
            | None \<Rightarrow>
                if length out \<ge> outlen then (out, True)
                else xml_loop (drop 1 (drop 1 s)) (left - 1 - 1) (out @ [at (drop 1 s) 0]) outlen)
         else if length out \<ge> outlen then (out, True)
         else xml_loop (drop 1 s) (left - 1) (out @ [at s 0]) outlen)
      else (out, False))"
  by pat_completeness auto
termination
  by (relation "measure (\<lambda>(_, left, _, _). left)") auto

declare xml_loop.simps [simp del]

text \<open>The bytes stored from \<open>out\<close> on and the reported length.\<close>

definition XMLDecode :: "byte list option \<Rightarrow> nat \<Rightarrow> nat \<Rightarrow> byte list \<times> nat" where
  "XMLDecode src srclen outlen =
     (case src of None \<Rightarrow> (if outlen > 0 then [0] else [], 0)
      | Some s \<Rightarrow> (case xml_loop s srclen [] outlen of (out, full) \<Rightarrow>
          (if \<not> full \<and> length out < outlen then out @ [0] else out, length out)))"

section \<open>Entities\<close>

definition xml_escape :: "byte \<Rightarrow> byte list" where
  "xml_escape b =
     (if b = 0x22 then ascii ''&quot;'' else if b = 0x27 then ascii ''&apos;'' else if b = 0x3C then ascii ''&lt;''
      else if b = 0x3E then ascii ''&gt;'' else if b = 0x26 then ascii ''&amp;'' else [b])"

lemma ascii_eval:
  "ascii ''quot;'' = [0x71, 0x75, 0x6F, 0x74, 0x3B]" "ascii ''apos;'' = [0x61, 0x70, 0x6F, 0x73, 0x3B]"
  "ascii ''lt;'' = [0x6C, 0x74, 0x3B]" "ascii ''gt;'' = [0x67, 0x74, 0x3B]" "ascii ''amp;'' = [0x61, 0x6D, 0x70, 0x3B]"
  "ascii (CHR ''&'' # s) = 0x26 # ascii s"
  by (simp_all add: ascii_def)

lemma ascii_read: "b \<noteq> 0 \<Longrightarrow> b AND 0x80 = 0 \<Longrightarrow> get_char32_from_utf8_string (b # s) = (s, ucast b)"
  by (simp add: get_char32_from_utf8_string_def)

lemma entity_found:
  "find_entity ents (ascii ''quot;'' @ s) = Some (length (ascii ''quot;''), 0x22)"
  "find_entity ents (ascii ''apos;'' @ s) = Some (length (ascii ''apos;''), 0x27)"
  "find_entity ents (ascii ''lt;'' @ s) = Some (length (ascii ''lt;''), 0x3C)"
  "find_entity ents (ascii ''gt;'' @ s) = Some (length (ascii ''gt;''), 0x3E)"
  "find_entity ents (ascii ''amp;'' @ s) = Some (length (ascii ''amp;''), 0x26)"
  by (simp_all add: ents_def ascii_eval XStringAbstract__ncompare_def ascii_read Let_def fold_case_def)

lemma xml_loop_full: "left > 0 \<Longrightarrow> length out \<ge> outlen \<Longrightarrow> xml_loop s left out outlen = (out, True)"
  by (subst xml_loop.simps) (auto split: option.split)

lemma xml_loop_done: "xml_loop s 0 out outlen = (out, False)"
  by (simp add: xml_loop.simps)

lemma xml_loop_escape:
  assumes "b \<noteq> 0" "length out < outlen"
  shows "xml_loop (xml_escape b @ s) (length (xml_escape b) + k) out outlen = xml_loop s k (out @ [b]) outlen"
proof -
  have e: "xml_loop (0x26 # name @ s) (Suc (length name) + k) out outlen = xml_loop s k (out @ [v]) outlen"
    if "find_entity ents (name @ s) = Some (length name, v)" for name v
    using that assms(2) by (subst xml_loop.simps) simp
  consider "b = 0x22" | "b = 0x27" | "b = 0x3C" | "b = 0x3E" | "b = 0x26"
    | "b \<noteq> 0x22" "b \<noteq> 0x27" "b \<noteq> 0x3C" "b \<noteq> 0x3E" "b \<noteq> 0x26" by blast
  then show ?thesis
  proof cases
    case 1
    then show ?thesis using e [OF entity_found(1)] by (simp add: xml_escape_def ascii_eval(6))
  next
    case 2
    then show ?thesis using e [OF entity_found(2)] by (simp add: xml_escape_def ascii_eval(6))
  next
    case 3
    then show ?thesis using e [OF entity_found(3)] by (simp add: xml_escape_def ascii_eval(6))
  next
    case 4
    then show ?thesis using e [OF entity_found(4)] by (simp add: xml_escape_def ascii_eval(6))
  next
    case 5
    then show ?thesis using e [OF entity_found(5)] by (simp add: xml_escape_def ascii_eval(6))
  next
    case 6
    then show ?thesis using assms(2) by (subst xml_loop.simps) (simp add: xml_escape_def)
  qed
qed

lemma xml_loop_escaped:
  "0 \<notin> set t \<Longrightarrow> length out + length t \<le> outlen \<Longrightarrow>
   xml_loop (concat (map xml_escape t) @ s) (length (concat (map xml_escape t)) + k) out outlen = xml_loop s k (out @ t) outlen"
proof (induction t arbitrary: out)
  case (Cons b t)
  then have "b \<noteq> 0" "length out < outlen" by auto
  from xml_loop_escape [OF this] Cons show ?case by (simp add: add.assoc)
qed simp

lemma xml_loop_verbatim:
  "0x26 \<notin> set t \<Longrightarrow> length out + length t \<le> outlen \<Longrightarrow>
   xml_loop (t @ s) (length t + k) out outlen = xml_loop s k (out @ t) outlen"
proof (induction t arbitrary: out)
  case (Cons b t)
  then show ?case by (subst xml_loop.simps) simp
qed simp

lemma xml_loop_step:
  assumes "left > 0" "length out < outlen"
  shows "\<exists>s' left' b. left' < left \<and> xml_loop s left out outlen = xml_loop s' left' (out @ [b]) outlen"
proof -
  have l: "left - 1 - k < left" "left - 1 < left" for k using assms(1) by auto
  have "xml_loop s left out outlen =
    (if at s 0 = 0x26 then
       (case find_entity ents (drop 1 s) of
          Some (nameLen, val) \<Rightarrow> xml_loop (drop nameLen (drop 1 s)) (left - 1 - nameLen) (out @ [val]) outlen
        | None \<Rightarrow> xml_loop (drop 1 (drop 1 s)) (left - 1 - 1) (out @ [at (drop 1 s) 0]) outlen)
     else xml_loop (drop 1 s) (left - 1) (out @ [at s 0]) outlen)"
    using assms by (subst xml_loop.simps) (simp split: option.split)
  then show ?thesis
    using l by (cases "at s 0 = 0x26"; cases "find_entity ents (drop 1 s)") (auto simp del: diff_diff_left)
qed

lemma xml_loop_inplace:
  "length (fst (xml_loop s left out outlen)) \<le> length out + left \<and>
   (length out \<le> outlen \<longrightarrow> length (fst (xml_loop s left out outlen)) \<le> outlen)"
proof (induction left arbitrary: s out rule: less_induct)
  case (less left)
  show ?case
  proof (cases "left = 0 \<or> length out \<ge> outlen")
    case True
    then show ?thesis by (cases "left = 0") (auto simp: xml_loop_done xml_loop_full)
  next
    case False
    then obtain s' left' b where "left' < left" "xml_loop s left out outlen = xml_loop s' left' (out @ [b]) outlen"
      using xml_loop_step [of left out outlen s] by auto
    then show ?thesis using less.IH [of left' s' "out @ [b]"] False by auto
  qed
qed

section \<open>Properties\<close>

text \<open>
  C28: \<open>XMLDecode\<close> undoes the escaping of the five special characters, and leaves text
  without an ampersand as it is: with room for the result and its terminator the decoded
  bytes are the original ones, and the terminator follows.
\<close>
theorem XMLDecode_correct:
  assumes "0 \<notin> set t" and "length t < outlen"
  shows "XMLDecode (Some (concat (map xml_escape t))) (length (concat (map xml_escape t))) outlen = (t @ [0], length t) \<and>
    (0x26 \<notin> set t \<longrightarrow> XMLDecode (Some t) (length t) outlen = (t @ [0], length t))"
  using assms xml_loop_escaped [of t "[]" outlen "[]" 0] xml_loop_verbatim [of t "[]" outlen "[]" 0]
  by (simp add: XMLDecode_def xml_loop_done)

theorem XMLDecode_correct_witness:
  "XMLDecode (Some (ascii ''a&lt;b&amp;'')) 11 5 = ([0x61, 0x3C, 0x62, 0x26, 0], 4)"
proof -
  have "concat (map xml_escape [0x61, 0x3C, 0x62, 0x26]) = ascii ''a&lt;b&amp;''" "length (ascii ''a&lt;b&amp;'') = 11"
    by code_simp+
  moreover have "0 \<notin> set [0x61, 0x3C, 0x62, 0x26 :: byte]" "length [0x61, 0x3C, 0x62, 0x26 :: byte] < 5" by simp_all
  ultimately have "XMLDecode (Some (ascii ''a&lt;b&amp;'')) 11 5 = ([0x61, 0x3C, 0x62, 0x26] @ [0], length [0x61, 0x3C, 0x62, 0x26 :: byte])"
    using XMLDecode_correct [of "[0x61, 0x3C, 0x62, 0x26]" 5] by metis
  then show ?thesis by simp
qed

text \<open>
  C29: Decoding in place is safe: the reported length, and the stored bytes without the
  terminator, never exceed the source length, and nothing is stored at or behind \<open>outlen\<close>.
\<close>
theorem XMLDecode_bounds:
  "snd (XMLDecode (Some s) srclen outlen) \<le> srclen \<and> snd (XMLDecode (Some s) srclen outlen) \<le> outlen \<and>
   length (fst (XMLDecode (Some s) srclen outlen)) \<le> outlen"
  using xml_loop_inplace [of s srclen "[]" outlen]
  by (cases "xml_loop s srclen [] outlen") (simp add: XMLDecode_def)

text \<open>An ampersand that starts no known entity is dropped.\<close>
lemma XMLDecode_unknown_entity: "XMLDecode (Some (ascii ''a&b'')) 3 4 = (ascii ''ab'' @ [0], 2)"
  by code_simp

text \<open>An ampersand at the very end makes the routine copy the terminator as text.\<close>
lemma XMLDecode_final_ampersand: "XMLDecode (Some (ascii ''a&'')) 2 3 = (ascii ''a'' @ [0, 0], 2)"
  by code_simp

end
