(* ===== verification/Base_Numbers.thy ===== *)
theory Base_Numbers
  imports Unicode_Char
begin

text \<open>
  The conversions of decimal and hexadecimal strings to numbers, from
  \<open>MdePkg/Library/BaseLib/String.c\<close> and \<open>SafeString.c\<close> as this repository builds them: the
  tests for a number that is too large are commented out, so the value wraps around. The
  code has every routine four times, for 8-bit and 16-bit characters and for \<open>UINTN\<close> and
  \<open>UINT64\<close>, which are the same type on X64; \<open>MultU64x32\<close> and \<open>LShiftU64\<close> are the product
  and the shift of 64-bit words. A string is the list of the units before its terminator,
  \<open>None\<close> a null pointer. \<open>ASSERT\<close> is empty, as in a release build.
\<close>

section \<open>Characters\<close>

definition InternalIsDecimalDigitCharacter :: "char16 \<Rightarrow> bool" where
  "InternalIsDecimalDigitCharacter Chr \<longleftrightarrow> Chr \<ge> 0x30 \<and> Chr \<le> 0x39"

definition CharToUpper :: "char16 \<Rightarrow> char16" where
  "CharToUpper Chr = (if Chr \<ge> 0x61 \<and> Chr \<le> 0x7A then Chr - (0x61 - 0x41) else Chr)"

definition InternalHexCharToUintn :: "char16 \<Rightarrow> uintn" where
  "InternalHexCharToUintn Chr =
     (if InternalIsDecimalDigitCharacter Chr then ucast Chr - 0x30
      else 10 + ucast (CharToUpper Chr) - 0x41)"

definition InternalIsHexaDecimalDigitCharacter :: "char16 \<Rightarrow> bool" where
  "InternalIsHexaDecimalDigitCharacter Chr \<longleftrightarrow>
     InternalIsDecimalDigitCharacter Chr \<or> (Chr \<ge> 0x41 \<and> Chr \<le> 0x46) \<or> (Chr \<ge> 0x61 \<and> Chr \<le> 0x66)"

definition InternalAsciiIsDecimalDigitCharacter :: "byte \<Rightarrow> bool" where
  "InternalAsciiIsDecimalDigitCharacter Chr \<longleftrightarrow> Chr \<ge> 0x30 \<and> Chr \<le> 0x39"

definition InternalAsciiIsHexaDecimalDigitCharacter :: "byte \<Rightarrow> bool" where
  "InternalAsciiIsHexaDecimalDigitCharacter Chr \<longleftrightarrow>
     InternalAsciiIsDecimalDigitCharacter Chr \<or> (Chr \<ge> 0x41 \<and> Chr \<le> 0x46) \<or> (Chr \<ge> 0x61 \<and> Chr \<le> 0x66)"

definition AsciiCharToUpper :: "byte \<Rightarrow> byte" where
  "AsciiCharToUpper Chr = (if Chr \<ge> 0x61 \<and> Chr \<le> 0x7A then Chr - (0x61 - 0x41) else Chr)"

text \<open>The argument is a signed \<open>CHAR8\<close>, which the call of the 16-bit test extends.\<close>

definition InternalAsciiHexCharToUintn :: "byte \<Rightarrow> uintn" where
  "InternalAsciiHexCharToUintn Chr =
     (if InternalIsDecimalDigitCharacter (scast Chr) then ucast Chr - 0x30
      else 10 + ucast (AsciiCharToUpper Chr) - 0x41)"

section \<open>Conversion\<close>

abbreviation pad :: "'a :: len word \<Rightarrow> bool" where
  "pad b \<equiv> unat b = 0x20 \<or> unat b = 0x09"

abbreviation zero_digit :: "'a :: len word \<Rightarrow> bool" where
  "zero_digit b \<equiv> unat b = 0x30"

fun decimal_digits :: "('a :: len word \<Rightarrow> bool) \<Rightarrow> uintn \<Rightarrow> 'a word list \<Rightarrow> uintn \<times> 'a word list" where
  "decimal_digits is_dec Data [] = (Data, [])"
| "decimal_digits is_dec Data (b # String) =
     (if is_dec b then decimal_digits is_dec (Data * 10 + (ucast b - 0x30)) String else (Data, b # String))"

fun hex_digits ::
  "('a :: len word \<Rightarrow> bool) \<Rightarrow> ('a word \<Rightarrow> uintn) \<Rightarrow> uintn \<Rightarrow> 'a word list \<Rightarrow> uintn \<times> 'a word list" where
  "hex_digits is_hex hex_value Data [] = (Data, [])"
| "hex_digits is_hex hex_value Data (b # String) =
     (if is_hex b then hex_digits is_hex hex_value (push_bit 4 Data + hex_value b) String else (Data, b # String))"

text \<open>
  The common body of the decimal routines: the status, the end pointer (\<open>None\<close> when it is
  not stored) and \<open>*Data\<close>. The argument \<open>Data\<close> is \<open>None\<close> for a null pointer and the old value
  otherwise.
\<close>

definition decimal_conversion ::
  "('a :: len word \<Rightarrow> bool) \<Rightarrow> 'a word list option \<Rightarrow> uintn option \<Rightarrow> efi_status \<times> 'a word list option \<times> uintn option" where
  "decimal_conversion is_dec String Data =
     (case (String, Data) of
        (Some s, Some _) \<Rightarrow>
          (let s1 = dropWhile pad s; s2 = dropWhile zero_digit s1 in
           case decimal_digits is_dec 0 s2 of (d, rest) \<Rightarrow> (EFI_SUCCESS, Some rest, Some d))
      | _ \<Rightarrow> (EFI_INVALID_PARAMETER, None, Data))"

text \<open>
  The common body of the hexadecimal routines. In front of an \<open>x\<close> it reads the character
  before it; at the start of the string that is outside the string, the value \<open>None\<close>. The
  end pointer is the start of the string when the routine returns early.
\<close>

definition hex_conversion ::
  "('a :: len word \<Rightarrow> bool) \<Rightarrow> ('a word \<Rightarrow> uintn) \<Rightarrow> ('a word \<Rightarrow> 'a word) \<Rightarrow>
     'a word list option \<Rightarrow> uintn option \<Rightarrow> (efi_status \<times> 'a word list option \<times> uintn option) option" where
  "hex_conversion is_hex hex_value to_upper String Data =
     (case (String, Data) of
        (Some s, Some _) \<Rightarrow>
          (let s1 = dropWhile pad s; s2 = dropWhile zero_digit s1 in
           if unat (to_upper (at s2 0)) = 0x58 then
             (if length s2 = length s then None
              else if \<not> zero_digit (s ! (length s - length s2 - 1)) then Some (EFI_SUCCESS, Some s, Some 0)
              else (case hex_digits is_hex hex_value 0 (drop 1 s2) of (d, rest) \<Rightarrow> Some (EFI_SUCCESS, Some rest, Some d)))
           else (case hex_digits is_hex hex_value 0 s2 of (d, rest) \<Rightarrow> Some (EFI_SUCCESS, Some rest, Some d)))
      | _ \<Rightarrow> Some (EFI_INVALID_PARAMETER, None, Data))"

definition StrDecimalToUintnS :: "char16 list option \<Rightarrow> uintn option \<Rightarrow> efi_status \<times> char16 list option \<times> uintn option" where
  "StrDecimalToUintnS = decimal_conversion InternalIsDecimalDigitCharacter"

definition StrDecimalToUint64S :: "char16 list option \<Rightarrow> uintn option \<Rightarrow> efi_status \<times> char16 list option \<times> uintn option" where
  "StrDecimalToUint64S = decimal_conversion InternalIsDecimalDigitCharacter"

definition StrHexToUintnS :: "char16 list option \<Rightarrow> uintn option \<Rightarrow> (efi_status \<times> char16 list option \<times> uintn option) option" where
  "StrHexToUintnS = hex_conversion InternalIsHexaDecimalDigitCharacter InternalHexCharToUintn CharToUpper"

definition StrHexToUint64S :: "char16 list option \<Rightarrow> uintn option \<Rightarrow> (efi_status \<times> char16 list option \<times> uintn option) option" where
  "StrHexToUint64S = hex_conversion InternalIsHexaDecimalDigitCharacter InternalHexCharToUintn CharToUpper"

definition AsciiStrDecimalToUintnS :: "byte list option \<Rightarrow> uintn option \<Rightarrow> efi_status \<times> byte list option \<times> uintn option" where
  "AsciiStrDecimalToUintnS = decimal_conversion InternalAsciiIsDecimalDigitCharacter"

definition AsciiStrDecimalToUint64S :: "byte list option \<Rightarrow> uintn option \<Rightarrow> efi_status \<times> byte list option \<times> uintn option" where
  "AsciiStrDecimalToUint64S = decimal_conversion InternalAsciiIsDecimalDigitCharacter"

definition AsciiStrHexToUintnS :: "byte list option \<Rightarrow> uintn option \<Rightarrow> (efi_status \<times> byte list option \<times> uintn option) option" where
  "AsciiStrHexToUintnS = hex_conversion InternalAsciiIsHexaDecimalDigitCharacter InternalAsciiHexCharToUintn AsciiCharToUpper"

definition AsciiStrHexToUint64S :: "byte list option \<Rightarrow> uintn option \<Rightarrow> (efi_status \<times> byte list option \<times> uintn option) option" where
  "AsciiStrHexToUint64S = hex_conversion InternalAsciiIsHexaDecimalDigitCharacter InternalAsciiHexCharToUintn AsciiCharToUpper"

text \<open>The routines of \<open>String.c\<close> return the number, and 0 for a null pointer.\<close>

fun number_or_zero :: "efi_status \<times> 'a list option \<times> uintn option \<Rightarrow> uintn" where
  "number_or_zero (Status, _, Result) =
     (if Status \<noteq> EFI_SUCCESS then 0 else case Result of None \<Rightarrow> 0 | Some d \<Rightarrow> d)"

definition StrDecimalToUintn :: "char16 list option \<Rightarrow> uintn" where
  "StrDecimalToUintn String = number_or_zero (StrDecimalToUintnS String (Some 0))"

definition StrDecimalToUint64 :: "char16 list option \<Rightarrow> uintn" where
  "StrDecimalToUint64 String = number_or_zero (StrDecimalToUint64S String (Some 0))"

definition StrHexToUintn :: "char16 list option \<Rightarrow> uintn option" where
  "StrHexToUintn String = map_option number_or_zero (StrHexToUintnS String (Some 0))"

definition StrHexToUint64 :: "char16 list option \<Rightarrow> uintn option" where
  "StrHexToUint64 String = map_option number_or_zero (StrHexToUint64S String (Some 0))"

definition AsciiStrDecimalToUintn :: "byte list option \<Rightarrow> uintn" where
  "AsciiStrDecimalToUintn String = number_or_zero (AsciiStrDecimalToUintnS String (Some 0))"

definition AsciiStrDecimalToUint64 :: "byte list option \<Rightarrow> uintn" where
  "AsciiStrDecimalToUint64 String = number_or_zero (AsciiStrDecimalToUint64S String (Some 0))"

definition AsciiStrHexToUintn :: "byte list option \<Rightarrow> uintn option" where
  "AsciiStrHexToUintn String = map_option number_or_zero (AsciiStrHexToUintnS String (Some 0))"

definition AsciiStrHexToUint64 :: "byte list option \<Rightarrow> uintn option" where
  "AsciiStrHexToUint64 String = map_option number_or_zero (AsciiStrHexToUint64S String (Some 0))"

lemmas number_defs = StrDecimalToUintnS_def StrDecimalToUint64S_def StrHexToUintnS_def StrHexToUint64S_def
  AsciiStrDecimalToUintnS_def AsciiStrDecimalToUint64S_def AsciiStrHexToUintnS_def AsciiStrHexToUint64S_def
  StrDecimalToUintn_def StrDecimalToUint64_def StrHexToUintn_def StrHexToUint64_def
  AsciiStrDecimalToUintn_def AsciiStrDecimalToUint64_def AsciiStrHexToUintn_def AsciiStrHexToUint64_def

section \<open>Numbers\<close>

text \<open>The number a list of digits denotes.\<close>

definition numeral_value :: "nat \<Rightarrow> ('a :: len word \<Rightarrow> nat) \<Rightarrow> 'a word list \<Rightarrow> nat" where
  "numeral_value base digit ds = foldl (\<lambda>n d. n * base + digit d) 0 ds"

definition decimal_digit :: "'a :: len word \<Rightarrow> nat" where
  "decimal_digit b = unat b - 0x30"

definition hex_digit :: "'a :: len word \<Rightarrow> nat" where
  "hex_digit b = (if unat b \<le> 0x39 then unat b - 0x30 else if unat b \<le> 0x46 then unat b - 0x37 else unat b - 0x57)"

text \<open>Leading zeros do not change the number.\<close>

lemma leading_zeros:
  fixes digit :: "'a :: len word \<Rightarrow> nat"
  assumes "\<And>b. zero_digit b \<Longrightarrow> digit b = 0"
  shows "foldl (\<lambda>n d. n * base + digit d) 0 (dropWhile zero_digit ds) = foldl (\<lambda>n d. n * base + digit d) 0 ds"
  by (induction ds) (simp_all add: assms)

text \<open>
  What the conversions need of the character routines; the two widths provide it.
\<close>

locale digit_characters =
  fixes is_dec is_hex :: "'a :: len word \<Rightarrow> bool" and hex_value :: "'a word \<Rightarrow> uintn" and to_upper :: "'a word \<Rightarrow> 'a word"
  assumes is_dec: "is_dec c \<longleftrightarrow> 0x30 \<le> unat c \<and> unat c \<le> 0x39"
    and is_hex: "is_hex c \<longleftrightarrow> is_dec c \<or> 0x41 \<le> unat c \<and> unat c \<le> 0x46 \<or> 0x61 \<le> unat c \<and> unat c \<le> 0x66"
    and hex_value: "is_hex c \<Longrightarrow> hex_value c = word_of_nat (hex_digit c)"
    and is_x: "unat (to_upper c) = 0x58 \<longleftrightarrow> unat c = 0x58 \<or> unat c = 0x78"
begin

lemma decimal_value: "is_dec b \<Longrightarrow> (ucast b - 0x30 :: uintn) = word_of_nat (decimal_digit b)"
  by (simp add: is_dec decimal_digit_def of_nat_diff)

lemma decimal_digits_run:
  assumes "list_all is_dec ds" "rest = [] \<or> \<not> is_dec (hd rest)"
  shows "decimal_digits is_dec (word_of_nat n) (ds @ rest) = (word_of_nat (foldl (\<lambda>n d. n * 10 + decimal_digit d) n ds), rest)"
  using assms(1)
proof (induction ds arbitrary: n)
  case Nil
  then show ?case using assms(2) by (cases rest) auto
next
  case (Cons d ds)
  have "word_of_nat n * 10 + (ucast d - 0x30) = (word_of_nat (n * 10 + decimal_digit d) :: uintn)"
    using Cons.prems by (simp add: decimal_value)
  then show ?case using Cons by (simp del: of_nat_add of_nat_mult)
qed

lemma hex_digits_run:
  assumes "list_all is_hex ds" "rest = [] \<or> \<not> is_hex (hd rest)"
  shows "hex_digits is_hex hex_value (word_of_nat n) (ds @ rest) = (word_of_nat (foldl (\<lambda>n d. n * 16 + hex_digit d) n ds), rest)"
  using assms(1)
proof (induction ds arbitrary: n)
  case Nil
  then show ?case using assms(2) by (cases rest) auto
next
  case (Cons d ds)
  have "push_bit 4 (word_of_nat n) + hex_value d = (word_of_nat (n * 16 + hex_digit d) :: uintn)"
    using Cons.prems by (simp add: hex_value push_bit_eq_mult)
  then show ?case using Cons by (simp del: of_nat_add of_nat_mult)
qed

lemma skip_pads:
  assumes "list_all pad ps" "t \<noteq> []" "\<not> pad (hd t)"
  shows "dropWhile pad (ps @ t) = t"
  using assms by (induction ps) (cases t; auto)+

text \<open>Zeros are skipped without effect, also when they are all the digits there are.\<close>

lemma skip_zeros:
  assumes "list_all is_dec ds" "rest = [] \<or> \<not> is_dec (hd rest)"
  shows "dropWhile zero_digit (ds @ rest) = dropWhile zero_digit ds @ rest"
proof (cases "list_all zero_digit ds")
  case True
  then show ?thesis using assms(2) by (induction ds) (cases rest; auto simp: is_dec)+
next
  case False
  then show ?thesis by (induction ds) auto
qed

lemma skip_zeros_hex:
  assumes "rest = [] \<or> \<not> is_hex (hd rest)"
  shows "dropWhile zero_digit (ds @ rest) = dropWhile zero_digit ds @ rest"
proof (cases "list_all zero_digit ds")
  case True
  then show ?thesis using assms by (induction ds) (cases rest; auto simp: is_dec is_hex)+
next
  case False
  then show ?thesis by (induction ds) auto
qed

lemma decimal_number:
  assumes "list_all pad ps" "list_all is_dec ds" "ds \<noteq> []" "rest = [] \<or> \<not> is_dec (hd rest)"
  shows "decimal_conversion is_dec (Some (ps @ ds @ rest)) (Some v) =
    (EFI_SUCCESS, Some rest, Some (word_of_nat (numeral_value 10 decimal_digit ds)))"
proof -
  have "list_all is_dec (dropWhile zero_digit ds)"
    using assms(2) by (auto simp: list_all_iff dest: set_dropWhileD)
  then have "decimal_digits is_dec 0 (dropWhile zero_digit (ds @ rest)) = (word_of_nat (numeral_value 10 decimal_digit ds), rest)"
    using decimal_digits_run [of "dropWhile zero_digit ds" rest 0] assms(4) leading_zeros [of decimal_digit 10 ds]
      skip_zeros [OF assms(2,4)]
    by (simp add: numeral_value_def decimal_digit_def)
  moreover have "dropWhile pad (ps @ ds @ rest) = ds @ rest"
    using assms by (intro skip_pads) (cases ds; auto simp: is_dec)+
  ultimately show ?thesis by (simp add: decimal_conversion_def)
qed

lemma hex_number:
  assumes "list_all pad ps" "list_all zero_digit zs" "zs \<noteq> []" "unat x = 0x58 \<or> unat x = 0x78" "list_all is_hex hs"
    "rest = [] \<or> \<not> is_hex (hd rest)"
  shows "hex_conversion is_hex hex_value to_upper (Some (ps @ zs @ x # hs @ rest)) (Some v) =
    Some (EFI_SUCCESS, Some rest, Some (word_of_nat (numeral_value 16 hex_digit hs)))"
proof -
  let ?s = "ps @ zs @ x # hs @ rest"
  have "dropWhile zero_digit (zs @ x # hs @ rest) = x # hs @ rest" using assms(2,4) by (induction zs) auto
  moreover have "dropWhile pad ?s = zs @ x # hs @ rest"
    using assms by (intro skip_pads) (cases zs; auto)+
  moreover have "unat (?s ! (length ps + length zs - 1)) = 0x30"
    using assms(2,3) by (cases zs rule: rev_cases) (auto simp: nth_append)
  moreover have "unat (to_upper x) = 0x58" using assms(4) is_x by simp
  moreover have "at (x # t) 0 = x" for t by (simp add: at_def)
  ultimately show ?thesis
    using hex_digits_run [OF assms(5,6), of 0] assms(3)
    by (simp add: hex_conversion_def numeral_value_def Let_def)
qed

text \<open>Without a prefix: digits that do not end in front of an \<open>x\<close>.\<close>

lemma hex_plain:
  assumes "list_all pad ps" "list_all is_hex hs" "hs \<noteq> []" "rest = [] \<or> \<not> is_hex (hd rest) \<and> unat (hd rest) \<notin> {0x58, 0x78}"
  shows "hex_conversion is_hex hex_value to_upper (Some (ps @ hs @ rest)) (Some v) =
    Some (EFI_SUCCESS, Some rest, Some (word_of_nat (numeral_value 16 hex_digit hs)))"
proof -
  have all: "list_all is_hex (dropWhile zero_digit hs)"
    using assms(2) by (auto simp: list_all_iff dest: set_dropWhileD)
  have r: "rest = [] \<or> \<not> is_hex (hd rest)" using assms(4) by blast
  have eq: "dropWhile zero_digit (hs @ rest) = dropWhile zero_digit hs @ rest" by (rule skip_zeros_hex [OF r])
  moreover have "hex_digits is_hex hex_value 0 (dropWhile zero_digit hs @ rest) = (word_of_nat (numeral_value 16 hex_digit hs), rest)"
    using hex_digits_run [OF all r, of 0] leading_zeros [of hex_digit 16 hs] by (simp add: numeral_value_def hex_digit_def)
  moreover have "dropWhile pad (ps @ hs @ rest) = hs @ rest"
    using assms by (intro skip_pads) (cases hs; auto simp: is_dec is_hex)+
  moreover have "unat (to_upper (at (t @ rest) 0)) \<noteq> 0x58" if "list_all is_hex t" for t
    using assms(4) that by (cases t; cases rest) (auto simp: is_x at_def is_hex is_dec)
  with all have "unat (to_upper (at (dropWhile zero_digit hs @ rest) 0)) \<noteq> 0x58" by blast
  ultimately show ?thesis by (simp add: hex_conversion_def Let_def)
qed

end

text \<open>The test through the 16-bit routine is the 8-bit test, for negative characters as well.\<close>

lemma all_bytes_digit:
  "\<forall>c :: byte. InternalIsDecimalDigitCharacter (scast c) = InternalAsciiIsDecimalDigitCharacter c"
  by code_simp

lemma all_bytes_x: "\<forall>c :: byte. unat (AsciiCharToUpper c) = 0x58 \<longleftrightarrow> unat c = 0x58 \<or> unat c = 0x78"
  by code_simp

lemma all_bytes_hex:
  "\<forall>c :: byte. InternalAsciiIsHexaDecimalDigitCharacter c \<longrightarrow> InternalAsciiHexCharToUintn c = word_of_nat (hex_digit c)"
  by code_simp

interpretation ascii_digits: digit_characters InternalAsciiIsDecimalDigitCharacter InternalAsciiIsHexaDecimalDigitCharacter
  InternalAsciiHexCharToUintn AsciiCharToUpper
  by unfold_locales
    (auto simp: InternalAsciiIsDecimalDigitCharacter_def InternalAsciiIsHexaDecimalDigitCharacter_def word_le_nat_alt
      all_bytes_x all_bytes_hex)

lemma upper16: "unat (CharToUpper c) = (if 0x61 \<le> unat c \<and> unat c \<le> 0x7A then unat c - 32 else unat c)"
  by (auto simp: CharToUpper_def word_le_nat_alt unat_sub_if')

lemma hex16:
  assumes "InternalIsHexaDecimalDigitCharacter c"
  shows "InternalHexCharToUintn c = word_of_nat (hex_digit c)"
proof -
  have "(ucast (CharToUpper c) :: uintn) = word_of_nat (unat (CharToUpper c))" by simp
  then show ?thesis using assms
    unfolding InternalHexCharToUintn_def InternalIsHexaDecimalDigitCharacter_def InternalIsDecimalDigitCharacter_def hex_digit_def upper16
    by (auto simp: word_le_nat_alt of_nat_diff)
qed

interpretation unicode_digits: digit_characters InternalIsDecimalDigitCharacter InternalIsHexaDecimalDigitCharacter
  InternalHexCharToUintn CharToUpper
  by unfold_locales
    (auto simp: InternalIsDecimalDigitCharacter_def InternalIsHexaDecimalDigitCharacter_def word_le_nat_alt upper16 hex16)

lemma unat_widen [simp]: "unat (ucast (b :: byte) :: char16) = unat b"
  using unat_byte_less [of b] by (simp add: unsigned_ucast_eq take_bit_nat_eq_self del: unat_byte_less)

lemma widen_digit [simp]:
  "InternalIsDecimalDigitCharacter (ucast (b :: byte)) = InternalAsciiIsDecimalDigitCharacter b"
  "InternalIsHexaDecimalDigitCharacter (ucast (b :: byte)) = InternalAsciiIsHexaDecimalDigitCharacter b"
  by (simp_all add: unicode_digits.is_dec unicode_digits.is_hex ascii_digits.is_dec ascii_digits.is_hex)

lemma widen_numeral [simp]:
  "numeral_value 10 decimal_digit (map ucast (ds :: byte list) :: char16 list) = numeral_value 10 decimal_digit ds"
  "numeral_value 16 hex_digit (map ucast (ds :: byte list) :: char16 list) = numeral_value 16 hex_digit ds"
  unfolding numeral_value_def foldl_map decimal_digit_def hex_digit_def unat_widen by simp_all

section \<open>Properties\<close>



text \<open>The documentation promises the greatest number when the value does not fit; the code wraps around.\<close>
lemma decimal_wraps: "AsciiStrDecimalToUintn (Some (map of_char ''18446744073709551617'')) = 1"
  by code_simp

text \<open>A string that starts with \<open>x\<close> makes the routine read the character in front of the string.\<close>
lemma hex_reads_before: "AsciiStrHexToUintn (Some (map of_char ''x1'')) = None"
  by code_simp

end
