(* ===== verification/Base_Safe_Strings.thy ===== *)
theory Base_Safe_Strings
  imports Base_Numbers
begin

text \<open>
  The length, copy and concatenation routines of \<open>MdePkg/Library/BaseLib/SafeString.c\<close>, which
  this repository has changed: most checks are commented out and a string that does not fit
  is cut instead of refused.

  The routines that copy between strings of one width do not check for overlap, so both
  strings live in one memory: a list of units, with \<open>Destination\<close> and \<open>Source\<close> as positions in
  it (\<open>None\<close> is a null pointer). The routines that change the width read one memory and write
  another. Reading or writing outside the memory is the result \<open>None\<close>.
\<close>

section \<open>Lengths\<close>

function strn_len :: "'u :: zero list \<Rightarrow> nat \<Rightarrow> nat \<Rightarrow> uintn \<Rightarrow> uintn option" where
  "strn_len mem String Length MaxSize =
     (if String + Length \<ge> length mem then None
      else if mem ! (String + Length) = 0 then Some (word_of_nat Length)
      else if word_of_nat Length \<ge> MaxSize - 1 then Some MaxSize
      else strn_len mem String (Length + 1) MaxSize)"
  by pat_completeness auto
termination
  by (relation "measure (\<lambda>(mem, String, Length, _). length mem - (String + Length))") auto

declare strn_len.simps [simp del]

definition StrnLenS :: "char16 list \<Rightarrow> nat option \<Rightarrow> uintn \<Rightarrow> uintn option" where
  "StrnLenS mem String MaxSize = (case String of None \<Rightarrow> Some 0 | Some p \<Rightarrow> strn_len mem p 0 MaxSize)"

definition AsciiStrnLenS :: "byte list \<Rightarrow> nat option \<Rightarrow> uintn \<Rightarrow> uintn option" where
  "AsciiStrnLenS mem String MaxSize = (case String of None \<Rightarrow> Some 0 | Some p \<Rightarrow> strn_len mem p 0 MaxSize)"

definition StrnSizeS :: "char16 list \<Rightarrow> nat option \<Rightarrow> uintn \<Rightarrow> uintn option" where
  "StrnSizeS mem String MaxSize =
     (if String = None then Some 0 else map_option (\<lambda>n. (n + 1) * 2) (StrnLenS mem String MaxSize))"

definition AsciiStrnSizeS :: "byte list \<Rightarrow> nat option \<Rightarrow> uintn \<Rightarrow> uintn option" where
  "AsciiStrnSizeS mem String MaxSize =
     (if String = None then Some 0 else map_option (\<lambda>n. n + 1) (AsciiStrnLenS mem String MaxSize))"

section \<open>Copying inside one memory\<close>

definition put :: "'u list \<Rightarrow> nat \<Rightarrow> 'u \<Rightarrow> 'u list option" where
  "put mem p c = (if p < length mem then Some (mem[p := c]) else None)"

text \<open>\<open>while ((*Source != 0) && (--DestMax > 0))\<close> and the terminator behind the copy.\<close>

function copy_loop :: "'u :: zero list \<Rightarrow> nat \<Rightarrow> uintn \<Rightarrow> nat \<Rightarrow> 'u list option" where
  "copy_loop mem Destination DestMax Source =
     (if Source \<ge> length mem then None
      else if mem ! Source \<noteq> 0 \<and> DestMax - 1 > 0 then
        (if Destination < length mem
         then copy_loop (mem[Destination := mem ! Source]) (Destination + 1) (DestMax - 1) (Source + 1)
         else None)
      else put mem Destination 0)"
  by pat_completeness auto
termination
  by (relation "measure (\<lambda>(mem, _, _, Source). length mem - Source)") auto

declare copy_loop.simps [simp del]

text \<open>\<open>while ((SourceLen > 0) && (*Source != 0) && (--DestMax > 0))\<close>.\<close>

function ncopy_loop :: "'u :: zero list \<Rightarrow> nat \<Rightarrow> uintn \<Rightarrow> nat \<Rightarrow> uintn \<Rightarrow> 'u list option" where
  "ncopy_loop mem Destination DestMax Source SourceLen =
     (if SourceLen > 0 then
        (if Source \<ge> length mem then None
         else if mem ! Source \<noteq> 0 \<and> DestMax - 1 > 0 then
           (if Destination < length mem
            then ncopy_loop (mem[Destination := mem ! Source]) (Destination + 1) (DestMax - 1) (Source + 1) (SourceLen - 1)
            else None)
         else put mem Destination 0)
      else put mem Destination 0)"
  by pat_completeness auto
termination
  by (relation "measure (\<lambda>(mem, _, _, Source, _). length mem - Source)") auto

declare ncopy_loop.simps [simp del]

abbreviation refuse :: "efi_status \<Rightarrow> 'u list \<Rightarrow> (efi_status \<times> 'u list) option" where
  "refuse Status mem \<equiv> Some (Status, mem)"

abbreviation success :: "'u list option \<Rightarrow> (efi_status \<times> 'u list) option" where
  "success r \<equiv> map_option (Pair EFI_SUCCESS) r"

definition RSIZE_MAX :: uintn where
  "RSIZE_MAX = 100000000"

definition StrCpyS :: "nat option \<Rightarrow> uintn \<Rightarrow> nat option \<Rightarrow> char16 list \<Rightarrow> (efi_status \<times> char16 list) option" where
  "StrCpyS Destination DestMax Source mem =
     (case (Destination, Source) of
        (Some d, Some s) \<Rightarrow>
          if \<not> DestMax \<le> RSIZE_MAX then refuse EFI_INVALID_PARAMETER mem
          else if DestMax = 0 then refuse EFI_INVALID_PARAMETER mem
          else success (copy_loop mem d DestMax s)
      | _ \<Rightarrow> refuse EFI_INVALID_PARAMETER mem)"

definition StrnCpyS :: "nat option \<Rightarrow> uintn \<Rightarrow> nat option \<Rightarrow> uintn \<Rightarrow> char16 list \<Rightarrow> (efi_status \<times> char16 list) option" where
  "StrnCpyS Destination DestMax Source Length mem =
     (case (Destination, Source) of
        (Some d, Some s) \<Rightarrow>
          if DestMax = 0 then refuse EFI_INVALID_PARAMETER mem
          else do {
            SourceLen \<leftarrow> StrnLenS mem Source (min DestMax Length);
            let SourceLen = (if SourceLen > Length then Length else SourceLen);
            success (ncopy_loop mem d DestMax s SourceLen)
          }
      | _ \<Rightarrow> refuse EFI_INVALID_PARAMETER mem)"

definition StrCatS :: "nat option \<Rightarrow> uintn \<Rightarrow> nat option \<Rightarrow> char16 list \<Rightarrow> (efi_status \<times> char16 list) option" where
  "StrCatS Destination DestMax Source mem = do {
     DestLen \<leftarrow> StrnLenS mem Destination DestMax;
     let CopyLen = DestMax - DestLen;
     case (Destination, Source) of
       (Some d, Some s) \<Rightarrow>
         if DestMax = 0 then refuse EFI_INVALID_PARAMETER mem
         else if CopyLen = 0 then refuse EFI_BAD_BUFFER_SIZE mem
         else success (copy_loop mem (d + unat DestLen) CopyLen s)
     | _ \<Rightarrow> refuse EFI_INVALID_PARAMETER mem
   }"

definition StrnCatS :: "nat option \<Rightarrow> uintn \<Rightarrow> nat option \<Rightarrow> uintn \<Rightarrow> char16 list \<Rightarrow> (efi_status \<times> char16 list) option" where
  "StrnCatS Destination DestMax Source Length mem = do {
     DestLen \<leftarrow> StrnLenS mem Destination DestMax;
     let CopyLen = DestMax - DestLen;
     case (Destination, Source) of
       (Some d, Some s) \<Rightarrow>
         if DestMax = 0 then refuse EFI_INVALID_PARAMETER mem
         else if CopyLen = 0 then refuse EFI_BAD_BUFFER_SIZE mem
         else do {
           SourceLen \<leftarrow> StrnLenS mem Source (min CopyLen Length);
           let SourceLen = (if SourceLen > Length then Length else SourceLen);
           success (ncopy_loop mem (d + unat DestLen) CopyLen s SourceLen)
         }
     | _ \<Rightarrow> refuse EFI_INVALID_PARAMETER mem
   }"

definition AsciiStrCpyS :: "nat option \<Rightarrow> uintn \<Rightarrow> nat option \<Rightarrow> byte list \<Rightarrow> (efi_status \<times> byte list) option" where
  "AsciiStrCpyS Destination DestMax Source mem =
     (case (Destination, Source) of
        (Some d, Some s) \<Rightarrow>
          if DestMax = 0 then refuse EFI_INVALID_PARAMETER mem
          else success (copy_loop mem d DestMax s)
      | _ \<Rightarrow> refuse EFI_INVALID_PARAMETER mem)"

definition AsciiStrnCpyS :: "nat option \<Rightarrow> uintn \<Rightarrow> nat option \<Rightarrow> uintn \<Rightarrow> byte list \<Rightarrow> (efi_status \<times> byte list) option" where
  "AsciiStrnCpyS Destination DestMax Source Length mem =
     (case (Destination, Source) of
        (Some d, Some s) \<Rightarrow>
          if DestMax = 0 then refuse EFI_INVALID_PARAMETER mem
          else do {
            SourceLen \<leftarrow> AsciiStrnLenS mem Source (min DestMax Length);
            let SourceLen = (if SourceLen > Length then Length else SourceLen);
            success (ncopy_loop mem d DestMax s SourceLen)
          }
      | _ \<Rightarrow> refuse EFI_INVALID_PARAMETER mem)"

definition AsciiStrCatS :: "nat option \<Rightarrow> uintn \<Rightarrow> nat option \<Rightarrow> byte list \<Rightarrow> (efi_status \<times> byte list) option" where
  "AsciiStrCatS Destination DestMax Source mem = do {
     DestLen \<leftarrow> AsciiStrnLenS mem Destination DestMax;
     let CopyLen = DestMax - DestLen;
     case (Destination, Source) of
       (Some d, Some s) \<Rightarrow>
         if DestMax = 0 then refuse EFI_INVALID_PARAMETER mem
         else if CopyLen = 0 then refuse EFI_BAD_BUFFER_SIZE mem
         else success (copy_loop mem (d + unat DestLen) CopyLen s)
     | _ \<Rightarrow> refuse EFI_INVALID_PARAMETER mem
   }"

definition AsciiStrnCatS :: "nat option \<Rightarrow> uintn \<Rightarrow> nat option \<Rightarrow> uintn \<Rightarrow> byte list \<Rightarrow> (efi_status \<times> byte list) option" where
  "AsciiStrnCatS Destination DestMax Source Length mem = do {
     DestLen \<leftarrow> AsciiStrnLenS mem Destination DestMax;
     let CopyLen = DestMax - DestLen;
     case (Destination, Source) of
       (Some d, Some s) \<Rightarrow>
         if DestMax = 0 then refuse EFI_INVALID_PARAMETER mem
         else if CopyLen = 0 then refuse EFI_BAD_BUFFER_SIZE mem
         else do {
           SourceLen \<leftarrow> AsciiStrnLenS mem Source (min CopyLen Length);
           let SourceLen = (if SourceLen > Length then Length else SourceLen);
           success (ncopy_loop mem (d + unat DestLen) CopyLen s SourceLen)
         }
     | _ \<Rightarrow> refuse EFI_INVALID_PARAMETER mem
   }"

section \<open>Copying between the widths\<close>

text \<open>\<open>while ((*Source != 0) && (--DestMax > 0))\<close>.\<close>

function convert_loop :: "('s :: zero \<Rightarrow> 'd :: zero) \<Rightarrow> 's list \<Rightarrow> nat \<Rightarrow> 'd list \<Rightarrow> nat \<Rightarrow> uintn \<Rightarrow> 'd list option" where
  "convert_loop f src Source mem Destination DestMax =
     (if Source \<ge> length src then None
      else if src ! Source \<noteq> 0 \<and> DestMax - 1 > 0 then
        (if Destination < length mem
         then convert_loop f src (Source + 1) (mem[Destination := f (src ! Source)]) (Destination + 1) (DestMax - 1)
         else None)
      else put mem Destination 0)"
  by pat_completeness auto
termination
  by (relation "measure (\<lambda>(_, src, Source, _). length src - Source)") auto

declare convert_loop.simps [simp del]

text \<open>\<open>while ((*Source != 0) && (SourceLen > 0) && (--DestMax > 0))\<close>, counting the characters.\<close>

function nconvert_loop ::
  "('s :: zero \<Rightarrow> 'd :: zero) \<Rightarrow> 's list \<Rightarrow> nat \<Rightarrow> uintn \<Rightarrow> 'd list \<Rightarrow> nat \<Rightarrow> uintn \<Rightarrow> uintn \<Rightarrow> ('d list \<times> uintn) option" where
  "nconvert_loop f src Source SourceLen mem Destination DestMax DestinationLength =
     (if Source \<ge> length src then None
      else if src ! Source \<noteq> 0 \<and> SourceLen > 0 \<and> DestMax - 1 > 0 then
        (if Destination < length mem
         then nconvert_loop f src (Source + 1) (SourceLen - 1) (mem[Destination := f (src ! Source)])
                (Destination + 1) (DestMax - 1) (DestinationLength + 1)
         else None)
      else map_option (\<lambda>m. (m, DestinationLength)) (put mem Destination 0))"
  by pat_completeness auto
termination
  by (relation "measure (\<lambda>(_, src, Source, _). length src - Source)") auto

declare nconvert_loop.simps [simp del]

definition to_char8 :: "char16 \<Rightarrow> byte" where
  "to_char8 c = ucast (c AND 0xFF)"

definition to_char16 :: "byte \<Rightarrow> char16" where
  "to_char16 c = ucast c"

definition UnicodeStrToAsciiStrS ::
  "char16 list \<Rightarrow> nat option \<Rightarrow> nat option \<Rightarrow> uintn \<Rightarrow> byte list \<Rightarrow> (efi_status \<times> byte list) option" where
  "UnicodeStrToAsciiStrS src Source Destination DestMax mem =
     (case (Destination, Source) of
        (Some d, Some s) \<Rightarrow>
          if DestMax = 0 then refuse EFI_INVALID_PARAMETER mem
          else success (convert_loop to_char8 src s mem d DestMax)
      | _ \<Rightarrow> refuse EFI_INVALID_PARAMETER mem)"

definition AsciiStrToUnicodeStrS ::
  "byte list \<Rightarrow> nat option \<Rightarrow> nat option \<Rightarrow> uintn \<Rightarrow> char16 list \<Rightarrow> (efi_status \<times> char16 list) option" where
  "AsciiStrToUnicodeStrS src Source Destination DestMax mem =
     (case (Destination, Source) of
        (Some d, Some s) \<Rightarrow>
          if DestMax = 0 then refuse EFI_INVALID_PARAMETER mem
          else success (convert_loop to_char16 src s mem d DestMax)
      | _ \<Rightarrow> refuse EFI_INVALID_PARAMETER mem)"

definition InternalSafeStringIsOverlap :: "uintn \<Rightarrow> uintn \<Rightarrow> uintn \<Rightarrow> uintn \<Rightarrow> bool" where
  "InternalSafeStringIsOverlap Base1 Size1 Base2 Size2 \<longleftrightarrow>
     (Base1 \<ge> Base2 \<and> Base1 < Base2 + Size2) \<or> (Base2 \<ge> Base1 \<and> Base2 < Base1 + Size1)"

text \<open>
  The routines with a length also return the number of characters; \<open>DestinationLength\<close> is
  \<open>None\<close> for a null pointer. The first one compares the addresses of the strings, \<open>dst_at\<close>
  and \<open>src_at\<close>.
\<close>

definition UnicodeStrnToAsciiStrS ::
  "(nat \<Rightarrow> uintn) \<Rightarrow> (nat \<Rightarrow> uintn) \<Rightarrow> char16 list \<Rightarrow> nat option \<Rightarrow> uintn \<Rightarrow> nat option \<Rightarrow> uintn \<Rightarrow> uintn option \<Rightarrow> byte list \<Rightarrow>
     (efi_status \<times> byte list \<times> uintn option) option" where
  "UnicodeStrnToAsciiStrS src_at dst_at src Source Length Destination DestMax DestinationLength mem =
     (case (Destination, Source, DestinationLength) of
        (Some d, Some s, Some _) \<Rightarrow>
          if DestMax = 0 then Some (EFI_INVALID_PARAMETER, mem, DestinationLength)
          else do {
            SourceLen \<leftarrow> StrnLenS src Source DestMax;
            if Length \<ge> DestMax \<and> \<not> DestMax > SourceLen then Some (EFI_BUFFER_TOO_SMALL, mem, DestinationLength)
            else (let SourceLen = (if SourceLen > Length then Length else SourceLen) in
              if InternalSafeStringIsOverlap (dst_at d) DestMax (src_at s) ((SourceLen + 1) * 2)
              then Some (EFI_ACCESS_DENIED, mem, DestinationLength)
              else map_option (\<lambda>(m, n). (EFI_SUCCESS, m, Some n)) (nconvert_loop to_char8 src s SourceLen mem d DestMax 0))
          }
      | _ \<Rightarrow> Some (EFI_INVALID_PARAMETER, mem, DestinationLength))"

definition AsciiStrnToUnicodeStrS ::
  "byte list \<Rightarrow> nat option \<Rightarrow> uintn \<Rightarrow> nat option \<Rightarrow> uintn \<Rightarrow> uintn option \<Rightarrow> char16 list \<Rightarrow>
     (efi_status \<times> char16 list \<times> uintn option) option" where
  "AsciiStrnToUnicodeStrS src Source Length Destination DestMax DestinationLength mem =
     (case (Destination, Source, DestinationLength) of
        (Some d, Some s, Some _) \<Rightarrow>
          if DestMax = 0 then Some (EFI_INVALID_PARAMETER, mem, DestinationLength)
          else do {
            SourceLen \<leftarrow> AsciiStrnLenS src Source DestMax;
            let SourceLen = (if SourceLen > Length then Length else SourceLen);
            map_option (\<lambda>(m, n). (EFI_SUCCESS, m, Some n)) (nconvert_loop to_char16 src s SourceLen mem d DestMax 0)
          }
      | _ \<Rightarrow> Some (EFI_INVALID_PARAMETER, mem, DestinationLength))"

section \<open>Strings in memory\<close>

text \<open>The string at a position, whether it is terminated, and a memory with a part replaced.\<close>

definition string_at :: "'u :: zero list \<Rightarrow> nat \<Rightarrow> 'u list" where
  "string_at mem p = takeWhile (\<lambda>c. c \<noteq> 0) (drop p mem)"

definition terminated_at :: "'u :: zero list \<Rightarrow> nat \<Rightarrow> bool" where
  "terminated_at mem p \<longleftrightarrow> p + length (string_at mem p) < length mem"

definition written :: "'u list \<Rightarrow> nat \<Rightarrow> 'u list \<Rightarrow> 'u list" where
  "written mem p xs = take p mem @ xs @ drop (p + length xs) mem"

lemma string_at_nth: "i < length (string_at mem p) \<Longrightarrow> mem ! (p + i) = string_at mem p ! i \<and> mem ! (p + i) \<noteq> 0"
proof -
  assume i: "i < length (string_at mem p)"
  then have "string_at mem p ! i = drop p mem ! i" "string_at mem p ! i \<noteq> 0"
    unfolding string_at_def using nth_mem [OF i [unfolded string_at_def]] by (auto simp: takeWhile_nth dest: set_takeWhileD)
  moreover have "i < length (drop p mem)" using i length_takeWhile_le [of "\<lambda>c. c \<noteq> 0" "drop p mem"] by (simp add: string_at_def)
  ultimately show ?thesis by simp
qed

lemma string_at_nonzero: "k \<le> length (string_at mem p) \<Longrightarrow> \<forall>i<k. mem ! (p + i) \<noteq> 0"
  by (meson string_at_nth less_le_trans)

lemma string_at_end: "terminated_at mem p \<Longrightarrow> mem ! (p + length (string_at mem p)) = 0"
  using nth_length_takeWhile [of "\<lambda>c. c \<noteq> 0" "drop p mem"] by (simp add: terminated_at_def string_at_def)

lemma string_at_bound: "p + length (string_at mem p) \<le> length mem \<or> length mem \<le> p"
  using length_takeWhile_le [of "\<lambda>c. c \<noteq> 0" "drop p mem"] by (auto simp: string_at_def)

lemma string_at_take: "k \<le> length (string_at mem p) \<Longrightarrow> take k (drop p mem) = take k (string_at mem p)"
  by (simp add: string_at_def) (metis (no_types, lifting) append_take_drop_id length_takeWhile_le take_append takeWhile_dropWhile_id take_all_iff diff_is_0_eq take_0 append_Nil2)

lemma length_written [len_simps]: "p + length xs \<le> length mem \<Longrightarrow> length (written mem p xs) = length mem"
  by (simp add: written_def)

section \<open>The loops\<close>

lemma unat_max: "unat (- 1 :: uintn) = 2 ^ 64 - 1"
  by (simp add: unsigned_minus_1_eq_mask mask_eq_exp_minus_1)

lemma unat_pred: "k < unat m \<Longrightarrow> unat (m - 1 :: uintn) = unat m - 1 \<and> m > 0"
proof -
  assume "k < unat m"
  then have "m \<noteq> 0" by auto
  then show ?thesis by (simp add: unat_minus_one word_greater_zero_iff)
qed

lemma strn_len_run:
  assumes "length mem < 2 ^ 64" "n \<le> length (string_at mem p)" "MaxSize = 0 \<or> n < unat MaxSize"
    "MaxSize \<noteq> 0 \<and> unat MaxSize \<le> length (string_at mem p) \<or> terminated_at mem p"
  shows "strn_len mem p n MaxSize = Some (if MaxSize \<noteq> 0 \<and> unat MaxSize \<le> length (string_at mem p) then MaxSize
     else word_of_nat (length (string_at mem p)))"
  using assms(2-4)
proof (induction "length (string_at mem p) - n" arbitrary: n)
  case 0
  then have "n = length (string_at mem p)" by simp
  then show ?case
    using 0 string_at_end [of mem p] by (subst strn_len.simps) (auto simp: terminated_at_def)
next
  case (Suc m)
  have n: "n < length (string_at mem p)" using Suc.hyps(2) by linarith
  moreover have "p + n < length mem" using n string_at_bound [of p mem] by (auto simp: string_at_def)
  moreover have "unat (word_of_nat n :: uintn) = n" using calculation(2) assms(1) by (intro unat_of_nat_small) simp
  moreover have "unat (MaxSize - 1) = unat MaxSize - 1" if "MaxSize \<noteq> 0"
    using that by (simp add: unat_minus_one)
  moreover have "\<not> word_of_nat n \<ge> (- 1 :: uintn)" using calculation(2,3) assms(1) unat_max by (simp add: word_le_nat_alt)
  moreover have "MaxSize = 0 \<or> n + 1 < unat MaxSize \<or> unat MaxSize = n + 1" using Suc.prems(2) by linarith
  ultimately show ?case
    using Suc.prems(3) string_at_nth [of n mem p] Suc.hyps(1) [of "n + 1"] Suc.hyps(2)
    by (subst strn_len.simps) (cases "MaxSize = 0"; auto simp: word_le_nat_alt)
qed

lemma written_step:
  assumes "d < length mem"
  shows "written (mem[d := c]) (d + 1) xs = written mem d (c # xs)"
  using assms by (simp add: written_def upd_conv_take_nth_drop drop_update_cancel ac_simps)

lemma put_written: "d < length mem \<Longrightarrow> put mem d c = Some (written mem d [c])"
  by (simp add: put_def written_def upd_conv_take_nth_drop)

lemma ncopy_run:
  assumes "k < unat m" "\<forall>i<k. mem ! (s + i) \<noteq> 0" "k \<le> unat n"
    "k = unat n \<or> s + k < length mem \<and> (Suc k = unat m \<or> mem ! (s + k) = 0)"
    "s + k \<le> length mem" "d + k < length mem" "d \<le> s \<or> s + k < d"
  shows "ncopy_loop mem d m s n = Some (written mem d (take k (drop s mem) @ [0]))"
  using assms
proof (induction k arbitrary: mem d m s n)
  case 0
  have "unat m = Suc 0 \<longleftrightarrow> m = 1" by (simp add: word_unat_eq_iff [of m])
  then show ?case using 0 by (subst ncopy_loop.simps) (auto simp: put_written word_greater_zero_iff unat_eq_zero)
next
  case (Suc k)
  have *: "mem ! s \<noteq> 0" using Suc.prems(2) by force
  have m: "unat (m - 1) = unat m - 1" "m - 1 > 0" using Suc.prems(1) unat_pred [of "Suc k" m] by (simp_all add: word_less_nat_alt)
  have n: "unat (n - 1) = unat n - 1" "n > 0" using Suc.prems(3) unat_pred [of k n] by simp_all
  let ?mem = "mem[d := mem ! s]"
  have same: "?mem ! (s + 1 + i) = mem ! (s + 1 + i)" if "i \<le> k" for i
    using Suc.prems(7) that by auto
  have IH: "ncopy_loop ?mem (d + 1) (m - 1) (s + 1) (n - 1) = Some (written ?mem (d + 1) (take k (drop (s + 1) ?mem) @ [0]))"
    by (rule Suc.IH) (use Suc.prems m n same in auto)
  have "take k (drop (s + 1) ?mem) = take k (drop (s + 1) mem)"
    by (rule nth_equalityI) (use same Suc.prems(5) in auto)
  moreover have "take (Suc k) (drop s mem) = mem ! s # take k (drop (s + 1) mem)"
    using Suc.prems(5) by (simp add: Cons_nth_drop_Suc [symmetric])
  ultimately show ?case
    using IH * m(2) n(2) Suc.prems(5,6) written_step [of d mem "mem ! s"] by (subst ncopy_loop.simps) simp
qed

text \<open>Without a length the loop is the one with a length that is never reached.\<close>

lemma copy_loop_ncopy:
  assumes "length mem < s + unat n" "s \<le> length mem"
  shows "copy_loop mem d m s = ncopy_loop mem d m s n"
  using assms
proof (induction mem d m s arbitrary: n rule: copy_loop.induct)
  case (1 mem d m s)
  have n: "n > 0" "unat (n - 1) = unat n - 1" using 1(2,3) unat_pred [of 0 n] by simp_all
  show ?case
  proof (cases "s < length mem \<and> d < length mem \<and> mem ! s \<noteq> 0 \<and> m - 1 > 0")
    case True
    then have "copy_loop (mem[d := mem ! s]) (d + 1) (m - 1) (s + 1) = ncopy_loop (mem[d := mem ! s]) (d + 1) (m - 1) (s + 1) (n - 1)"
      using 1(2,3) n by (intro 1(1)) auto
    then show ?thesis using True n by (subst copy_loop.simps, subst ncopy_loop.simps) simp
  next
    case False
    then show ?thesis using n by (subst copy_loop.simps, subst ncopy_loop.simps) auto
  qed
qed

lemma convert_run:
  assumes "k < unat m" "\<forall>i<k. src ! (s + i) \<noteq> 0" "Suc k = unat m \<or> src ! (s + k) = 0" "s + k < length src" "d + k < length mem"
  shows "convert_loop f src s mem d m = Some (written mem d (map f (take k (drop s src)) @ [0]))"
  using assms
proof (induction k arbitrary: mem d m s)
  case 0
  have "unat m = Suc 0 \<longleftrightarrow> m = 1" by (simp add: word_unat_eq_iff [of m])
  then show ?case using 0 by (subst convert_loop.simps) (auto simp: put_written word_greater_zero_iff)
next
  case (Suc k)
  have *: "src ! s \<noteq> 0" using Suc.prems(2) by force
  have m: "unat (m - 1) = unat m - 1" "m - 1 > 0" using Suc.prems(1) unat_pred [of "Suc k" m] by (simp_all add: word_less_nat_alt)
  have IH: "convert_loop f src (s + 1) (mem[d := f (src ! s)]) (d + 1) (m - 1) =
      Some (written (mem[d := f (src ! s)]) (d + 1) (map f (take k (drop (s + 1) src)) @ [0]))"
    by (rule Suc.IH) (use Suc.prems m in auto)
  have "take (Suc k) (drop s src) = src ! s # take k (drop (s + 1) src)"
    using Suc.prems(4) by (simp add: Cons_nth_drop_Suc [symmetric])
  then show ?case
    using IH * m(2) Suc.prems(4,5) written_step [of d mem "f (src ! s)"] by (subst convert_loop.simps) simp
qed

text \<open>
  Where a copy of \<open>k\<close> units from \<open>s\<close> to \<open>d\<close> and the terminator have room: the strings may overlap
  when the copy moves towards lower addresses.
\<close>

definition room :: "'u :: zero list \<Rightarrow> nat \<Rightarrow> nat \<Rightarrow> nat \<Rightarrow> bool" where
  "room mem d k s \<longleftrightarrow> length mem + 1 < 2 ^ 64 \<and> terminated_at mem s \<and> d + k < length mem \<and> (d \<le> s \<or> s + k < d)"

lemma ncopy_string:
  assumes "room mem d k s" "m \<noteq> 0" "k = min (min (length (string_at mem s)) (unat n)) (unat m - 1)"
  shows "ncopy_loop mem d m s n = Some (written mem d (take k (string_at mem s) @ [0]))"
proof -
  have pos: "0 < unat m" using assms(2) by (simp add: unat_gt_0)
  then have k: "k \<le> length (string_at mem s)" "k \<le> unat n" "k < unat m" "s + length (string_at mem s) < length mem"
    using assms(1,3) by (auto simp: room_def terminated_at_def)
  have "k = unat n \<or> Suc k = unat m \<or> mem ! (s + k) = 0"
    using assms(1,3) pos string_at_end [of mem s] by (auto simp: room_def min_def split: if_splits)
  moreover have "\<forall>i<k. mem ! (s + i) \<noteq> 0" by (rule string_at_nonzero [OF k(1)])
  ultimately show ?thesis
    using ncopy_run [of k m mem s n d] k assms(1) string_at_take [of k mem s] by (auto simp: room_def)
qed

lemma copy_string:
  assumes "room mem d k s" "m \<noteq> 0" "k = min (length (string_at mem s)) (unat m - 1)"
  shows "copy_loop mem d m s = Some (written mem d (take k (string_at mem s) @ [0]))"
proof -
  have len: "length mem + 1 < 2 ^ 64" "length (string_at mem s) < length mem" "s < length mem"
    using assms(1) by (auto simp: room_def terminated_at_def)
  then have "copy_loop mem d m s = ncopy_loop mem d m s (- 1)"
    using unat_max by (intro copy_loop_ncopy) simp_all
  moreover have "k = min (min (length (string_at mem s)) (unat (- 1 :: uintn))) (unat m - 1)"
    using assms(3) len unat_max by simp
  ultimately show ?thesis using ncopy_string [OF assms(1,2)] by simp
qed

lemma strn_len_string:
  assumes "length mem < 2 ^ 64" "terminated_at mem p"
  shows "strn_len mem p 0 m = Some (if m = 0 then word_of_nat (length (string_at mem p))
    else word_of_nat (min (length (string_at mem p)) (unat m)))"
  using strn_len_run [OF assms(1), of 0 p m] assms(2) by (auto simp: unat_gt_0 min_def)

lemma convert_string:
  assumes "terminated_at src s" "m \<noteq> 0" "k = min (length (string_at src s)) (unat m - 1)" "d + k < length mem"
  shows "convert_loop f src s mem d m = Some (written mem d (map f (take k (string_at src s)) @ [0]))"
proof -
  have "0 < unat m" using assms(2) by (simp add: unat_gt_0)
  then have k: "k < unat m" "k \<le> length (string_at src s)" "s + k < length src" "Suc k = unat m \<or> k = length (string_at src s)"
    using assms(1,3) by (auto simp: terminated_at_def)
  moreover have "\<forall>i<k. src ! (s + i) \<noteq> 0" by (rule string_at_nonzero [OF k(2)])
  ultimately show ?thesis
    using convert_run [of k m src s d mem f] assms(4) string_at_take [of k src s] string_at_end [OF assms(1)] by auto
qed

text \<open>The loop with a length is the loop without one on the string cut to that length.\<close>

lemma nconvert_run:
  assumes "k < unat m" "\<forall>i<k. src ! (s + i) \<noteq> 0" "k \<le> unat n" "k = unat n \<or> Suc k = unat m \<or> src ! (s + k) = 0"
    "s + k < length src" "d + k < length mem"
  shows "nconvert_loop f src s n mem d m c = Some (written mem d (map f (take k (drop s src)) @ [0]), c + word_of_nat k)"
  using assms
proof (induction k arbitrary: mem d m s n c)
  case 0
  have "unat m = Suc 0 \<longleftrightarrow> m = 1" by (simp add: word_unat_eq_iff [of m])
  then show ?case using 0 by (subst nconvert_loop.simps) (auto simp: put_written word_greater_zero_iff unat_eq_zero)
next
  case (Suc k)
  have *: "src ! s \<noteq> 0" using Suc.prems(2) by force
  have m: "unat (m - 1) = unat m - 1" "m - 1 > 0" using Suc.prems(1) unat_pred [of "Suc k" m] by (simp_all add: word_less_nat_alt)
  have n: "unat (n - 1) = unat n - 1" "n > 0" using Suc.prems(3) unat_pred [of k n] by simp_all
  have IH: "nconvert_loop f src (s + 1) (n - 1) (mem[d := f (src ! s)]) (d + 1) (m - 1) (c + 1) =
      Some (written (mem[d := f (src ! s)]) (d + 1) (map f (take k (drop (s + 1) src)) @ [0]), c + 1 + word_of_nat k)"
    by (rule Suc.IH) (use Suc.prems m n in auto)
  have "take (Suc k) (drop s src) = src ! s # take k (drop (s + 1) src)"
    using Suc.prems(5) by (simp add: Cons_nth_drop_Suc [symmetric])
  then show ?case
    using IH * m(2) n(2) Suc.prems(5,6) written_step [of d mem "f (src ! s)"] by (subst nconvert_loop.simps) (simp add: ac_simps)
qed

lemma nconvert_string:
  assumes "terminated_at src s" "m \<noteq> 0" "k = min (min (length (string_at src s)) (unat n)) (unat m - 1)" "d + k < length mem"
  shows "nconvert_loop f src s n mem d m 0 = Some (written mem d (map f (take k (string_at src s)) @ [0]), word_of_nat k)"
proof -
  have "0 < unat m" using assms(2) by (simp add: unat_gt_0)
  then have k: "k < unat m" "k \<le> length (string_at src s)" "s + k < length src" "k \<le> unat n"
      "k = unat n \<or> Suc k = unat m \<or> k = length (string_at src s)"
    using assms(1,3) by (auto simp: terminated_at_def min_def split: if_splits)
  moreover have "\<forall>i<k. src ! (s + i) \<noteq> 0" by (rule string_at_nonzero [OF k(2)])
  ultimately show ?thesis
    using nconvert_run [of k m src s n d mem f 0] assms(4) string_at_take [of k src s] string_at_end [OF assms(1)] by auto
qed

text \<open>Cutting the source length first does not change how much is copied.\<close>

lemma cut_length:
  fixes DestMax Length :: uintn
  assumes "length mem < 2 ^ 64" "terminated_at mem s" "M = DestMax \<or> M = min DestMax Length" "DestMax \<noteq> 0"
    and "strn_len mem s 0 M = Some n"
  shows "min (min (length (string_at mem s)) (unat (if n > Length then Length else n))) (unat DestMax - 1) =
    min (min (length (string_at mem s)) (unat Length)) (unat DestMax - 1)"
proof -
  let ?u = "length (string_at mem s)"
  have small: "unat (word_of_nat j :: uintn) = j" if "j \<le> ?u" for j
    using that assms(1,2) by (intro unat_of_nat_small) (simp add: terminated_at_def)
  have "unat n = (if M = 0 then ?u else min ?u (unat M))"
    using assms(5) strn_len_string [OF assms(1,2), of M] small by (auto split: if_splits)
  then have n: "unat n = ?u \<or> unat n = unat M \<and> unat M \<le> ?u \<and> M \<noteq> 0" by (auto simp: min_def)
  have "0 < unat DestMax" using assms(4) by (simp add: unat_gt_0)
  moreover have "unat (min DestMax Length) = min (unat DestMax) (unat Length)" by (simp add: min_def word_le_nat_alt)
  ultimately show ?thesis using n assms(3) by (auto simp: word_less_nat_alt min_def split: if_splits)
qed

lemma take_min_length [simp]: "take (min (length xs) n) xs = take n xs"
  by (simp add: min_def)

text \<open>The part of a string that fits with its terminator.\<close>

definition fit :: "uintn \<Rightarrow> 'u list \<Rightarrow> 'u list" where
  "fit DestMax u = take (unat DestMax - 1) u"

lemma copy_fit:
  assumes "room mem d (length (fit m (string_at mem s))) s" "m \<noteq> 0"
  shows "copy_loop mem d m s = Some (written mem d (fit m (string_at mem s) @ [0]))"
  using copy_string [of mem d "length (fit m (string_at mem s))" s m] assms by (simp add: fit_def min.commute)

lemma ncopy_fit:
  assumes "room mem d (length (fit m (take (unat Length) (string_at mem s)))) s" "m \<noteq> 0" "M = m \<or> M = min m Length"
  obtains n where "strn_len mem s 0 M = Some n"
    "ncopy_loop mem d m s (if n > Length then Length else n) = Some (written mem d (fit m (take (unat Length) (string_at mem s)) @ [0]))"
proof -
  have len: "length mem < 2 ^ 64" "terminated_at mem s" using assms(1) by (auto simp: room_def)
  from strn_len_string [OF this, of M] obtain n where n: "strn_len mem s 0 M = Some n" by blast
  let ?n = "if n > Length then Length else n"
  let ?k = "min (min (length (string_at mem s)) (unat ?n)) (unat m - 1)"
  have k: "?k = min (min (length (string_at mem s)) (unat Length)) (unat m - 1)" by (rule cut_length [OF len assms(3,2) n])
  then have "?k = length (fit m (take (unat Length) (string_at mem s)))" by (simp add: fit_def ac_simps)
  moreover have "take ?k (string_at mem s) = fit m (take (unat Length) (string_at mem s))"
    by (subst k) (simp add: fit_def min.assoc min.commute [of "unat Length"])
  ultimately show ?thesis
    using ncopy_string [of mem d ?k s m ?n] assms(1,2) n that by simp
qed

lemma nconvert_fit:
  assumes "terminated_at src s" "length src < 2 ^ 64" "m \<noteq> 0" "d + length (fit m (take (unat Length) (string_at src s))) < length mem"
  obtains n where "strn_len src s 0 m = Some n"
    "nconvert_loop f src s (if n > Length then Length else n) mem d m 0 =
       Some (written mem d (map f (fit m (take (unat Length) (string_at src s))) @ [0]),
         word_of_nat (length (fit m (take (unat Length) (string_at src s)))))"
proof -
  from strn_len_string [OF assms(2,1), of m] obtain n where n: "strn_len src s 0 m = Some n" by blast
  let ?n = "if n > Length then Length else n"
  let ?k = "min (min (length (string_at src s)) (unat ?n)) (unat m - 1)"
  have k: "?k = min (min (length (string_at src s)) (unat Length)) (unat m - 1)" by (rule cut_length [OF assms(2,1) _ assms(3) n]) simp
  then have "?k = length (fit m (take (unat Length) (string_at src s)))" by (simp add: fit_def ac_simps)
  moreover have "take ?k (string_at src s) = fit m (take (unat Length) (string_at src s))"
    by (subst k) (simp add: fit_def min.assoc min.commute [of "unat Length"])
  ultimately show ?thesis
    using nconvert_string [of src s m ?k ?n d mem f] assms(1,3,4) n that by simp
qed

lemma dest_length:
  assumes "length mem < 2 ^ 64" "terminated_at mem d" "length (string_at mem d) < unat m"
  shows "strn_len mem d 0 m = Some (word_of_nat (length (string_at mem d)))"
    "unat (word_of_nat (length (string_at mem d)) :: uintn) = length (string_at mem d)"
    "m - word_of_nat (length (string_at mem d)) \<noteq> 0" "m \<noteq> 0"
proof -
  show small: "unat (word_of_nat (length (string_at mem d)) :: uintn) = length (string_at mem d)"
    using assms(1,2) by (intro unat_of_nat_small) (simp add: terminated_at_def)
  show "m \<noteq> 0" using assms(3) by auto
  then show "strn_len mem d 0 m = Some (word_of_nat (length (string_at mem d)))"
    using strn_len_string [OF assms(1,2)] assms(3) by simp
  show "m - word_of_nat (length (string_at mem d)) \<noteq> 0" using assms(3) small by auto
qed

text \<open>
  What a routine may do to a memory with a buffer of \<open>w\<close> units at \<open>d\<close>: change nothing outside
  the buffer and leave a terminated string in it.
\<close>

definition buffer_only :: "'u :: zero list \<Rightarrow> nat \<Rightarrow> nat \<Rightarrow> 'u list \<Rightarrow> bool" where
  "buffer_only mem d w mem' \<longleftrightarrow> length mem' = length mem \<and> take d mem' = take d mem \<and> drop (d + w) mem' = drop (d + w) mem \<and>
     terminated_at mem' d \<and> length (string_at mem' d) < w"

lemma string_at_zero:
  assumes "d + j < length mem" "mem ! (d + j) = 0"
  shows "length (string_at mem d) \<le> j" "terminated_at mem d"
proof -
  have "\<not> j < length (string_at mem d)" using string_at_nth [of j mem d] assms(2) by auto
  then show "length (string_at mem d) \<le> j" by simp
  then show "terminated_at mem d" using assms(1) by (simp add: terminated_at_def)
qed

lemma buffer_onlyI:
  assumes "length mem' = length mem" "take d mem' = take d mem" "drop (d + w) mem' = drop (d + w) mem"
    "j < w" "d + j < length mem" "mem' ! (d + j) = 0"
  shows "buffer_only mem d w mem'"
  using assms string_at_zero [of d j mem'] by (simp add: buffer_only_def)

lemma ncopy_frame:
  assumes "ncopy_loop mem d m s n = Some mem'" "m \<noteq> 0"
  shows "length mem' = length mem \<and> take d mem' = take d mem \<and> drop (d + unat m) mem' = drop (d + unat m) mem \<and>
    (\<exists>j<unat m. d + j < length mem \<and> mem' ! (d + j) = 0)"
  using assms
proof (induction mem d m s n arbitrary: mem' rule: ncopy_loop.induct)
  case (1 mem d m s n)
  have m: "0 < unat m" using 1(3) by (simp add: unat_gt_0)
  show ?case
  proof (cases "n > 0 \<and> s < length mem \<and> mem ! s \<noteq> 0 \<and> m - 1 > 0")
    case True
    then have d: "d < length mem" and rec: "ncopy_loop (mem[d := mem ! s]) (d + 1) (m - 1) (s + 1) (n - 1) = Some mem'"
      using 1(2) by (simp_all add: ncopy_loop.simps [of mem d m s n] split: if_splits)
    have m1: "unat (m - 1) = unat m - 1" "m - 1 \<noteq> 0" using unat_pred [OF m] True by auto
    from 1(1) [OF _ _ _ d rec m1(2)] True m1
    obtain j where "length mem' = length mem" "take (d + 1) mem' = take (d + 1) (mem[d := mem ! s])"
      "drop (d + unat m) mem' = drop (d + unat m) (mem[d := mem ! s])" "j < unat m - 1" "d + 1 + j < length mem" "mem' ! (d + 1 + j) = 0"
      using m by auto
    moreover from this(2) have "take d mem' = take d (mem[d := mem ! s])"
      by (metis le_add1 min.absorb1 take_take)
    ultimately show ?thesis using m by (auto intro!: exI [of _ "j + 1"])
  next
    case False
    then have "put mem d 0 = Some mem'" using 1(2) by (auto simp: ncopy_loop.simps [of mem d m s n] split: if_splits)
    then show ?thesis using m by (auto simp: put_def split: if_splits intro!: exI [of _ 0])
  qed
qed

lemma copy_frame:
  assumes "copy_loop mem d m s = Some mem'" "m \<noteq> 0" "length mem + 1 < 2 ^ 64"
  shows "length mem' = length mem \<and> take d mem' = take d mem \<and> drop (d + unat m) mem' = drop (d + unat m) mem \<and>
    (\<exists>j<unat m. d + j < length mem \<and> mem' ! (d + j) = 0)"
proof -
  have "s < length mem" using assms(1) by (auto simp: copy_loop.simps [of mem d m s] split: if_splits)
  then have "copy_loop mem d m s = ncopy_loop mem d m s (- 1)"
    using assms(3) unat_max by (intro copy_loop_ncopy) simp_all
  then show ?thesis using ncopy_frame [of mem d m s "- 1" mem'] assms(1,2) by simp
qed

text \<open>The same for a copy behind the destination string.\<close>

lemma frame_shift:
  assumes "length mem' = length mem \<and> take (d + unat l) mem' = take (d + unat l) mem \<and>
      drop (d + unat l + unat (m - l)) mem' = drop (d + unat l + unat (m - l)) mem \<and>
      (\<exists>j<unat (m - l). d + unat l + j < length mem \<and> mem' ! (d + unat l + j) = 0)" "l \<le> m"
  shows "buffer_only mem d (unat m) mem'"
proof -
  have *: "unat l + unat (m - l) = unat m" using assms(2) by (simp add: unat_sub word_le_nat_alt)
  from assms(1) obtain j where "j < unat (m - l)" "d + (unat l + j) < length mem" "mem' ! (d + (unat l + j)) = 0"
    by (auto simp: add.assoc)
  moreover have "take d mem' = take d mem" using assms(1) by (metis le_add1 min.absorb1 take_take)
  ultimately show ?thesis
    using assms(1) * by (intro buffer_onlyI [where j = "unat l + j"]) (auto simp: add.assoc)
qed

lemma strn_len_le:
  assumes "strn_len mem p n m = Some l" "m \<noteq> 0" "n < unat m"
  shows "l \<le> m"
  using assms
proof (induction mem p n m rule: strn_len.induct)
  case (1 mem p n m)
  have "unat (m - 1) = unat m - 1" "m > 0" using unat_pred [OF 1(4)] by auto
  moreover have "unat (word_of_nat n :: uintn) = n" using 1(4) by (intro unat_of_nat_small) (use unsigned_less [of m, where ?'a = nat] in simp)
  ultimately show ?case
    using 1(1) 1(2-4) by (auto simp: strn_len.simps [of mem p n m] word_le_nat_alt split: if_splits)
qed

definition confined :: "'u :: zero list \<Rightarrow> nat option \<Rightarrow> uintn \<Rightarrow> (efi_status \<times> 'u list) option \<Rightarrow> bool" where
  "confined mem Destination DestMax result \<longleftrightarrow>
     (case result of
        None \<Rightarrow> True
      | Some (Status, mem') \<Rightarrow>
          if Status = EFI_SUCCESS then (case Destination of None \<Rightarrow> False | Some d \<Rightarrow> buffer_only mem d (unat DestMax) mem')
          else mem' = mem)"

lemma confined_copy:
  assumes "length mem + 1 < 2 ^ 64" "m \<noteq> 0"
  shows "confined mem (Some d) m (success (copy_loop mem d m s))"
proof (cases "copy_loop mem d m s")
  case (Some mem')
  from copy_frame [OF this assms(2,1)] show ?thesis
    unfolding confined_def Some by (auto intro: buffer_onlyI)
qed (simp add: confined_def)

lemma confined_ncopy:
  assumes "m \<noteq> 0"
  shows "confined mem (Some d) m (success (ncopy_loop mem d m s n))"
proof (cases "ncopy_loop mem d m s n")
  case (Some mem')
  from ncopy_frame [OF this assms(1)] show ?thesis
    unfolding confined_def Some by (auto intro: buffer_onlyI)
qed (simp add: confined_def)

lemma confined_append:
  assumes "length mem + 1 < 2 ^ 64" "m \<noteq> 0" "strn_len mem d 0 m = Some l" "m - l \<noteq> 0"
  shows "confined mem (Some d) m (success (copy_loop mem (d + unat l) (m - l) s))"
proof (cases "copy_loop mem (d + unat l) (m - l) s")
  case (Some mem')
  have "l \<le> m" using strn_len_le [OF assms(3,2)] assms(2) by (simp add: unat_gt_0)
  from frame_shift [OF copy_frame [OF Some assms(4,1)] this] show ?thesis unfolding confined_def Some by simp
qed (simp add: confined_def)

lemma confined_nappend:
  assumes "m \<noteq> 0" "strn_len mem d 0 m = Some l" "m - l \<noteq> 0"
  shows "confined mem (Some d) m (success (ncopy_loop mem (d + unat l) (m - l) s n))"
proof (cases "ncopy_loop mem (d + unat l) (m - l) s n")
  case (Some mem')
  have "l \<le> m" using strn_len_le [OF assms(2,1)] assms(1) by (simp add: unat_gt_0)
  from frame_shift [OF ncopy_frame [OF Some assms(3)] this] show ?thesis unfolding confined_def Some by simp
qed (simp add: confined_def)

lemma confined_refuse [simp]: "Status \<noteq> EFI_SUCCESS \<Longrightarrow> confined mem Destination m (refuse Status mem)"
  by (simp add: confined_def)

lemma confined_None [simp]: "confined mem Destination m None"
  by (simp add: confined_def)

lemma confined_bind: "(\<And>n. f = Some n \<Longrightarrow> confined mem Destination m (g n)) \<Longrightarrow> confined mem Destination m (f \<bind> g)"
  by (cases f) simp_all

section \<open>Properties\<close>





text \<open>
  C36: Whatever the arguments and however the strings overlap, a copy or concatenation routine
  that returns changes no unit outside the buffer of \<open>DestMax\<close> units and leaves a terminated
  string in it when it succeeds, and changes nothing when it reports an error.
\<close>

theorem safe_bounds:
  fixes m8 :: "byte list" and m16 :: "char16 list"
  assumes "length m8 + 1 < 2 ^ 64" "length m16 + 1 < 2 ^ 64"
  shows "confined m8 Destination DestMax (AsciiStrCpyS Destination DestMax Source m8) \<and>
    confined m8 Destination DestMax (AsciiStrnCpyS Destination DestMax Source Length m8) \<and>
    confined m8 Destination DestMax (AsciiStrCatS Destination DestMax Source m8) \<and>
    confined m8 Destination DestMax (AsciiStrnCatS Destination DestMax Source Length m8) \<and>
    confined m16 Destination DestMax (StrCpyS Destination DestMax Source m16) \<and>
    confined m16 Destination DestMax (StrnCpyS Destination DestMax Source Length m16) \<and>
    confined m16 Destination DestMax (StrCatS Destination DestMax Source m16) \<and>
    confined m16 Destination DestMax (StrnCatS Destination DestMax Source Length m16)"
proof (intro conjI)
  note defs = AsciiStrCpyS_def AsciiStrnCpyS_def AsciiStrCatS_def AsciiStrnCatS_def StrCpyS_def StrnCpyS_def StrCatS_def StrnCatS_def
    AsciiStrnLenS_def StrnLenS_def Let_def
  note parts = confined_copy [OF assms(1)] confined_copy [OF assms(2)] confined_ncopy confined_append [OF assms(1)]
    confined_append [OF assms(2)] confined_nappend
  show "confined m8 Destination DestMax (AsciiStrCpyS Destination DestMax Source m8)"
    using parts by (auto simp: defs split: option.split)
  show "confined m16 Destination DestMax (StrCpyS Destination DestMax Source m16)"
    using parts by (auto simp: defs split: option.split)
  show "confined m8 Destination DestMax (AsciiStrnCpyS Destination DestMax Source Length m8)"
    using parts(3) by (auto simp: defs intro!: confined_bind split: option.split)
  show "confined m16 Destination DestMax (StrnCpyS Destination DestMax Source Length m16)"
    using parts(3) by (auto simp: defs intro!: confined_bind split: option.split)
  show "confined m8 Destination DestMax (AsciiStrCatS Destination DestMax Source m8)"
    using parts(4) by (auto simp: defs intro!: confined_bind split: option.split)
  show "confined m16 Destination DestMax (StrCatS Destination DestMax Source m16)"
    using parts(5) by (auto simp: defs intro!: confined_bind split: option.split)
  show "confined m8 Destination DestMax (AsciiStrnCatS Destination DestMax Source Length m8)"
    using parts(6) by (auto simp: defs intro!: confined_bind split: option.split)
  show "confined m16 Destination DestMax (StrnCatS Destination DestMax Source Length m16)"
    using parts(6) by (auto simp: defs intro!: confined_bind split: option.split)
qed

theorem safe_bounds_witness: "confined [1, 2, 3, 0] (Some 1) 2 (AsciiStrCpyS (Some 1) 2 (Some 0) [1, 2, 3, 0])"
  using safe_bounds [of "[1, 2, 3, 0]" "[]" "Some 1" 2 "Some 0" 0] by simp



text \<open>Without the check for overlap a copy towards higher addresses fills the buffer with its first unit.\<close>
lemma copy_overlap_repeats: "AsciiStrCpyS (Some 1) 4 (Some 0) [0x61, 0x62, 0, 1, 1] = Some (EFI_SUCCESS, [0x61, 0x61, 0x61, 0x61, 0])"
  by (simp add: AsciiStrCpyS_def copy_loop.simps put_def)

text \<open>A maximal size of 0 is taken for no limit.\<close>
lemma strn_len_unlimited: "AsciiStrnLenS [0x61, 0x62, 0] (Some 0) 0 = Some 2"
  by code_simp

end
