(* ===== verification/Base_Guid.thy ===== *)
theory Base_Guid
  imports Base_Safe_Strings
begin

text \<open>
  Hexadecimal byte strings and GUIDs: \<open>StrHexToBytes\<close> and \<open>StrToGuid\<close> of
  \<open>MdePkg/Library/BaseLib/SafeString.c\<close> for 16-bit and 8-bit characters. A string is the list
  of its units before the terminator; no routine reads behind it, since the terminator is
  not a hexadecimal digit.
\<close>

section \<open>Bytes\<close>

function hex_scan :: "('a :: len word \<Rightarrow> bool) \<Rightarrow> 'a word list \<Rightarrow> nat \<Rightarrow> nat \<Rightarrow> nat" where
  "hex_scan is_hex String Length Index =
     (if Index < Length \<and> is_hex (at String Index) then hex_scan is_hex String Length (Index + 1) else Index)"
  by pat_completeness auto
termination
  by (relation "measure (\<lambda>(_, _, Length, Index). Length - Index)") auto

declare hex_scan.simps [simp del]

function nibble_loop :: "('a :: len word \<Rightarrow> uintn) \<Rightarrow> 'a word list \<Rightarrow> nat \<Rightarrow> nat \<Rightarrow> byte list \<Rightarrow> byte list option" where
  "nibble_loop hex_value String Length Index Buffer =
     (if Index < Length then
        (if Index div 2 < length Buffer then
           nibble_loop hex_value String Length (Index + 1)
             (Buffer[Index div 2 :=
                (if Index mod 2 = 0 then push_bit 4 (ucast (hex_value (at String Index)))
                 else Buffer ! (Index div 2) OR ucast (hex_value (at String Index)))])
         else None)
      else Some Buffer)"
  by pat_completeness auto
termination
  by (relation "measure (\<lambda>(_, _, Length, Index, _). Length - Index)") auto

declare nibble_loop.simps [simp del]

text \<open>The common body: the status and the buffer, \<open>None\<close> when a store is outside the buffer.\<close>

definition hex_to_bytes ::
  "('a :: len word \<Rightarrow> bool) \<Rightarrow> ('a word \<Rightarrow> uintn) \<Rightarrow> 'a word list option \<Rightarrow> uintn \<Rightarrow> byte list option \<Rightarrow> uintn \<Rightarrow>
     (efi_status \<times> byte list option) option" where
  "hex_to_bytes is_hex hex_value String Length Buffer MaxBufferSize =
     (case (String, Buffer) of
        (Some s, Some b) \<Rightarrow>
          if \<not> Length \<le> RSIZE_MAX then Some (EFI_INVALID_PARAMETER, Buffer)
          else if Length AND 1 \<noteq> 0 then Some (EFI_INVALID_PARAMETER, Buffer)
          else if \<not> MaxBufferSize \<ge> Length div 2 then Some (EFI_BUFFER_TOO_SMALL, Buffer)
          else if hex_scan is_hex s (unat Length) 0 \<noteq> unat Length then Some (EFI_UNSUPPORTED, Buffer)
          else map_option (\<lambda>b. (EFI_SUCCESS, Some b)) (nibble_loop hex_value s (unat Length) 0 b)
      | _ \<Rightarrow> Some (EFI_INVALID_PARAMETER, Buffer))"

definition StrHexToBytes ::
  "char16 list option \<Rightarrow> uintn \<Rightarrow> byte list option \<Rightarrow> uintn \<Rightarrow> (efi_status \<times> byte list option) option" where
  "StrHexToBytes = hex_to_bytes InternalIsHexaDecimalDigitCharacter InternalHexCharToUintn"

definition AsciiStrHexToBytes ::
  "byte list option \<Rightarrow> uintn \<Rightarrow> byte list option \<Rightarrow> uintn \<Rightarrow> (efi_status \<times> byte list option) option" where
  "AsciiStrHexToBytes = hex_to_bytes InternalAsciiIsHexaDecimalDigitCharacter InternalAsciiHexCharToUintn"

section \<open>GUIDs\<close>

record guid =
  Data1 :: "32 word"
  Data2 :: "16 word"
  Data3 :: "16 word"
  Data4 :: "byte list"

definition SwapBytes16 :: "16 word \<Rightarrow> 16 word" where
  "SwapBytes16 Value = push_bit 8 Value OR drop_bit 8 Value"

definition SwapBytes32 :: "32 word \<Rightarrow> 32 word" where
  "SwapBytes32 Value =
     (let LowerBytes = ucast (SwapBytes16 (ucast Value)); HigherBytes = ucast (SwapBytes16 (ucast (drop_bit 16 Value))) in
      push_bit 16 LowerBytes OR HigherBytes)"

text \<open>The integer whose bytes in memory are the list.\<close>

definition le_word :: "byte list \<Rightarrow> 'a :: len word" where
  "le_word bs = foldr (\<lambda>b w. push_bit 8 w OR ucast b) bs 0"

text \<open>
  The common body of the two routines. \<open>stack\<close> is what the local \<open>GUID\<close> holds at first;
  \<open>group\<close> converts one group of digits into a part of it and checks the \<open>-\<close> behind.
\<close>

definition group ::
  "('a :: len word list option \<Rightarrow> uintn \<Rightarrow> byte list option \<Rightarrow> uintn \<Rightarrow> (efi_status \<times> byte list option) option) \<Rightarrow>
     'a word list \<Rightarrow> byte list \<Rightarrow> bool \<Rightarrow> (efi_status + byte list) option" where
  "group to_bytes s buffer dash =
     (case to_bytes (Some s) (word_of_nat (2 * length buffer)) (Some buffer) (word_of_nat (length buffer)) of
        None \<Rightarrow> None
      | Some (Status, b) \<Rightarrow>
          if Status \<noteq> EFI_SUCCESS \<or> (dash \<and> unat (at s (2 * length buffer)) \<noteq> 0x2D) then Some (Inl EFI_UNSUPPORTED)
          else map_option Inr b)"

definition bind_group :: "('e + 'a) option \<Rightarrow> ('a \<Rightarrow> ('e + 'b) option) \<Rightarrow> ('e + 'b) option" where
  "bind_group r f = (case r of None \<Rightarrow> None | Some (Inl e) \<Rightarrow> Some (Inl e) | Some (Inr x) \<Rightarrow> f x)"

definition to_guid ::
  "('a :: len word list option \<Rightarrow> uintn \<Rightarrow> byte list option \<Rightarrow> uintn \<Rightarrow> (efi_status \<times> byte list option) option) \<Rightarrow>
     byte list \<Rightarrow> 'a word list option \<Rightarrow> guid option \<Rightarrow> (efi_status \<times> guid option) option" where
  "to_guid to_bytes stack String Guid =
     (case (String, Guid) of
        (Some s, Some _) \<Rightarrow>
          map_option (\<lambda>r. case r of Inl Status \<Rightarrow> (Status, Guid) | Inr g \<Rightarrow> (EFI_SUCCESS, Some g))
            (bind_group (group to_bytes s (take 4 stack) True) (\<lambda>d1.
             bind_group (group to_bytes (drop 9 s) (take 2 (drop 4 stack)) True) (\<lambda>d2.
             bind_group (group to_bytes (drop 14 s) (take 2 (drop 6 stack)) True) (\<lambda>d3.
             bind_group (group to_bytes (drop 19 s) (take 2 (drop 8 stack)) True) (\<lambda>d4.
             bind_group (group to_bytes (drop 24 s) (take 6 (drop 10 stack)) False) (\<lambda>d5.
               Some (Inr \<lparr>Data1 = SwapBytes32 (le_word d1), Data2 = SwapBytes16 (le_word d2), Data3 = SwapBytes16 (le_word d3),
                 Data4 = d4 @ d5\<rparr>)))))))
      | _ \<Rightarrow> Some (EFI_INVALID_PARAMETER, Guid))"

definition StrToGuid :: "byte list \<Rightarrow> char16 list option \<Rightarrow> guid option \<Rightarrow> (efi_status \<times> guid option) option" where
  "StrToGuid = to_guid StrHexToBytes"

definition AsciiStrToGuid :: "byte list \<Rightarrow> byte list option \<Rightarrow> guid option \<Rightarrow> (efi_status \<times> guid option) option" where
  "AsciiStrToGuid = to_guid AsciiStrHexToBytes"

section \<open>Bytes of digits\<close>

lemma hex_scan_all: "Index \<le> Length \<Longrightarrow> hex_scan is_hex s Length Index = Length \<longleftrightarrow> (\<forall>i\<in>{Index..<Length}. is_hex (at s i))"
proof (induction "Length - Index" arbitrary: Index)
  case 0
  then show ?case by (subst hex_scan.simps) auto
next
  case (Suc n)
  then have "{Index..<Length} = insert Index {Index + 1..<Length}" by auto
  then show ?case using Suc.hyps(2) Suc.hyps(1) [of "Index + 1"] by (subst hex_scan.simps) auto
qed

text \<open>The byte two digits denote.\<close>

definition hex_pair :: "('a :: len word \<Rightarrow> uintn) \<Rightarrow> 'a word list \<Rightarrow> nat \<Rightarrow> byte" where
  "hex_pair hex_value s i = push_bit 4 (ucast (hex_value (at s (2 * i)))) OR ucast (hex_value (at s (2 * i + 1)))"

lemma nibble_loop_pairs:
  assumes "j \<le> n" "n \<le> length b"
  shows "nibble_loop hv s (2 * n) (2 * j) b = Some (take j b @ map (hex_pair hv s) [j..<n] @ drop n b)"
  using assms
proof (induction "n - j" arbitrary: j b)
  case 0
  then show ?case by (subst nibble_loop.simps) simp
next
  case (Suc m)
  let ?b = "b[j := push_bit 4 (ucast (hv (at s (2 * j))))]" and ?c = "b[j := hex_pair hv s j]"
  have j: "j < n" "j < length b" using Suc.hyps(2) Suc.prems by auto
  have "nibble_loop hv s (2 * n) (2 * j) b = nibble_loop hv s (2 * n) (2 * j + 1) ?b"
    using j by (subst nibble_loop.simps) simp
  also have "\<dots> = nibble_loop hv s (2 * n) (2 * (j + 1)) ?c"
    using j by (subst nibble_loop.simps) (simp add: hex_pair_def)
  also have "\<dots> = Some (take (j + 1) ?c @ map (hex_pair hv s) [j + 1..<n] @ drop n ?c)"
    by (rule Suc.hyps(1)) (use Suc j in auto)
  finally show ?case using j by (simp add: upt_conv_Cons [of j n])
qed

lemma hex_to_bytes_eq:
  assumes "2 * n \<le> 100000000" "unat Length = 2 * n" "unat MaxBufferSize \<ge> n" "length b \<ge> n"
  shows "hex_to_bytes is_hex hv (Some s) Length (Some b) MaxBufferSize =
    (if \<forall>i<2 * n. is_hex (at s i) then Some (EFI_SUCCESS, Some (map (hex_pair hv s) [0..<n] @ drop n b))
     else Some (EFI_UNSUPPORTED, Some b))"
proof -
  have "Length \<le> RSIZE_MAX" using assms(1,2) by (simp add: RSIZE_MAX_def word_le_nat_alt)
  moreover have "Length AND 1 = 0"
    using assms(2) by (simp add: word_unat_eq_iff and_one_eq unat_mod)
  moreover have "MaxBufferSize \<ge> Length div 2" using assms(2,3) by (simp add: word_le_nat_alt unat_div)
  ultimately show ?thesis
    using nibble_loop_pairs [of 0 n b hv s] assms(2,4) hex_scan_all [of 0 "2 * n" is_hex s]
    by (auto simp: hex_to_bytes_def)
qed

section \<open>Numbers of digits\<close>

lemma at_drop: "at (drop k s) i = at s (k + i)"
  by (auto simp: at_def)

lemma nibble_table:
  "list_all (\<lambda>a. list_all (\<lambda>b. push_bit 4 (word_of_nat a :: byte) OR word_of_nat b = word_of_nat (16 * a + b)) [0..<16]) [0..<16]"
  by code_simp

context digit_characters
begin

lemma hex_digit_less: "is_hex c \<Longrightarrow> hex_digit c < 16"
  by (auto simp: is_hex is_dec hex_digit_def)

lemma hex_pair_number:
  assumes "is_hex (at s (2 * i))" "is_hex (at s (2 * i + 1))"
  shows "hex_pair hex_value s i = word_of_nat (16 * hex_digit (at s (2 * i)) + hex_digit (at s (2 * i + 1)))"
proof -
  have "(ucast (word_of_nat n :: uintn) :: byte) = word_of_nat n" if "n < 16" for n
    using that by (simp add: unsigned_of_nat take_bit_nat_eq_self)
  then show ?thesis
    using nibble_table hex_digit_less [OF assms(1)] hex_digit_less [OF assms(2)] assms
    by (simp add: hex_pair_def hex_value list_all_iff)
qed

lemma group_eq:
  assumes "length buffer \<le> 6"
  shows "group (hex_to_bytes is_hex hex_value) s buffer dash =
    Some (if (\<forall>i<2 * length buffer. is_hex (at s i)) \<and> (dash \<longrightarrow> unat (at s (2 * length buffer)) = 0x2D)
      then Inr (map (hex_pair hex_value s) [0..<length buffer]) else Inl EFI_UNSUPPORTED)"
proof -
  have "unat (word_of_nat (2 * length buffer) :: uintn) = 2 * length buffer" "unat (word_of_nat (length buffer) :: uintn) = length buffer"
    using assms by (intro unat_of_nat_small; simp)+
  from hex_to_bytes_eq [of "length buffer", OF _ this(1), of "word_of_nat (length buffer)" buffer is_hex hex_value s] this(2) assms
  show ?thesis by (auto simp: group_def)
qed

end

lemma push_or: "push_bit 8 w OR ucast (b :: byte) = (w * 256 + ucast b :: 'a :: len word)"
proof -
  have "push_bit 8 w AND ucast b = (0 :: 'a word)" by (rule bit_word_eqI) (auto simp: bit_simps)
  from disjunctive_add_eq_or [OF this] show ?thesis by (simp add: push_bit_eq_mult)
qed

lemma swap16: "SwapBytes16 (le_word [a, b]) = word_of_nat (256 * unat a + unat b)"
proof -
  have "SwapBytes16 (le_word [a, b]) = push_bit 8 (ucast a) OR ucast b"
    by (rule bit_word_eqI) (auto simp: SwapBytes16_def le_word_def bit_simps)
  then show ?thesis by (simp add: push_or mult.commute)
qed

lemma push_or16: "push_bit 16 (ucast w) OR ucast v = (word_of_nat (65536 * unat w + unat v) :: 32 word)"
  for v w :: "16 word"
proof -
  have "push_bit 16 (ucast w) AND ucast v = (0 :: 32 word)"
    by (rule bit_word_eqI) (auto simp: bit_simps dest: bit_imp_le_length)
  from disjunctive_add_eq_or [OF this] show ?thesis by (simp add: push_bit_eq_mult mult.commute)
qed

lemma swap32:
  "SwapBytes32 (le_word [a, b, c, d]) = word_of_nat (((256 * unat a + unat b) * 256 + unat c) * 256 + unat d)"
proof -
  let ?w = "le_word [a, b, c, d] :: 32 word"
  have low: "(ucast ?w :: 16 word) = le_word [a, b]"
    by (rule bit_word_eqI) (auto simp: le_word_def bit_simps)
  have high: "(ucast (drop_bit 16 ?w) :: 16 word) = le_word [c, d]"
    by (rule bit_word_eqI) (auto simp: le_word_def bit_simps)
  have u: "unat (word_of_nat (256 * unat x + unat y) :: 16 word) = 256 * unat x + unat y" for x y :: byte
    using unat_byte_less [of x] unat_byte_less [of y] by (intro unat_of_nat_small) (simp del: unat_byte_less)
  show ?thesis unfolding SwapBytes32_def Let_def low high swap16 push_or16 u by (simp add: algebra_simps)
qed

section \<open>Properties\<close>

text \<open>
  The form of a GUID, eight, four, four, four and twelve hexadecimal digits with \<open>-\<close> between,
  and the GUID its digits denote.
\<close>

definition guid_shape :: "('a :: len word \<Rightarrow> bool) \<Rightarrow> 'a word list \<Rightarrow> bool" where
  "guid_shape is_hex s \<longleftrightarrow> (\<forall>i<36. if i \<in> {8, 13, 18, 23} then unat (at s i) = 0x2D else is_hex (at s i))"

definition hex_number_at :: "'a :: len word list \<Rightarrow> nat \<Rightarrow> nat \<Rightarrow> nat" where
  "hex_number_at s i n = numeral_value 16 hex_digit (map (at s) [i..<i + n])"

definition guid_value :: "'a :: len word list \<Rightarrow> guid" where
  "guid_value s = \<lparr>Data1 = word_of_nat (hex_number_at s 0 8), Data2 = word_of_nat (hex_number_at s 9 4),
     Data3 = word_of_nat (hex_number_at s 14 4),
     Data4 = map (\<lambda>i. word_of_nat (hex_number_at s i 2)) [19, 21, 24, 26, 28, 30, 32, 34]\<rparr>"

lemma all_less_simps: "(\<forall>i<0. P i) = True" "(\<forall>i<Suc n. P i) \<longleftrightarrow> P n \<and> (\<forall>i<n. P i)"
  by (auto simp: less_Suc_eq)

lemma numeral_value_append: "numeral_value b d (xs @ ys) = numeral_value b d xs * b ^ length ys + numeral_value b d ys"
  by (induction ys rule: rev_induct) (simp_all add: numeral_value_def algebra_simps)

lemma hex_number_add: "hex_number_at s i (m + n) = hex_number_at s i m * 16 ^ n + hex_number_at s (i + m) n"
proof -
  have "[i..<i + (m + n)] = [i..<i + m] @ [i + m..<i + m + n]"
    using upt_add_eq_append [of i "i + m" n] by (simp add: add.assoc)
  then show ?thesis by (simp add: hex_number_at_def numeral_value_append)
qed

lemma hex_number_bytes:
  "hex_number_at s i 4 = 256 * hex_number_at s i 2 + hex_number_at s (i + 2) 2"
  "hex_number_at s i 8 = ((256 * hex_number_at s i 2 + hex_number_at s (i + 2) 2) * 256 + hex_number_at s (i + 4) 2) * 256 + hex_number_at s (i + 6) 2"
  using hex_number_add [of s i 2 2] hex_number_add [of s i 2 6] hex_number_add [of s "i + 2" 2 4] hex_number_add [of s "i + 4" 2 2]
  by (simp_all add: algebra_simps del: add_2_eq_Suc')

lemma upt_small: "[0..<2] = [0, 1 :: nat]" "[0..<4] = [0, 1, 2, 3 :: nat]" "[0..<6] = [0, 1, 2, 3, 4, 5 :: nat]"
  by code_simp+

lemma guid_shape_groups:
  "guid_shape is_hex s \<longleftrightarrow> ((\<forall>i<8. is_hex (at s i)) \<and> unat (at s 8) = 0x2D) \<and> ((\<forall>i<4. is_hex (at s (9 + i))) \<and> unat (at s 13) = 0x2D) \<and>
     ((\<forall>i<4. is_hex (at s (14 + i))) \<and> unat (at s 18) = 0x2D) \<and> ((\<forall>i<4. is_hex (at s (19 + i))) \<and> unat (at s 23) = 0x2D) \<and>
     (\<forall>i<12. is_hex (at s (24 + i)))"
  unfolding guid_shape_def by (simp add: eval_nat_numeral all_less_simps conj_ac)

context digit_characters
begin

lemma pair_number:
  assumes "is_hex (at s (k + 2 * i))" "is_hex (at s (k + 2 * i + 1))"
  shows "hex_pair hex_value (drop k s) i = word_of_nat (hex_number_at s (k + 2 * i) 2)"
    "unat (hex_pair hex_value (drop k s) i) = hex_number_at s (k + 2 * i) 2"
proof -
  have "hex_number_at s (k + 2 * i) 2 = 16 * hex_digit (at s (k + 2 * i)) + hex_digit (at s (k + 2 * i + 1))"
    by (simp add: hex_number_at_def numeral_value_def numeral_2_eq_2 upt_conv_Cons)
  moreover from this show *: "hex_pair hex_value (drop k s) i = word_of_nat (hex_number_at s (k + 2 * i) 2)"
    using hex_pair_number [of "drop k s" i] assms by (simp add: at_drop add.assoc)
  ultimately show "unat (hex_pair hex_value (drop k s) i) = hex_number_at s (k + 2 * i) 2"
    using hex_digit_less [OF assms(1)] hex_digit_less [OF assms(2)] unfolding * by (intro unat_of_nat_small) simp
qed

lemma to_guid_eq:
  assumes "length stack = 16"
  shows "to_guid (hex_to_bytes is_hex hex_value) stack (Some s) (Some g) =
    Some (if guid_shape is_hex s then (EFI_SUCCESS, Some (guid_value s)) else (EFI_UNSUPPORTED, Some g))"
proof (cases "guid_shape is_hex s")
  case False
  then show ?thesis
    using assms by (auto simp: to_guid_def group_eq bind_group_def at_drop guid_shape_groups)
next
  case True
  let ?p = "\<lambda>k. hex_pair hex_value (drop k s)"
  have hex: "is_hex (at s i)" if "i < 36" "i \<notin> {8, 13, 18, 23}" for i
    using True that by (auto simp: guid_shape_def split: if_splits)
  have "SwapBytes32 (le_word (map (?p 0) [0..<4])) = word_of_nat (hex_number_at s 0 8)"
    using pair_number(2) [of s 0] hex unfolding upt_small list.map swap32 hex_number_bytes by (simp del: add_2_eq_Suc')
  moreover have "SwapBytes16 (le_word (map (?p 9) [0..<2])) = word_of_nat (hex_number_at s 9 4)"
    using pair_number(2) [of s 9] hex unfolding upt_small list.map swap16 hex_number_bytes by simp
  moreover have "SwapBytes16 (le_word (map (?p 14) [0..<2])) = word_of_nat (hex_number_at s 14 4)"
    using pair_number(2) [of s 14] hex unfolding upt_small list.map swap16 hex_number_bytes by simp
  moreover have "map (?p 19) [0..<2] @ map (?p 24) [0..<6] =
      map (\<lambda>i. word_of_nat (hex_number_at s i 2)) [19, 21, 24, 26, 28, 30, 32, 34]"
    using pair_number(1) [of s 19] pair_number(1) [of s 24] hex unfolding upt_small by simp
  ultimately show ?thesis
    using assms True unfolding guid_shape_groups guid_value_def
    by (simp add: to_guid_def group_eq bind_group_def at_drop)
qed

end



end
