(* ===== verification/Base_Ip.thy ===== *)
theory Base_Ip
  imports Base_Guid
begin

text \<open>
  Internet addresses: \<open>StrToIpv4Address\<close> and \<open>StrToIpv6Address\<close> of
  \<open>MdePkg/Library/BaseLib/SafeString.c\<close> for 16-bit and 8-bit characters. A pointer into the
  string is the list of the units from there to the terminator. The output parameters
  \<open>EndPointer\<close> and \<open>PrefixLength\<close> are results, \<open>None\<close> when nothing is stored; \<open>stack\<close> is what
  the local address holds at first.
\<close>

lemma decimal_digits_length: "length (snd (decimal_digits is_dec d s)) \<le> length s"
  by (induction is_dec d s rule: decimal_digits.induct) auto

lemma hex_digits_length: "length (snd (hex_digits is_hex hv d s)) \<le> length s"
  by (induction is_hex hv d s rule: hex_digits.induct) auto

lemma decimal_conversion_length:
  "decimal_conversion is_dec (Some s) v = (Status, Some rest, d) \<Longrightarrow> length rest \<le> length s"
  using decimal_digits_length [of is_dec 0 "dropWhile zero_digit (dropWhile pad s)"]
    length_dropWhile_le [of zero_digit "dropWhile pad s"] length_dropWhile_le [of pad s]
  by (auto simp: decimal_conversion_def split: option.splits prod.splits)

lemma hex_conversion_length:
  "hex_conversion is_hex hv up (Some s) v = Some (Status, Some rest, d) \<Longrightarrow> length rest \<le> length s"
  using hex_digits_length [of is_hex hv 0 "dropWhile zero_digit (dropWhile pad s)"]
    hex_digits_length [of is_hex hv 0 "drop 1 (dropWhile zero_digit (dropWhile pad s))"]
    length_dropWhile_le [of zero_digit "dropWhile pad s"] length_dropWhile_le [of pad s]
  by (auto simp: hex_conversion_def Let_def split: option.splits prod.splits if_splits)

lemma decimal_conversion_total: "\<exists>e n. decimal_conversion is_dec (Some s) (Some v) = (EFI_SUCCESS, Some e, Some n)"
  by (auto simp: decimal_conversion_def Let_def split: prod.split)

lemma next_shorter: "length p \<le> length q \<Longrightarrow> unat (at p 0) = numeral k \<Longrightarrow> length p - Suc 0 < length q"
  by (cases p) auto

section \<open>IPv4\<close>

text \<open>Storing the number just read, as an octet or as the length of the prefix.\<close>

definition ipv4_store :: "nat \<Rightarrow> byte list \<Rightarrow> byte \<Rightarrow> uintn \<Rightarrow> efi_status + nat \<times> byte list \<times> byte" where
  "ipv4_store AddressIndex LocalAddress LocalPrefixLength n =
     (if AddressIndex = 4 then
        (if n > 32 then Inl EFI_UNSUPPORTED else Inr (AddressIndex, LocalAddress, ucast n))
      else if n > 0xFF then Inl EFI_UNSUPPORTED
      else Inr (AddressIndex + 1, LocalAddress[AddressIndex := ucast n], LocalPrefixLength))"

function ipv4_loop ::
  "('a :: len word \<Rightarrow> bool) \<Rightarrow> 'a word list \<Rightarrow> nat \<Rightarrow> byte list \<Rightarrow> byte \<Rightarrow> efi_status + 'a word list \<times> nat \<times> byte list \<times> byte" where
  "ipv4_loop is_dec Pointer AddressIndex LocalAddress LocalPrefixLength =
     (if \<not> AddressIndex < 5 \<or> \<not> is_dec (at Pointer 0) then Inr (Pointer, AddressIndex, LocalAddress, LocalPrefixLength)
      else
        (case decimal_conversion is_dec (Some Pointer) (Some 0) of
           (Status, Some p, Some n) \<Rightarrow>
             if Status \<noteq> EFI_SUCCESS then Inl EFI_UNSUPPORTED
             else
               (case ipv4_store AddressIndex LocalAddress LocalPrefixLength n of
                  Inl e \<Rightarrow> Inl e
                | Inr (i, a, l) \<Rightarrow>
                    if i = 4 then
                      (if unat (at p 0) = 0x2F then ipv4_loop is_dec (drop 1 p) i a l else Inr (p, i, a, l))
                    else if unat (at p 0) = 0x2E then ipv4_loop is_dec (drop 1 p) i a l
                    else Inl EFI_UNSUPPORTED)
         | _ \<Rightarrow> Inl EFI_UNSUPPORTED))"
  by pat_completeness auto
termination
  by (relation "measure (\<lambda>(_, Pointer, _). length Pointer)")
    (auto dest!: decimal_conversion_length [OF sym] intro: next_shorter)

declare ipv4_loop.simps [simp del]

definition to_ipv4 ::
  "('a :: len word \<Rightarrow> bool) \<Rightarrow> byte list \<Rightarrow> 'a word list option \<Rightarrow> byte list option \<Rightarrow>
     efi_status \<times> byte list option \<times> byte option \<times> 'a word list option" where
  "to_ipv4 is_dec stack String Address =
     (case (String, Address) of
        (Some s, Some _) \<Rightarrow>
          (case ipv4_loop is_dec s 0 stack 0xFF of
             Inl e \<Rightarrow> (e, Address, None, None)
           | Inr (Pointer, AddressIndex, LocalAddress, LocalPrefixLength) \<Rightarrow>
               if AddressIndex < 4 then (EFI_UNSUPPORTED, Address, None, None)
               else (EFI_SUCCESS, Some LocalAddress, Some LocalPrefixLength, Some Pointer))
      | _ \<Rightarrow> (EFI_INVALID_PARAMETER, Address, None, None))"

definition StrToIpv4Address ::
  "byte list \<Rightarrow> char16 list option \<Rightarrow> byte list option \<Rightarrow> efi_status \<times> byte list option \<times> byte option \<times> char16 list option" where
  "StrToIpv4Address = to_ipv4 InternalIsDecimalDigitCharacter"

definition AsciiStrToIpv4Address ::
  "byte list \<Rightarrow> byte list option \<Rightarrow> byte list option \<Rightarrow> efi_status \<times> byte list option \<times> byte option \<times> byte list option" where
  "AsciiStrToIpv4Address = to_ipv4 InternalAsciiIsDecimalDigitCharacter"

section \<open>IPv6\<close>

record 'u ipv6 =
  Pointer :: "'u list"
  AddressIndex :: nat
  LocalAddress :: "byte list"
  LocalPrefixLength :: byte
  CompressStart :: nat
  ExpectPrefix :: bool

abbreviation colon :: "'a :: len word \<Rightarrow> bool" where
  "colon c \<equiv> unat c = 0x3A"

abbreviation slash :: "'a :: len word \<Rightarrow> bool" where
  "slash c \<equiv> unat c = 0x2F"

text \<open>The first part of the body: a second colon starts the compressed zeros.\<close>

definition ipv6_compress :: "('a :: len word \<Rightarrow> bool) \<Rightarrow> 'a word ipv6 \<Rightarrow> efi_status + 'a word ipv6" where
  "ipv6_compress is_hex st =
     (if is_hex (at (Pointer st) 0) then Inr st
      else if \<not> colon (at (Pointer st) 0) then Inl EFI_UNSUPPORTED
      else if ExpectPrefix st then Inl EFI_UNSUPPORTED
      else if CompressStart st \<noteq> 16 \<or> AddressIndex st = 16 then Inl EFI_UNSUPPORTED
      else
        (let st = st\<lparr>CompressStart := AddressIndex st, Pointer := drop 1 (Pointer st)\<rparr> in
         if CompressStart st = 0 then
           (if \<not> colon (at (Pointer st) 0) then Inl EFI_UNSUPPORTED else Inr (st\<lparr>Pointer := drop 1 (Pointer st)\<rparr>))
         else Inr st))"

text \<open>The last part: what separates this number from the next. The flag tells whether the loop goes on.\<close>

definition ipv6_separator :: "'a :: len word ipv6 \<Rightarrow> bool \<times> 'a word ipv6" where
  "ipv6_separator st =
     (if slash (at (Pointer st) 0) then (True, st\<lparr>ExpectPrefix := True, Pointer := drop 1 (Pointer st)\<rparr>)
      else if colon (at (Pointer st) 0) then
        (if AddressIndex st = 16 then (False, st) else (True, st\<lparr>Pointer := drop 1 (Pointer st)\<rparr>))
      else (False, st))"

text \<open>The number between: \<open>None\<close> for a store outside the local address.\<close>

definition ipv6_step ::
  "('a :: len word \<Rightarrow> bool) \<Rightarrow> ('a word \<Rightarrow> bool) \<Rightarrow> ('a word \<Rightarrow> uintn) \<Rightarrow> ('a word \<Rightarrow> 'a word) \<Rightarrow>
     'a word ipv6 \<Rightarrow> (efi_status + bool \<times> 'a word ipv6) option" where
  "ipv6_step is_dec is_hex hex_value to_upper st =
     (case ipv6_compress is_hex st of
        Inl e \<Rightarrow> Some (Inl e)
      | Inr st \<Rightarrow>
          if \<not> is_hex (at (Pointer st) 0) then
            (if slash (at (Pointer st) 0) then
               (if CompressStart st \<noteq> AddressIndex st then Some (Inl EFI_UNSUPPORTED) else Some (Inr (ipv6_separator st)))
             else Some (Inr (False, st)))
          else if \<not> ExpectPrefix st then
            (case hex_conversion is_hex hex_value to_upper (Some (Pointer st)) (Some 0) of
               Some (Status, Some End, Some Uintn) \<Rightarrow>
                 if Status \<noteq> EFI_SUCCESS \<or> length (Pointer st) - length End > 4 then Some (Inl EFI_UNSUPPORTED)
                 else if AddressIndex st + 1 < length (LocalAddress st) then
                   Some (Inr (ipv6_separator (st\<lparr>Pointer := End,
                     LocalAddress := (LocalAddress st)[AddressIndex st := ucast (drop_bit 8 (ucast Uintn :: 16 word)),
                       AddressIndex st + 1 := ucast Uintn],
                     AddressIndex := AddressIndex st + 2\<rparr>)))
                 else None
             | _ \<Rightarrow> None)
          else
            (case decimal_conversion is_dec (Some (Pointer st)) (Some 0) of
               (Status, Some End, Some Uintn) \<Rightarrow>
                 if Status \<noteq> EFI_SUCCESS \<or> End = Pointer st \<or> Uintn > 128 then Some (Inl EFI_UNSUPPORTED)
                 else Some (Inr (False, st\<lparr>LocalPrefixLength := ucast Uintn, Pointer := End\<rparr>))
             | _ \<Rightarrow> None))"

lemma ipv6_separator_shorter:
  "ipv6_separator st = (True, st') \<Longrightarrow> length (Pointer st') < length (Pointer st)"
  by (cases "Pointer st") (auto simp: ipv6_separator_def split: if_splits)

lemma ipv6_compress_shorter:
  "ipv6_compress is_hex st = Inr st' \<Longrightarrow> length (Pointer st') \<le> length (Pointer st)"
  by (auto simp: ipv6_compress_def Let_def split: if_splits)

lemma ipv6_step_shorter:
  assumes "ipv6_step is_dec is_hex hv up st = Some (Inr (True, st'))"
  shows "length (Pointer st') < length (Pointer st)"
proof -
  from assms obtain st1 where c: "ipv6_compress is_hex st = Inr st1"
    by (auto simp: ipv6_step_def split: sum.splits)
  from assms show ?thesis
    using ipv6_compress_shorter [OF c]
    by (auto simp: ipv6_step_def c split: if_splits option.splits prod.splits
        dest!: ipv6_separator_shorter hex_conversion_length)
qed

function ipv6_loop ::
  "('a :: len word \<Rightarrow> bool) \<Rightarrow> ('a word \<Rightarrow> bool) \<Rightarrow> ('a word \<Rightarrow> uintn) \<Rightarrow> ('a word \<Rightarrow> 'a word) \<Rightarrow>
     'a word ipv6 \<Rightarrow> (efi_status + 'a word ipv6) option" where
  "ipv6_loop is_dec is_hex hex_value to_upper st =
     (if AddressIndex st < 17 then
        (case ipv6_step is_dec is_hex hex_value to_upper st of
           None \<Rightarrow> None
         | Some (Inl e) \<Rightarrow> Some (Inl e)
         | Some (Inr (go_on, st')) \<Rightarrow>
             if go_on then ipv6_loop is_dec is_hex hex_value to_upper st' else Some (Inr st'))
      else Some (Inr st))"
  by pat_completeness auto
termination
  by (relation "measure (\<lambda>(_, _, _, _, st). length (Pointer st))") (auto dest: ipv6_step_shorter)

declare ipv6_loop.simps [simp del]

text \<open>Storing the address, with the compressed zeros.\<close>

definition ipv6_expand :: "'u ipv6 \<Rightarrow> byte list \<Rightarrow> byte list" where
  "ipv6_expand st Address =
     (let c = CompressStart st; i = AddressIndex st;
          a1 = written Address 0 (take c (LocalAddress st));
          a2 = written a1 c (replicate (16 - i) 0) in
      if i > c then written a2 (c + 16 - i) (take (i - c) (drop c (LocalAddress st))) else a2)"

definition to_ipv6 ::
  "('a :: len word \<Rightarrow> bool) \<Rightarrow> ('a word \<Rightarrow> bool) \<Rightarrow> ('a word \<Rightarrow> uintn) \<Rightarrow> ('a word \<Rightarrow> 'a word) \<Rightarrow>
     byte list \<Rightarrow> 'a word list option \<Rightarrow> byte list option \<Rightarrow>
     (efi_status \<times> byte list option \<times> byte option \<times> 'a word list option) option" where
  "to_ipv6 is_dec is_hex hex_value to_upper stack String Address =
     (case (String, Address) of
        (Some s, Some a) \<Rightarrow>
          (case ipv6_loop is_dec is_hex hex_value to_upper \<lparr>Pointer = s, AddressIndex = 0, LocalAddress = stack,
             LocalPrefixLength = 0xFF, CompressStart = 16, ExpectPrefix = False\<rparr> of
             None \<Rightarrow> None
           | Some (Inl e) \<Rightarrow> Some (e, Address, None, None)
           | Some (Inr st) \<Rightarrow>
               if (AddressIndex st = 16 \<and> CompressStart st \<noteq> 16) \<or> (AddressIndex st \<noteq> 16 \<and> CompressStart st = 16)
               then Some (EFI_UNSUPPORTED, Address, None, None)
               else Some (EFI_SUCCESS, Some (ipv6_expand st a), Some (LocalPrefixLength st), Some (Pointer st)))
      | _ \<Rightarrow> Some (EFI_INVALID_PARAMETER, Address, None, None))"

definition StrToIpv6Address ::
  "byte list \<Rightarrow> char16 list option \<Rightarrow> byte list option \<Rightarrow> (efi_status \<times> byte list option \<times> byte option \<times> char16 list option) option" where
  "StrToIpv6Address = to_ipv6 InternalIsDecimalDigitCharacter InternalIsHexaDecimalDigitCharacter InternalHexCharToUintn CharToUpper"

definition AsciiStrToIpv6Address ::
  "byte list \<Rightarrow> byte list option \<Rightarrow> byte list option \<Rightarrow> (efi_status \<times> byte list option \<times> byte option \<times> byte list option) option" where
  "AsciiStrToIpv6Address =
     to_ipv6 InternalAsciiIsDecimalDigitCharacter InternalAsciiIsHexaDecimalDigitCharacter InternalAsciiHexCharToUintn AsciiCharToUpper"

section \<open>Reading numbers\<close>

lemma byte_of_number: "n < 256 \<Longrightarrow> (ucast (word_of_nat n :: uintn) :: byte) = word_of_nat n"
  by (simp add: unsigned_of_nat take_bit_nat_eq_self)

definition octet :: "'a :: len word list \<Rightarrow> byte" where
  "octet ds = word_of_nat (numeral_value 10 decimal_digit ds)"

definition group_bytes :: "'a :: len word list \<Rightarrow> byte list" where
  "group_bytes g = [word_of_nat (numeral_value 16 hex_digit g div 256), word_of_nat (numeral_value 16 hex_digit g mod 256)]"

lemma written_written: "i + length xs \<le> length l \<Longrightarrow> written (written l i xs) (i + length xs) ys = written l i (xs @ ys)"
  by (simp add: written_def ac_simps)

lemma written_pair: "i + 1 < length l \<Longrightarrow> l[i := x, i + 1 := y] = written l i [x, y]"
  using put_written [of i l x] put_written [of "i + 1" "l[i := x]" y] written_written [of i "[x]" l "[y]"]
  by (simp add: put_def length_written)

text \<open>A decimal number up to \<open>m\<close>, and one of the groups of an IPv6 address.\<close>

definition number_ok :: "('a :: len word \<Rightarrow> bool) \<Rightarrow> nat \<Rightarrow> 'a word list \<Rightarrow> bool" where
  "number_ok is_dec m ds \<longleftrightarrow> list_all is_dec ds \<and> ds \<noteq> [] \<and> numeral_value 10 decimal_digit ds \<le> m"

definition group_ok :: "('a :: len word \<Rightarrow> bool) \<Rightarrow> 'a word list \<Rightarrow> bool" where
  "group_ok is_hex g \<longleftrightarrow> list_all is_hex g \<and> g \<noteq> [] \<and> length g \<le> 4"

text \<open>Groups that are each followed by a colon, and a rest that does not continue an address.\<close>

definition colons :: "'a :: len word \<Rightarrow> 'a word list list \<Rightarrow> 'a word list" where
  "colons c gs = concat (map (\<lambda>g. g @ [c]) gs)"

definition ends :: "('a :: len word \<Rightarrow> bool) \<Rightarrow> 'a word list \<Rightarrow> bool" where
  "ends is_hex rest \<longleftrightarrow> rest = [] \<or> \<not> is_hex (hd rest) \<and> unat (hd rest) \<notin> {0x58, 0x78, 0x3A, 0x2F}"

fun join :: "'a \<Rightarrow> 'a list list \<Rightarrow> 'a list" where
  "join c [] = []"
| "join c [g] = g"
| "join c (g # gs) = g @ c # join c gs"

lemma join_snoc: "join c (gs @ [g]) = colons c gs @ g"
  by (induction c gs rule: join.induct) (auto simp: colons_def)

lemma join_head: "gs \<noteq> [] \<Longrightarrow> \<exists>u. join c gs = hd gs @ u"
  by (cases "(c, gs)" rule: join.cases) auto

lemma colons_join: "gs \<noteq> [] \<Longrightarrow> colons c gs = join c gs @ [c]"
  by (induction c gs rule: join.induct) (auto simp: colons_def)

lemma length_group_bytes: "length (concat (map group_bytes gs)) = 2 * length gs"
  by (induction gs) (simp_all add: group_bytes_def)

lemma ipv6_expand_eq:
  assumes "LocalAddress st = written stack 0 (B1 @ B2)" "CompressStart st = length B1" "AddressIndex st = length B1 + length B2"
    "AddressIndex st \<le> 16" "length Address = 16"
  shows "ipv6_expand st Address = B1 @ replicate (16 - AddressIndex st) 0 @ B2"
  using assms by (auto simp: ipv6_expand_def Let_def written_def)

context digit_characters
begin

lemma at_append_digit: "list_all P ds \<Longrightarrow> ds \<noteq> [] \<Longrightarrow> P (at (ds @ t) 0)"
  by (cases ds) auto

lemma ipv4_number:
  assumes "list_all is_dec ds" "ds \<noteq> []" "rest = [] \<or> \<not> is_dec (hd rest)" "idx < 5"
    "ipv4_store idx a l (word_of_nat (numeral_value 10 decimal_digit ds)) = Inr (i, b, k)"
  shows "ipv4_loop is_dec (ds @ rest) idx a l =
    (if i = 4 then if slash (at rest 0) then ipv4_loop is_dec (drop 1 rest) i b k else Inr (rest, i, b, k)
     else if unat (at rest 0) = 0x2E then ipv4_loop is_dec (drop 1 rest) i b k else Inl EFI_UNSUPPORTED)"
  using decimal_number [of "[]" ds rest 0] assms at_append_digit [OF assms(1,2), of rest]
  by (subst ipv4_loop.simps) simp

lemma ipv4_store_octet:
  assumes "number_ok is_dec 255 ds" "idx < 4"
  shows "ipv4_store idx a l (word_of_nat (numeral_value 10 decimal_digit ds)) = Inr (idx + 1, a[idx := octet ds], l)"
proof -
  have n: "numeral_value 10 decimal_digit ds < 256" using assms(1) by (simp add: number_ok_def)
  then have "unat (word_of_nat (numeral_value 10 decimal_digit ds) :: uintn) = numeral_value 10 decimal_digit ds"
    by (intro unat_of_nat_small) simp
  then show ?thesis using n assms(2) byte_of_number [OF n] by (simp add: ipv4_store_def octet_def word_less_nat_alt)
qed

lemma ipv4_store_prefix:
  assumes "number_ok is_dec 32 ds"
  shows "ipv4_store 4 a l (word_of_nat (numeral_value 10 decimal_digit ds)) = Inr (4, a, octet ds)"
proof -
  have n: "numeral_value 10 decimal_digit ds < 256" "numeral_value 10 decimal_digit ds \<le> 32" using assms(1) by (simp_all add: number_ok_def)
  then have "unat (word_of_nat (numeral_value 10 decimal_digit ds) :: uintn) = numeral_value 10 decimal_digit ds"
    by (intro unat_of_nat_small) simp
  then show ?thesis using n(2) byte_of_number [OF n(1)] by (simp add: ipv4_store_def octet_def word_less_nat_alt)
qed

lemma not_dec_sep: "unat c = 0x2E \<or> unat c = 0x2F \<Longrightarrow> \<not> is_dec c"
  by (auto simp: is_dec)

lemma ipv4_octet:
  assumes "number_ok is_dec 255 ds" "idx < 3" "unat dot = 0x2E"
  shows "ipv4_loop is_dec (ds @ dot # t) idx a l = ipv4_loop is_dec t (idx + 1) (a[idx := octet ds]) l"
  using ipv4_number [of ds "dot # t" idx a l, OF _ _ _ _ ipv4_store_octet [OF assms(1)]] assms not_dec_sep [of dot]
  by (simp add: number_ok_def)

lemma ipv4_last:
  assumes "number_ok is_dec 255 ds" "rest = [] \<or> \<not> is_dec (hd rest)"
  shows "ipv4_loop is_dec (ds @ rest) 3 a l =
    (if slash (at rest 0) then ipv4_loop is_dec (drop 1 rest) 4 (a[3 := octet ds]) l else Inr (rest, 4, a[3 := octet ds], l))"
  using ipv4_number [of ds rest 3 a l, OF _ _ assms(2) _ ipv4_store_octet [OF assms(1)]] assms by (simp add: number_ok_def)

lemma ipv4_prefix:
  assumes "number_ok is_dec 32 ds" "rest = [] \<or> \<not> is_dec (hd rest) \<and> \<not> slash (hd rest)"
  shows "ipv4_loop is_dec (ds @ rest) 4 a l = Inr (rest, 4, a, octet ds)"
proof -
  have "\<not> slash (at rest 0)" using assms(2) by (cases rest) auto
  then show ?thesis
    using ipv4_number [of ds rest 4 a l, OF _ _ _ _ ipv4_store_prefix [OF assms(1)]] assms by (auto simp: number_ok_def)
qed

lemma ipv4_address:
  assumes "number_ok is_dec 255 d0" "number_ok is_dec 255 d1" "number_ok is_dec 255 d2" "number_ok is_dec 255 d3" "unat dot = 0x2E" "length stack = 4"
    "rest = [] \<or> \<not> is_dec (hd rest) \<and> \<not> slash (hd rest)"
  shows "to_ipv4 is_dec stack (Some (d0 @ dot # d1 @ dot # d2 @ dot # d3 @ rest)) (Some a) =
      (EFI_SUCCESS, Some [octet d0, octet d1, octet d2, octet d3], Some 0xFF, Some rest)"
    "number_ok is_dec 32 p \<Longrightarrow> unat sl = 0x2F \<Longrightarrow>
      to_ipv4 is_dec stack (Some (d0 @ dot # d1 @ dot # d2 @ dot # d3 @ sl # p @ rest)) (Some a) =
      (EFI_SUCCESS, Some [octet d0, octet d1, octet d2, octet d3], Some (octet p), Some rest)"
proof -
  from assms(6) obtain s0 s1 s2 s3 where stack: "stack = [s0, s1, s2, s3]"
    by (auto simp: numeral_eq_Suc length_Suc_conv)
  have run: "ipv4_loop is_dec (d0 @ dot # d1 @ dot # d2 @ dot # d3 @ t) 0 stack 0xFF = ipv4_loop is_dec (d3 @ t) 3 [octet d0, octet d1, octet d2, s3] 0xFF" for t
    using assms(1-3,5) by (simp add: ipv4_octet stack numeral_eq_Suc)
  have r: "rest = [] \<or> \<not> is_dec (hd rest)" "\<not> slash (at rest 0)" using assms(7) by (cases rest; auto)+
  show "to_ipv4 is_dec stack (Some (d0 @ dot # d1 @ dot # d2 @ dot # d3 @ rest)) (Some a) =
      (EFI_SUCCESS, Some [octet d0, octet d1, octet d2, octet d3], Some 0xFF, Some rest)"
    using ipv4_last [OF assms(4) r(1)] r(2) by (simp add: to_ipv4_def run)
  show "to_ipv4 is_dec stack (Some (d0 @ dot # d1 @ dot # d2 @ dot # d3 @ sl # p @ rest)) (Some a) =
      (EFI_SUCCESS, Some [octet d0, octet d1, octet d2, octet d3], Some (octet p), Some rest)" if "number_ok is_dec 32 p" "unat sl = 0x2F"
    using ipv4_last [OF assms(4), of "sl # p @ rest"] ipv4_prefix [OF that(1) assms(7)] not_dec_sep [of sl] that(2)
    by (simp add: to_ipv4_def run)
qed

lemma numeral_16_bound: "list_all is_hex g \<Longrightarrow> numeral_value 16 hex_digit g < 16 ^ length g"
proof (induction g rule: rev_induct)
  case (snoc d g)
  then have "numeral_value 16 hex_digit g + 1 \<le> 16 ^ length g" "hex_digit d < 16" by (auto simp: hex_digit_less)
  then show ?case by (simp add: numeral_value_def)
qed (simp add: numeral_value_def)

lemma ipv6_group:
  assumes "group_ok is_hex g" "rest = [] \<or> \<not> is_hex (hd rest) \<and> unat (hd rest) \<notin> {0x58, 0x78}"
    "Pointer st = g @ rest" "\<not> ExpectPrefix st" "AddressIndex st + 1 < length (LocalAddress st)"
  shows "ipv6_step is_dec is_hex hex_value to_upper st =
    Some (Inr (ipv6_separator (st\<lparr>Pointer := rest, LocalAddress := written (LocalAddress st) (AddressIndex st) (group_bytes g),
      AddressIndex := AddressIndex st + 2\<rparr>)))"
proof -
  let ?n = "numeral_value 16 hex_digit g"
  have g: "list_all is_hex g" "g \<noteq> []" "length g \<le> 4" using assms(1) by (auto simp: group_ok_def)
  have "(16 :: nat) ^ length g \<le> 16 ^ 4" using g(3) by (intro power_increasing) simp_all
  then have n: "?n < 65536" using numeral_16_bound [OF g(1)] by simp
  have hex: "is_hex (at (g @ rest) 0)" by (rule at_append_digit [OF g(1,2)])
  have "(ucast (word_of_nat ?n :: uintn) :: 16 word) = word_of_nat ?n" using n by (simp add: unsigned_of_nat take_bit_nat_eq_self)
  moreover have "drop_bit 8 (word_of_nat ?n :: 16 word) = word_of_nat (?n div 256)"
    using n by (simp add: word_unat_eq_iff unsigned_of_nat take_bit_nat_eq_self drop_bit_eq_div unat_div)
  moreover have "?n div 256 < 256" using n by (simp add: less_mult_imp_div_less)
  then have "(ucast (word_of_nat (?n div 256) :: 16 word) :: byte) = word_of_nat (?n div 256)"
    by (simp add: unsigned_of_nat take_bit_nat_eq_self)
  moreover have "(ucast (word_of_nat ?n :: uintn) :: byte) = word_of_nat (?n mod 256)"
    using n by (simp add: word_unat_eq_iff unsigned_ucast_eq unsigned_of_nat take_bit_nat_eq_self take_bit_eq_mod)
  ultimately have bytes: "[ucast (drop_bit 8 (ucast (word_of_nat ?n :: uintn) :: 16 word)), ucast (word_of_nat ?n :: uintn)] = group_bytes g"
    by (simp add: group_bytes_def)
  have "hex_conversion is_hex hex_value to_upper (Some (g @ rest)) (Some 0) = Some (EFI_SUCCESS, Some rest, Some (word_of_nat ?n))"
    using hex_plain [of "[]" g rest 0] g assms(2) by simp
  then show ?thesis
    using hex assms(3-5) g(3) written_pair [OF assms(5)] bytes
    by (simp add: ipv6_step_def ipv6_compress_def del: of_nat_mod)
qed

lemma not_hex_colon: "colon c \<Longrightarrow> \<not> is_hex c"
  by (auto simp: is_hex is_dec)

lemma ipv6_groups:
  assumes "list_all (group_ok is_hex) gs" "colon c" "Pointer st = colons c gs @ t" "\<not> ExpectPrefix st"
    "AddressIndex st + 2 * length gs < 16" "length (LocalAddress st) = 16"
  shows "ipv6_loop is_dec is_hex hex_value to_upper st =
    ipv6_loop is_dec is_hex hex_value to_upper (st\<lparr>Pointer := t,
      LocalAddress := written (LocalAddress st) (AddressIndex st) (concat (map group_bytes gs)),
      AddressIndex := AddressIndex st + 2 * length gs\<rparr>)"
  using assms
proof (induction gs arbitrary: st)
  case Nil
  then have "st\<lparr>Pointer := t\<rparr> = st" by (cases st) (simp add: colons_def)
  then show ?case by (simp add: written_def)
next
  case (Cons g gs)
  let ?st = "st\<lparr>Pointer := colons c gs @ t, LocalAddress := written (LocalAddress st) (AddressIndex st) (group_bytes g),
    AddressIndex := AddressIndex st + 2\<rparr>"
  have "ipv6_step is_dec is_hex hex_value to_upper st = Some (Inr (True, ?st))"
    using ipv6_group [of g "c # colons c gs @ t" st] Cons.prems not_hex_colon [of c]
    by (simp add: ipv6_separator_def colons_def)
  then have "ipv6_loop is_dec is_hex hex_value to_upper st = ipv6_loop is_dec is_hex hex_value to_upper ?st"
    using Cons.prems(5) by (subst ipv6_loop.simps) simp
  also have "\<dots> = ipv6_loop is_dec is_hex hex_value to_upper (?st\<lparr>Pointer := t,
      LocalAddress := written (LocalAddress ?st) (AddressIndex ?st) (concat (map group_bytes gs)),
      AddressIndex := AddressIndex ?st + 2 * length gs\<rparr>)"
    by (rule Cons.IH) (use Cons.prems in \<open>auto simp: length_written group_bytes_def\<close>)
  also have "written (LocalAddress ?st) (AddressIndex ?st) (concat (map group_bytes gs)) =
      written (LocalAddress st) (AddressIndex st) (concat (map group_bytes (g # gs)))"
    using written_written [of "AddressIndex st" "group_bytes g" "LocalAddress st"] Cons.prems(5,6) by (simp add: group_bytes_def)
  finally show ?case by (simp add: add.assoc)
qed

text \<open>The last group, in front of a rest that does not continue the address.\<close>

lemma ipv6_last:
  assumes "group_ok is_hex g" "ends is_hex rest" "Pointer st = g @ rest" "\<not> ExpectPrefix st" "AddressIndex st < 15" "length (LocalAddress st) = 16"
  shows "ipv6_loop is_dec is_hex hex_value to_upper st =
    Some (Inr (st\<lparr>Pointer := rest, LocalAddress := written (LocalAddress st) (AddressIndex st) (group_bytes g),
      AddressIndex := AddressIndex st + 2\<rparr>))"
proof -
  have "\<not> slash (at rest 0)" "\<not> colon (at rest 0)" using assms(2) by (cases rest; auto simp: ends_def)+
  then show ?thesis
    using ipv6_group [of g rest st] assms by (subst ipv6_loop.simps) (auto simp: ends_def ipv6_separator_def)
qed

abbreviation start :: "byte list \<Rightarrow> 'a word list \<Rightarrow> 'a word ipv6" where
  "start stack s \<equiv> \<lparr>Pointer = s, AddressIndex = 0, LocalAddress = stack, LocalPrefixLength = 0xFF, CompressStart = 16, ExpectPrefix = False\<rparr>"

lemma ipv6_run:
  assumes "list_all (group_ok is_hex) gs" "gs \<noteq> []" "colon c" "ends is_hex rest" "Pointer st = join c gs @ rest" "\<not> ExpectPrefix st"
    "AddressIndex st + 2 * length gs \<le> 16" "length (LocalAddress st) = 16"
  shows "ipv6_loop is_dec is_hex hex_value to_upper st =
    Some (Inr (st\<lparr>Pointer := rest, LocalAddress := written (LocalAddress st) (AddressIndex st) (concat (map group_bytes gs)),
      AddressIndex := AddressIndex st + 2 * length gs\<rparr>))"
proof -
  obtain hs g where gs: "gs = hs @ [g]" using assms(2) by (cases gs rule: rev_cases) auto
  let ?st = "st\<lparr>Pointer := g @ rest, LocalAddress := written (LocalAddress st) (AddressIndex st) (concat (map group_bytes hs)),
    AddressIndex := AddressIndex st + 2 * length hs\<rparr>"
  have "ipv6_loop is_dec is_hex hex_value to_upper st = ipv6_loop is_dec is_hex hex_value to_upper ?st"
    using assms by (intro ipv6_groups [of hs c]) (auto simp: gs join_snoc)
  also have "\<dots> = Some (Inr (?st\<lparr>Pointer := rest, LocalAddress := written (LocalAddress ?st) (AddressIndex ?st) (group_bytes g),
      AddressIndex := AddressIndex ?st + 2\<rparr>))"
    by (rule ipv6_last) (use assms gs in \<open>auto simp: length_written length_group_bytes\<close>)
  finally show ?thesis
    using written_written [of "AddressIndex st" "concat (map group_bytes hs)" "LocalAddress st" "group_bytes g"] assms(7,8)
    by (simp add: gs length_group_bytes add.assoc)
qed

lemma ipv6_full:
  assumes "list_all (group_ok is_hex) gs" "length gs = 8" "colon c" "ends is_hex rest" "length stack = 16" "length a = 16"
  shows "to_ipv6 is_dec is_hex hex_value to_upper stack (Some (join c gs @ rest)) (Some a) =
    Some (EFI_SUCCESS, Some (concat (map group_bytes gs)), Some 0xFF, Some rest)"
proof -
  let ?fin = "(start stack rest)\<lparr>LocalAddress := written stack 0 (concat (map group_bytes gs)), AddressIndex := 16\<rparr>"
  have "ipv6_loop is_dec is_hex hex_value to_upper (start stack (join c gs @ rest)) = Some (Inr ?fin)"
    using ipv6_run [of gs c rest "start stack (join c gs @ rest)", OF assms(1) _ assms(3,4)] assms(2,5) by (cases "gs = []") simp_all
  then show ?thesis
    using ipv6_expand_eq [of ?fin stack "concat (map group_bytes gs)" "[]" a] length_group_bytes [of gs] assms(2,6)
    by (simp add: to_ipv6_def)
qed

text \<open>After the groups in front of the two colons the body sets the start of the zeros.\<close>

lemma ipv6_double_colon:
  fixes t :: "'a word list"
  assumes "list_all (group_ok is_hex) gs" "length gs < 8" "colon c" "length stack = 16"
  defines "st \<equiv> (start stack t)\<lparr>LocalAddress := written stack 0 (concat (map group_bytes gs)), AddressIndex := 2 * length gs, CompressStart := 2 * length gs\<rparr>"
  shows "\<exists>st1. ipv6_loop is_dec is_hex hex_value to_upper (start stack (join c gs @ [c, c] @ t)) = ipv6_loop is_dec is_hex hex_value to_upper st1 \<and>
    ipv6_compress is_hex st1 = Inr st \<and> AddressIndex st1 = 2 * length gs"
proof (cases "gs = []")
  case True
  then show ?thesis
    using assms(3) not_hex_colon [OF assms(3)] by (intro exI [of _ "start stack (c # c # t)"]) (simp add: ipv6_compress_def st_def written_def)
next
  case False
  let ?s = "start stack (join c gs @ [c, c] @ t)"
  let ?st1 = "?s\<lparr>Pointer := c # t, LocalAddress := written stack 0 (concat (map group_bytes gs)), AddressIndex := 2 * length gs\<rparr>"
  have "ipv6_loop is_dec is_hex hex_value to_upper ?s = ipv6_loop is_dec is_hex hex_value to_upper ?st1"
    using ipv6_groups [of gs c ?s "c # t"] assms colons_join [OF False, of c] by simp
  moreover have "ipv6_compress is_hex ?st1 = Inr st"
    using False assms(2,3) not_hex_colon [OF assms(3)] by (simp add: ipv6_compress_def st_def)
  ultimately show ?thesis by (intro exI [of _ ?st1]) simp
qed

lemma ipv6_compressed:
  assumes "list_all (group_ok is_hex) gs" "list_all (group_ok is_hex) hs" "length gs + length hs < 8" "colon c" "ends is_hex rest"
    "length stack = 16" "length a = 16"
  shows "to_ipv6 is_dec is_hex hex_value to_upper stack (Some (join c gs @ [c, c] @ join c hs @ rest)) (Some a) =
    Some (EFI_SUCCESS, Some (concat (map group_bytes gs) @ replicate (16 - 2 * (length gs + length hs)) 0 @ concat (map group_bytes hs)),
      Some 0xFF, Some rest)"
proof -
  let ?loop = "ipv6_loop is_dec is_hex hex_value to_upper" and ?t = "join c hs @ rest"
  let ?st = "(start stack ?t)\<lparr>LocalAddress := written stack 0 (concat (map group_bytes gs)), AddressIndex := 2 * length gs, CompressStart := 2 * length gs\<rparr>"
  let ?fin = "?st\<lparr>Pointer := rest, LocalAddress := written stack 0 (concat (map group_bytes gs) @ concat (map group_bytes hs)),
    AddressIndex := 2 * (length gs + length hs)\<rparr>"
  obtain st1 where st1: "?loop (start stack (join c gs @ [c, c] @ ?t)) = ?loop st1" "ipv6_compress is_hex st1 = Inr ?st" "AddressIndex st1 = 2 * length gs"
    using ipv6_double_colon [of gs c stack ?t] assms by auto
  have "?loop st1 = Some (Inr ?fin)"
  proof (cases "hs = []")
    case True
    have "\<not> is_hex (at rest 0)" "\<not> slash (at rest 0)" using assms(5) by (cases rest; auto simp: ends_def is_hex is_dec)+
    then show ?thesis using st1(2,3) assms(3) True by (subst ipv6_loop.simps) (simp add: ipv6_step_def)
  next
    case False
    then obtain u where u: "join c hs = hd hs @ u" using join_head [of hs c] by auto
    have "group_ok is_hex (hd hs)" using assms(2) False by (cases hs) simp_all
    then have "is_hex (at ?t 0)" using at_append_digit [of is_hex "hd hs" "u @ rest"] by (simp add: u group_ok_def)
    then have c: "ipv6_compress is_hex ?st = Inr ?st" by (simp add: ipv6_compress_def)
    have "ipv6_step is_dec is_hex hex_value to_upper st1 = ipv6_step is_dec is_hex hex_value to_upper ?st"
      unfolding ipv6_step_def st1(2) c ..
    then have "?loop st1 = ?loop ?st" using st1(3) assms(3) by (subst (1 2) ipv6_loop.simps) simp
    also have "\<dots> = Some (Inr ?fin)"
      using ipv6_run [of hs c rest ?st] False assms written_written [of 0 "concat (map group_bytes gs)" stack "concat (map group_bytes hs)"]
      by (simp add: length_written length_group_bytes)
    finally show ?thesis .
  qed
  then show ?thesis
    using st1(1) ipv6_expand_eq [of ?fin stack "concat (map group_bytes gs)" "concat (map group_bytes hs)" a] assms(3,7)
    by (simp add: to_ipv6_def length_group_bytes)
qed

text \<open>A number that starts with a hexadecimal digit is read without looking in front of it.\<close>

lemma hex_conversion_total:
  assumes "is_hex (at s 0)"
  shows "\<exists>e n. hex_conversion is_hex hex_value to_upper (Some s) (Some v) = Some (EFI_SUCCESS, Some e, Some n)"
proof -
  obtain c t where s: "s = c # t" using assms by (cases s) (auto simp: is_hex is_dec)
  have "\<not> pad c" "unat (to_upper c) \<noteq> 0x58" using assms by (auto simp: s is_hex is_dec is_x)
  moreover have "length (dropWhile zero_digit t) < length s" using length_dropWhile_le [of zero_digit t] by (simp add: s)
  ultimately show ?thesis
    by (cases "hex_digits is_hex hex_value 0 (dropWhile zero_digit s)";
        cases "hex_digits is_hex hex_value 0 (drop 1 (dropWhile zero_digit s))")
      (auto simp: hex_conversion_def s Let_def)
qed

definition ipv6_sane :: "'a word ipv6 \<Rightarrow> bool" where
  "ipv6_sane st \<longleftrightarrow> length (LocalAddress st) = 16 \<and> even (AddressIndex st) \<and> AddressIndex st \<le> 16 \<and>
     (CompressStart st = 16 \<or> CompressStart st \<le> AddressIndex st)"

lemma ipv6_compress_sane:
  "ipv6_sane st \<Longrightarrow> ipv6_compress is_hex st = Inr st' \<Longrightarrow>
     ipv6_sane st' \<and> AddressIndex st' = AddressIndex st \<and> ExpectPrefix st' = ExpectPrefix st"
  by (auto simp: ipv6_compress_def ipv6_sane_def Let_def split: if_splits)

lemma ipv6_separator_sane:
  "ipv6_sane st \<Longrightarrow> ipv6_separator st = (go_on, st') \<Longrightarrow> ipv6_sane st' \<and> (go_on \<longrightarrow> AddressIndex st' = 16 \<longrightarrow> ExpectPrefix st')"
  by (auto simp: ipv6_separator_def ipv6_sane_def split: if_splits)

lemma ipv6_step_sane:
  assumes "ipv6_sane st" "AddressIndex st = 16 \<longrightarrow> ExpectPrefix st"
  shows "\<exists>r. ipv6_step is_dec is_hex hex_value to_upper st = Some r \<and>
    (\<forall>go_on st'. r = Inr (go_on, st') \<longrightarrow> ipv6_sane st' \<and> (go_on \<longrightarrow> AddressIndex st' = 16 \<longrightarrow> ExpectPrefix st')) \<and>
    (\<forall>e. r = Inl e \<longrightarrow> e = EFI_UNSUPPORTED)"
proof (cases "ipv6_compress is_hex st")
  case (Inl e)
  then have "e = EFI_UNSUPPORTED" by (auto simp: ipv6_compress_def Let_def split: if_splits)
  then show ?thesis using Inl by (simp add: ipv6_step_def)
next
  case (Inr st1)
  note st1 = ipv6_compress_sane [OF assms(1) Inr]
  show ?thesis
  proof (cases "is_hex (at (Pointer st1) 0)")
    case False
    then show ?thesis
      using Inr st1 ipv6_separator_sane [of st1] by (cases "ipv6_separator st1") (auto simp: ipv6_step_def)
  next
    case True
    obtain e n where h: "hex_conversion is_hex hex_value to_upper (Some (Pointer st1)) (Some 0) = Some (EFI_SUCCESS, Some e, Some n)"
      using hex_conversion_total [OF True] by blast
    obtain e' n' where d: "decimal_conversion is_dec (Some (Pointer st1)) (Some 0) = (EFI_SUCCESS, Some e', Some n')"
      using decimal_conversion_total by blast
    let ?st2 = "st1\<lparr>Pointer := e, LocalAddress := (LocalAddress st1)[AddressIndex st1 := ucast (drop_bit 8 (ucast n :: 16 word)),
        AddressIndex st1 + 1 := ucast n], AddressIndex := AddressIndex st1 + 2\<rparr>"
    show ?thesis
    proof (cases "ExpectPrefix st1")
      case E: True
      then have "ipv6_step is_dec is_hex hex_value to_upper st =
          (if e' = Pointer st1 \<or> n' > 128 then Some (Inl EFI_UNSUPPORTED)
           else Some (Inr (False, st1\<lparr>LocalPrefixLength := ucast n', Pointer := e'\<rparr>)))"
        using Inr True d by (simp add: ipv6_step_def)
      moreover have "ipv6_sane (st1\<lparr>LocalPrefixLength := ucast n', Pointer := e'\<rparr>)" using st1 by (auto simp: ipv6_sane_def)
      ultimately show ?thesis by simp
    next
      case E: False
      then have room: "AddressIndex st1 + 1 < 16" using st1 assms(2) by (auto simp: ipv6_sane_def elim!: evenE)
      moreover have len: "length (LocalAddress st1) = 16" using st1 by (simp add: ipv6_sane_def)
      ultimately have eq: "ipv6_step is_dec is_hex hex_value to_upper st =
          (if length (Pointer st1) - length e > 4 then Some (Inl EFI_UNSUPPORTED) else Some (Inr (ipv6_separator ?st2)))"
        using Inr True h E by (simp add: ipv6_step_def)
      have "ipv6_sane ?st2" using room len st1 by (auto simp: ipv6_sane_def)
      from ipv6_separator_sane [OF this] show ?thesis unfolding eq by (cases "ipv6_separator ?st2") simp
    qed
  qed
qed

lemma ipv6_loop_sane:
  assumes "ipv6_sane st" "AddressIndex st = 16 \<longrightarrow> ExpectPrefix st"
  shows "ipv6_loop is_dec is_hex hex_value to_upper st = Some (Inl EFI_UNSUPPORTED) \<or>
    (\<exists>st'. ipv6_loop is_dec is_hex hex_value to_upper st = Some (Inr st') \<and> ipv6_sane st')"
  using assms
proof (induction "length (Pointer st)" arbitrary: st rule: less_induct)
  case less
  from ipv6_step_sane [OF less.prems] obtain r where r: "ipv6_step is_dec is_hex hex_value to_upper st = Some r"
    "\<forall>go_on st'. r = Inr (go_on, st') \<longrightarrow> ipv6_sane st' \<and> (go_on \<longrightarrow> AddressIndex st' = 16 \<longrightarrow> ExpectPrefix st')"
    "\<forall>e. r = Inl e \<longrightarrow> e = EFI_UNSUPPORTED" by blast
  have idx: "AddressIndex st < 17" using less.prems(1) by (simp add: ipv6_sane_def)
  show ?case
  proof (cases r)
    case (Inl e)
    then show ?thesis using r idx by (subst ipv6_loop.simps) simp
  next
    case (Inr x)
    obtain go_on st' where x: "x = (go_on, st')" by (cases x)
    show ?thesis
    proof (cases go_on)
      case True
      then have "length (Pointer st') < length (Pointer st)" using r(1) Inr x by (intro ipv6_step_shorter) simp
      moreover have "ipv6_loop is_dec is_hex hex_value to_upper st = ipv6_loop is_dec is_hex hex_value to_upper st'"
        using r(1) Inr x True idx by (subst ipv6_loop.simps) simp
      ultimately show ?thesis using less.hyps [of st'] r(2) Inr x True by simp
    next
      case False
      then have "ipv6_loop is_dec is_hex hex_value to_upper st = Some (Inr st')"
        using r(1) Inr x idx by (subst ipv6_loop.simps) simp
      then show ?thesis using r(2) Inr x by simp
    qed
  qed
qed

lemma ipv6_total:
  assumes "length stack = 16" "length a = 16"
  shows "\<exists>Status b pre stop. to_ipv6 is_dec is_hex hex_value to_upper stack (Some s) (Some a) = Some (Status, Some b, pre, stop) \<and>
    length b = 16 \<and> Status \<in> {EFI_SUCCESS, EFI_UNSUPPORTED} \<and> (Status = EFI_UNSUPPORTED \<longrightarrow> b = a)"
proof -
  have "ipv6_sane (start stack s)" using assms by (simp add: ipv6_sane_def)
  from ipv6_loop_sane [OF this] consider
      "ipv6_loop is_dec is_hex hex_value to_upper (start stack s) = Some (Inl EFI_UNSUPPORTED)"
    | st where "ipv6_loop is_dec is_hex hex_value to_upper (start stack s) = Some (Inr st)" "ipv6_sane st"
    by auto
  then show ?thesis
  proof cases
    case 1
    then show ?thesis using assms by (simp add: to_ipv6_def)
  next
    case 2
    have "length (ipv6_expand st a) = 16" if "AddressIndex st = 16 \<longleftrightarrow> CompressStart st = 16"
      using 2(2) assms(2) that by (auto simp: ipv6_sane_def ipv6_expand_def Let_def written_def)
    then show ?thesis using 2(1) assms(2) by (auto simp: to_ipv6_def)
  qed
qed

end

section \<open>Properties\<close>

lemma widen_number [simp]:
  "number_ok InternalIsDecimalDigitCharacter m (map ucast ds) = number_ok InternalAsciiIsDecimalDigitCharacter m (ds :: byte list)"
  "octet (map ucast ds :: char16 list) = octet ds" "group_bytes (map ucast ds :: char16 list) = group_bytes ds"
  "group_ok InternalIsHexaDecimalDigitCharacter (map ucast ds) = group_ok InternalAsciiIsHexaDecimalDigitCharacter ds"
  by (simp_all add: number_ok_def octet_def group_bytes_def group_ok_def list.pred_map comp_def)

lemma widen_ends [simp]: "ends InternalIsHexaDecimalDigitCharacter (map ucast rest) = ends InternalAsciiIsHexaDecimalDigitCharacter (rest :: byte list)"
  by (cases rest) (simp_all add: ends_def)

lemma map_join: "map f (join c gs) = join (f c) (map (map f) gs)"
  by (induction c gs rule: join.induct) simp_all

lemma ipv4_store_sane:
  "ipv4_store i a l n = Inr (j, b, k) \<Longrightarrow> i \<le> 4 \<Longrightarrow> j \<le> 4 \<and> length b = length a"
  "ipv4_store i a l n = Inl e \<Longrightarrow> e = EFI_UNSUPPORTED"
  by (auto simp: ipv4_store_def split: if_splits)

lemma ipv4_loop_sane:
  assumes "i \<le> 4"
  shows "case ipv4_loop is_dec p i a l of Inl e \<Rightarrow> e = EFI_UNSUPPORTED | Inr (q, j, b, k) \<Rightarrow> j \<le> 4 \<and> length b = length a"
  using assms
proof (induction "length p" arbitrary: p i a l rule: less_induct)
  case less
  obtain e n where d: "decimal_conversion is_dec (Some p) (Some 0) = (EFI_SUCCESS, Some e, Some n)"
    using decimal_conversion_total by blast
  note e = decimal_conversion_length [OF d]
  show ?case
  proof (cases "is_dec (at p 0)")
    case True
    show ?thesis
    proof (cases "ipv4_store i a l n")
      case (Inl x)
      then show ?thesis using True d less.prems ipv4_store_sane(2) [OF Inl] by (subst ipv4_loop.simps) simp
    next
      case (Inr y)
      obtain j b k where y: "y = (j, b, k)" by (cases y)
      note jb = ipv4_store_sane(1) [OF Inr [unfolded y] less.prems]
      have IH: "case ipv4_loop is_dec (drop 1 e) j b k of Inl e \<Rightarrow> e = EFI_UNSUPPORTED | Inr (q, j, b, k) \<Rightarrow> j \<le> 4 \<and> length b = length a"
        if "unat (at e 0) = 0x2E \<or> unat (at e 0) = 0x2F"
        using less.hyps [of "drop 1 e" j b k] next_shorter [OF e] that jb by (auto split: sum.splits)
      have "ipv4_loop is_dec p i a l =
          (if j = 4 then if slash (at e 0) then ipv4_loop is_dec (drop 1 e) j b k else Inr (e, j, b, k)
           else if unat (at e 0) = 0x2E then ipv4_loop is_dec (drop 1 e) j b k else Inl EFI_UNSUPPORTED)"
        using True d less.prems Inr y by (subst ipv4_loop.simps) simp
      then show ?thesis using IH jb by auto
    qed
  qed (use less.prems in \<open>subst ipv4_loop.simps; simp\<close>)
qed

lemma ipv4_total:
  assumes "length stack = 4" "length x = 4"
  shows "\<exists>Status b pre stop. to_ipv4 is_dec stack (Some s) (Some x) = (Status, Some b, pre, stop) \<and> length b = 4 \<and>
    Status \<in> {EFI_SUCCESS, EFI_UNSUPPORTED} \<and> (Status = EFI_UNSUPPORTED \<longrightarrow> b = x)"
  using ipv4_loop_sane [where i = 0 and is_dec = is_dec and p = s and a = stack and l = "0xFF"] assms by (auto simp: to_ipv4_def split: sum.split prod.split)





text \<open>An octet too large for 64 bits wraps around and passes the test for 255.\<close>
lemma ipv4_wraps:
  "AsciiStrToIpv4Address [0, 0, 0, 0] (Some (map of_char ''18446744073709551617.0.0.1'')) (Some [9, 9, 9, 9]) =
    (EFI_SUCCESS, Some [1, 0, 0, 1], Some 0xFF, Some [])"
  by code_simp

text \<open>A slash without a number is accepted, and so is a second prefix length.\<close>
lemma ipv4_bad_prefix:
  "AsciiStrToIpv4Address [0, 0, 0, 0] (Some (map of_char ''1.2.3.4/'')) (Some [9, 9, 9, 9]) =
    (EFI_SUCCESS, Some [1, 2, 3, 4], Some 0xFF, Some [])"
  "AsciiStrToIpv4Address [0, 0, 0, 0] (Some (map of_char ''1.2.3.4/8/16'')) (Some [9, 9, 9, 9]) =
    (EFI_SUCCESS, Some [1, 2, 3, 4], Some 16, Some [])"
  by code_simp+

text \<open>A group may have the prefix \<open>0x\<close>.\<close>
lemma ipv6_hex_prefix:
  "map_option fst (AsciiStrToIpv6Address (replicate 16 0) (Some (map of_char ''0x1::'')) (Some (replicate 16 9))) = Some EFI_SUCCESS"
  by code_simp

end
