(* ===== verification/X_String8_Bytes.thy ===== *)
theory X_String8_Bytes
  imports X_String8_Text
begin

text \<open>
  \<open>XString8::strncpy\<close> on arbitrary bytes. A configuration file need not be valid UTF-8, so the
  parser relies on more than \<open>strncpy_text\<close>: whatever the bytes are, the copy stays inside the
  allocated memory, and the string it leaves depends on the bytes alone and not on what the
  object held before. It is the decodable prefix of the bytes, encoded again.
\<close>

section \<open>Decoding and encoding again\<close>

fun decoded :: "nat \<Rightarrow> byte list \<Rightarrow> char32 list" where
  "decoded 0 s = []"
| "decoded (Suc n) s = (case get_char32_from_utf8_string s of (s', c) \<Rightarrow> if c = 0 then [] else c # decoded n s')"

definition recode :: "nat \<Rightarrow> byte list \<Rightarrow> byte list" where
  "recode n s = units utf8 (decoded n s)"

lemma recode_simps:
  "recode 0 s = []"
  "get_char32_from_utf8_string s = (s', c) \<Longrightarrow> recode (Suc n) s = (if c = 0 then [] else utf8 c @ recode n s')"
  by (simp_all add: recode_def)

lemma bits_below:
  assumes "\<And>n. bit c n \<Longrightarrow> n < k"
  shows "unat (c :: char32) < 2 ^ k"
proof -
  have "take_bit k c = c" using assms by (auto simp: bit_eq_iff bit_take_bit_iff)
  then have "unat c = take_bit k (unat c)" by (metis unsigned_take_bit_eq)
  then show ?thesis using take_bit_nat_less_exp [of k "unat c"] by simp
qed

lemma joined_below:
  "unat (push_bit 6 (a AND 0x1F) OR (b AND 0x3F) :: char32) < 2 ^ 11"
  "unat (push_bit 12 (a AND 0xF) OR push_bit 6 (b AND 0x3F) OR (d AND 0x3F) :: char32) < 2 ^ 16"
  by (rule bits_below; auto simp: bit_simps bit_consts)+

lemma at_beyond: "at s i \<noteq> 0 \<Longrightarrow> i < length s"
  by (simp add: at_def split: if_splits)

lemma continuation_at: "at s i AND 0xC0 = (0x80 :: byte) \<Longrightarrow> i < length s"
  by (rule at_beyond) auto

lemma utf8_length:
  "length (utf8 c) \<le> 4" "unat c < 2 ^ 16 \<Longrightarrow> length (utf8 c) \<le> 3" "unat c < 2 ^ 11 \<Longrightarrow> length (utf8 c) \<le> 2"
  "unat c < 2 ^ 7 \<Longrightarrow> length (utf8 c) = 1"
  by (auto simp: utf8_cases word_less_nat_alt)

lemma ascii_below: "b AND 0x80 = 0 \<Longrightarrow> unat (ucast (b :: byte) :: char32) < 2 ^ 7"
proof (rule bits_below)
  fix n
  assume "b AND 0x80 = 0" "bit (ucast b :: char32) n"
  then have "\<not> bit (b AND 0x80) n" "bit b n" by (auto simp: bit_simps)
  then show "n < 7" using bit_byte_less [of b n] by (cases "n = 7") (auto simp: bit_simps bit_consts)
qed

lemma decode_width:
  assumes "get_char32_from_utf8_string s = (s', c)" "c \<noteq> 0"
  shows "length (utf8 c) + length s' \<le> length s"
proof -
  note len = utf8_length(1) [of c] utf8_length(2) [of c] utf8_length(3) [of c] utf8_length(4) [of c]
  have nz: "at s 0 \<noteq> 0" "0 < length s" using assms at_beyond [of s 0]
    by (auto simp: get_char32_from_utf8_string_def Let_def split: if_splits)
  consider "at s 0 AND 0x80 = 0" "c = ucast (at s 0)" "s' = drop 1 s"
    | "unat c < 2 ^ 11" "s' = drop 2 s" "1 < length s"
    | "unat c < 2 ^ 16" "s' = drop 3 s" "2 < length s"
    | "s' = drop 4 s" "3 < length s"
    using assms nz continuation_at [of s 1] continuation_at [of s 2] continuation_at [of s 3] joined_below
    by (auto simp: get_char32_from_utf8_string_def Let_def split: if_splits)
  then show ?thesis
    using len nz ascii_below [of "at s 0"] by cases auto
qed

lemma high_no_zero:
  assumes "bit y 7"
  shows "(ucast (x OR y :: char32) :: byte) \<noteq> 0"
proof -
  have "bit (ucast (x OR y) :: byte) 7" by (subst bit_unsigned_iff) (simp add: bit_or_iff assms)
  then show ?thesis by (metis bit_0_eq bot_apply bot_bool_def)
qed

lemma utf8_no_zero:
  assumes "c \<noteq> 0"
  shows "0 \<notin> set (utf8 c)"
proof -
  have b: "bit (0x80 :: char32) 7" "bit (0xC0 :: char32) 7" "bit (0xE0 :: char32) 7" "bit (0xF0 :: char32) 7"
    by (simp_all add: bit_consts)
  note h = b [THEN high_no_zero, THEN not_sym]
  have "0 \<noteq> (ucast c :: byte)" if "c < 0x80" using assms ascii_byte [OF that] by auto
  then show ?thesis unfolding utf8_cases
    by (cases "c < 0x80"; cases "c < 0x800"; cases "c < 0x10000")
      (simp_all only: if_True if_False list.set insert_iff empty_iff h simp_thms)
qed

lemma recode_no_zero: "0 \<notin> set (recode n s)"
  by (induction n arbitrary: s) (auto simp: recode_def utf8_no_zero split: prod.split)

lemma recode_size:
  "c \<noteq> 0 \<Longrightarrow> length (recode n s) + length (skip_len_loop get_char32_from_utf8_string s c n) \<le> length s"
proof (induction n arbitrary: s c)
  case (Suc n)
  obtain s' c' where d: "get_char32_from_utf8_string s = (s', c')" by force
  show ?case
  proof (cases "c' = 0")
    case True
    then show ?thesis using Suc.prems utf8_progress [OF d] by (cases n) (auto simp: d recode_simps(2) [OF d])
  next
    case False
    then show ?thesis using Suc.prems Suc.IH [of c' s'] decode_width [OF d False] by (simp add: d recode_simps(2) [OF d])
  qed
qed (simp add: recode_simps)

lemma len_loop_recode:
  assumes "get_char32_from_utf8_string s = (s', c)" "length (recode n s) \<le> room"
  shows "len_loop get_char32_from_utf8_string get_utf8_from_char32 s' c room n out = Some (out @ recode n s)"
  using assms
proof (induction n arbitrary: s s' c room out)
  case 0
  then show ?case by (simp add: len_loop.simps recode_simps)
next
  case (Suc n)
  obtain s2 c2 where d: "get_char32_from_utf8_string s' = (s2, c2)" by force
  show ?case
  proof (cases "c = 0")
    case True
    then show ?thesis using Suc.prems by (simp add: len_loop.simps recode_simps(2) [OF Suc.prems(1)])
  next
    case False
    then have r: "recode (Suc n) s = utf8 c @ recode n s'" by (simp add: recode_simps(2) [OF Suc.prems(1)])
    then have "room > 0" "length (recode n s') \<le> room - length (utf8 c)" using Suc.prems(2) utf8_nonempty [of c]
      by (auto simp flip: length_greater_0_conv)
    moreover have "get_utf8_from_char32 room c = (utf8 c, room - length (utf8 c))"
      using Suc.prems(2) r by (simp add: w8.emit_put)
    ultimately show ?thesis using False r Suc.IH [OF d, of "room - length (utf8 c)"] by (subst len_loop.simps) (simp add: d)
  qed
qed

section \<open>The object\<close>

text \<open>The strings inside tags: an object without memory of its own holds the empty string.\<close>

definition sound :: "xstring8 \<Rightarrow> bool" where
  "sound s \<longleftrightarrow> (if m_allocatedSize s = 0 then m_data s = [0]
     else length (m_data s) = m_allocatedSize s \<and> 0 \<in> set (m_data s))"

lemma new_sound: "sound new_xstring8 \<and> data new_xstring8 = []"
  by (simp add: sound_def new_xstring8_def data_def c_string_def)

lemma setEmpty_sound:
  assumes "sound s"
  shows "\<exists>s'. setEmpty s = Some s' \<and> sound s' \<and> data s' = []"
  using assms
  by (cases "m_allocatedSize s = 0"; cases "m_data s") (auto simp: setEmpty_def sound_def store_def data_def c_string_def)

lemma ensure_sound:
  assumes "good_pool pool" "sound s"
  shows "\<exists>s'. ensure pool n 0 s = Some s' \<and> sound s' \<and> n < m_allocatedSize s'"
proof -
  obtain b where b: "pool (n + 1) = Some b" "length b = n + 1" using assms(1) by (auto simp: good_pool_def)
  have e: "data s = [] \<and> string_size s = 0" if "m_allocatedSize s = 0"
    using assms(2) that by (simp add: sound_def data_def c_string_def string_size_def utf8_size_of_utf8_string_def strlen_def)
  have "utf8_string_from_utf8_string (n + 1) (Some []) = Some ([0], 0)"
    using copy_text [of "[]" "n + 1"] by simp
  then show ?thesis
    using assms b e
    by (cases "m_allocatedSize s = 0"; cases "m_allocatedSize s < n + 1")
      (auto simp: ensure_def CheckSize_def Alloc_def sound_def store_def Let_def)
qed

text \<open>Whatever the object held, the copy of \<open>n\<close> characters of any bytes succeeds.\<close>

lemma strncpy_sound:
  assumes "good_pool pool" "sound s"
  shows "\<exists>s'. strncpy pool (Some t) n s = Some s' \<and> sound s' \<and> data s' = recode n t"
proof (cases "given (Some t) \<and> n > 0")
  case False
  then have "recode n t = []"
    by (cases n) (auto simp: recode_def given_def get_char32_from_utf8_string_def)
  then show ?thesis using False setEmpty_sound [OF assms(2)] by (auto simp: strncpy_def)
next
  case True
  define k where "k = utf8_size_of_utf8_string_len (Some t) n"
  have k: "length (recode n t) \<le> k"
    using recode_size [of 1 n t] True by (simp add: k_def utf8_size_of_utf8_string_len_def)
  obtain s1 where s1: "ensure pool k 0 s = Some s1" "sound s1" "k < m_allocatedSize s1"
    using ensure_sound [OF assms] by blast
  obtain t' c where d: "get_char32_from_utf8_string t = (t', c)" by force
  have c: "utf8_string_from_utf8_string_len (m_allocatedSize s1) (Some t) n = Some (finish (recode n t))"
  proof (cases "m_allocatedSize s1 \<le> 1")
    case True
    then have "length (recode n t) = 0" using k s1(3) by linarith
    then have "recode n t = []" by simp
    then show ?thesis using True s1(3) \<open>given (Some t) \<and> n > 0\<close> by (simp add: utf8_string_from_utf8_string_len_def finish_def)
  next
    case False
    then show ?thesis using len_loop_recode [OF d, of n "m_allocatedSize s1 - 1" "[]"] k s1(3) True
      by (simp add: utf8_string_from_utf8_string_len_def d)
  qed
  let ?w = "recode n t @ [0]"
  define m where "m = ?w @ drop (length ?w) (m_data s1)"
  have m: "length m = m_allocatedSize s1" using k s1 by (simp add: m_def sound_def)
  have "store 0 ?w s1 = Some (s1\<lparr>m_data := m\<rparr>)" using k s1 by (simp add: store_def sound_def m_def)
  moreover have "store k [0] (s1\<lparr>m_data := m\<rparr>) = Some (s1\<lparr>m_data := m[k := 0]\<rparr>)"
    using s1 m by (simp add: store_def upd_conv_take_nth_drop)
  ultimately have "strncpy pool (Some t) n s = Some (s1\<lparr>m_data := m[k := 0]\<rparr>)"
    using True s1 c by (simp add: strncpy_def k_def [symmetric] finish_def)
  moreover have "c_string (m[k := 0]) = recode n t"
    using k c_string_text [OF recode_no_zero, of n t] by (simp add: m_def list_update_append split: nat.split)
  ultimately show ?thesis using s1 m set_update_memI [of k m 0] by (auto simp: sound_def data_def)
qed

section \<open>Texts\<close>

text \<open>
  What \<open>strncpy\<close> leaves in a string is always the encoding of some code points. The decoder
  accepts more than the Unicode scalar values, surrogates for example, so \<open>decodable\<close> is weaker
  than \<open>scalar\<close>; comparisons still work on the code points.
\<close>

definition decodable :: "char32 \<Rightarrow> bool" where
  "decodable c \<longleftrightarrow> c \<noteq> 0 \<and> c < 0x200000"

definition text_of :: "byte list \<Rightarrow> char32 list" where
  "text_of b = decoded (length b) b"

definition textual :: "byte list \<Rightarrow> bool" where
  "textual b \<longleftrightarrow> units utf8 (text_of b) = b"

lemma decodable_start: "decodable c \<Longrightarrow> at (utf8 c @ s) 0 \<noteq> 0"
  using utf8_no_zero [of c] utf8_nonempty [of c] by (cases "utf8 c") (auto simp: decodable_def)

interpretation u8d: unit_reader get_char32_from_utf8_string utf8 decodable
  using utf8_progress by unfold_locales (auto simp: utf8_decode decode_nil decodable_start decodable_def)

interpretation r8d: two_readers get_char32_from_utf8_string utf8 get_char32_from_utf8_string utf8 decodable ..

lemma joined4_below:
  "unat (push_bit 18 (a AND 0x7) OR push_bit 12 (b AND 0x3F) OR push_bit 6 (d AND 0x3F) OR (e AND 0x3F) :: char32) < 2 ^ 21"
  by (rule bits_below; auto simp: bit_simps bit_consts)

lemma decode_decodable:
  assumes "get_char32_from_utf8_string s = (s', c)" "c \<noteq> 0"
  shows "decodable c"
proof -
  have b: "unat (ucast (b :: byte) :: char32) < 2 ^ 21" for b by (rule bits_below) (auto simp: bit_simps dest: bit_byte_less)
  have l: "unat x < 2 ^ 21" if "unat x < 2 ^ k" "k \<le> 21" for x :: char32 and k
    using that power_increasing [of k 21 "2 :: nat"] by simp
  have "unat c < 2 ^ 21"
    using assms b joined4_below l [OF joined_below(1)] l [OF joined_below(2)]
    by (auto simp: get_char32_from_utf8_string_def Let_def split: if_splits)
  then show ?thesis using assms(2) by (simp add: decodable_def word_less_nat_alt)
qed

lemma decoded_decodable: "list_all decodable (decoded n s)"
  by (induction n arbitrary: s) (auto simp: decode_decodable split: prod.split)

lemma decoded_units: "list_all decodable cs \<Longrightarrow> decoded n (units utf8 cs) = take n cs"
proof (induction cs arbitrary: n)
  case Nil
  then show ?case by (cases n) (simp_all add: decode_nil)
next
  case (Cons c cs)
  then show ?case by (cases n) (auto simp: u8d.dec_enc decodable_def)
qed

lemma units_longer: "length cs \<le> length (units utf8 cs)"
proof (induction cs)
  case (Cons c cs)
  then show ?case using utf8_nonempty [of c] by (cases "utf8 c") auto
qed simp

lemma text_of_units: "list_all decodable cs \<Longrightarrow> text_of (units utf8 cs) = cs"
  using units_longer [of cs] by (simp add: text_of_def decoded_units)

lemma text_of_decodable: "list_all decodable (text_of b)"
  by (simp add: text_of_def decoded_decodable)

lemma text_of_nil [simp]: "text_of [] = []"
  by (simp add: text_of_def)

lemma textual_units: "list_all decodable cs \<Longrightarrow> textual (units utf8 cs)"
  by (simp add: textual_def text_of_units)

lemma textual_recode: "textual (recode n t)"
  by (simp add: recode_def textual_units decoded_decodable)

lemma textual_nil: "textual []"
  using textual_units [of "[]"] by simp

lemma textual_eq: "textual a \<Longrightarrow> textual b \<Longrightarrow> text_of a = text_of b \<longleftrightarrow> a = b"
  by (metis textual_def)

lemma textual_empty: "textual a \<Longrightarrow> text_of a = [] \<longleftrightarrow> a = []"
  using textual_eq [OF _ textual_nil] by (simp add: text_of_def)

lemma textual_start: "textual a \<Longrightarrow> at a 0 = 0 \<longleftrightarrow> a = []"
proof -
  assume "textual a"
  then have a: "units utf8 (text_of a) = a" by (simp add: textual_def)
  show ?thesis
  proof (cases "text_of a")
    case (Cons c cs)
    then have "decodable c" using text_of_decodable [of a] by simp
    then show ?thesis using decodable_start [of c "units utf8 cs"] a Cons utf8_nonempty [of c] by (metis at_simps(1) units_simps(2))
  qed (use a in auto)
qed

lemma compare_textual:
  assumes "textual a" "textual b"
  shows "XStringAbstract__compare get_char32_from_utf8_string get_char32_from_utf8_string (Some a) (Some b) ic =
    Some (text_compare ic (text_of a) (text_of b))"
proof -
  have u: "units utf8 (text_of a) = a" "units utf8 (text_of b) = b" using assms by (simp_all add: textual_def)
  have t: "text_compare ic [] ds = (if ds = [] then 0 else - 1)" "cs \<noteq> [] \<Longrightarrow> text_compare ic cs [] = 1" for cs ds
    by (cases ds; cases cs; simp)+
  show ?thesis
    using r8d.compare_loop_text [OF text_of_decodable [of a] text_of_decodable [of b], of ic] assms t
    by (auto simp: XStringAbstract__compare_def Let_def u textual_start textual_empty)
qed

end
