(* ===== verification/Plist_Tags.thy ===== *)
theory Plist_Tags
  imports X_String8_Bytes Base64_Codec Base_Numbers Xml_Entities
begin

text \<open>
  The tags of a property list: the classes \<open>TagArray\<close>, \<open>TagBool\<close>, \<open>TagData\<close>, \<open>TagDate\<close>, \<open>TagDict\<close>,
  \<open>TagFloat\<close>, \<open>TagInt64\<close>, \<open>TagKey\<close> and \<open>TagString\<close> of \<open>Platform/plist\<close>, the caches of released
  tags, and the accessors of \<open>plist.cpp\<close>. A tag is owned by one place at a time, its container,
  a cache or a local variable, so it is a value here: a constructor per class with the members
  of the object. The type argument is the representation of strings, \<open>xstring8\<close> objects in the
  program and the bytes they hold in the specification (\<open>map_tag data\<close>). The build is the one
  without \<open>JIEF_DEBUG\<close>, which has the caches (\<open>TagStruct_USE_CACHE\<close>). The containers
  \<open>XObjArray\<close> and \<open>XBuffer\<close> are the lists of their elements, and \<open>new\<close> succeeds.
\<close>

section \<open>Tags and caches\<close>

datatype 's tag =
    TagArray "'s tag list"
  | TagBool bool
  | TagData "byte list"
  | TagDate 's
  | TagDict "'s tag list"
  | TagFloat "32 word"
  | TagInt64 intn
  | TagKey 's
  | TagString 's

type_synonym tag_struct = "xstring8 tag"

text \<open>The static members \<open>tagsFree\<close>: the members of the objects that wait for their next use.\<close>

record tag_cache =
  freeArray :: "tag_struct list list"
  freeBool :: "bool list"
  freeData :: "byte list list"
  freeDate :: "xstring8 list"
  freeDict :: "tag_struct list list"
  freeFloat :: "32 word list"
  freeInt64 :: "intn list"
  freeKey :: "xstring8 list"
  freeString :: "xstring8 list"

definition EmptyCache :: "tag_cache \<Rightarrow> tag_cache" where
  "EmptyCache c = c\<lparr>freeArray := [], freeBool := [], freeData := [], freeDate := [], freeDict := [],
     freeFloat := [], freeInt64 := [], freeKey := [], freeString := []\<rparr>"

definition TagArray_getEmptyTag :: "tag_cache \<Rightarrow> tag_struct list \<times> tag_cache" where
  "TagArray_getEmptyTag c =
     (case freeArray c of [] \<Rightarrow> ([], c) | tag # tagsFree \<Rightarrow> (tag, c\<lparr>freeArray := tagsFree\<rparr>))"

definition TagBool_getEmptyTag :: "tag_cache \<Rightarrow> bool \<times> tag_cache" where
  "TagBool_getEmptyTag c =
     (case freeBool c of [] \<Rightarrow> (False, c) | tag # tagsFree \<Rightarrow> (tag, c\<lparr>freeBool := tagsFree\<rparr>))"

definition TagData_getEmptyTag :: "tag_cache \<Rightarrow> byte list \<times> tag_cache" where
  "TagData_getEmptyTag c =
     (case freeData c of [] \<Rightarrow> ([], c) | tag # tagsFree \<Rightarrow> (tag, c\<lparr>freeData := tagsFree\<rparr>))"

definition TagDate_getEmptyTag :: "tag_cache \<Rightarrow> xstring8 \<times> tag_cache" where
  "TagDate_getEmptyTag c =
     (case freeDate c of [] \<Rightarrow> (new_xstring8, c) | tag # tagsFree \<Rightarrow> (tag, c\<lparr>freeDate := tagsFree\<rparr>))"

definition TagDict_getEmptyTag :: "tag_cache \<Rightarrow> tag_struct list \<times> tag_cache" where
  "TagDict_getEmptyTag c =
     (case freeDict c of [] \<Rightarrow> ([], c) | tag # tagsFree \<Rightarrow> (tag, c\<lparr>freeDict := tagsFree\<rparr>))"

definition TagFloat_getEmptyTag :: "tag_cache \<Rightarrow> 32 word \<times> tag_cache" where
  "TagFloat_getEmptyTag c =
     (case freeFloat c of [] \<Rightarrow> (0, c) | tag # tagsFree \<Rightarrow> (tag, c\<lparr>freeFloat := tagsFree\<rparr>))"

definition TagInt64_getEmptyTag :: "tag_cache \<Rightarrow> intn \<times> tag_cache" where
  "TagInt64_getEmptyTag c =
     (case freeInt64 c of [] \<Rightarrow> (0, c) | tag # tagsFree \<Rightarrow> (tag, c\<lparr>freeInt64 := tagsFree\<rparr>))"

definition TagKey_getEmptyTag :: "tag_cache \<Rightarrow> xstring8 \<times> tag_cache" where
  "TagKey_getEmptyTag c =
     (case freeKey c of [] \<Rightarrow> (new_xstring8, c) | tag # tagsFree \<Rightarrow> (tag, c\<lparr>freeKey := tagsFree\<rparr>))"

definition TagString_getEmptyTag :: "tag_cache \<Rightarrow> xstring8 \<times> tag_cache" where
  "TagString_getEmptyTag c =
     (case freeString c of [] \<Rightarrow> (new_xstring8, c) | tag # tagsFree \<Rightarrow> (tag, c\<lparr>freeString := tagsFree\<rparr>))"

lemmas getEmptyTag_defs = TagArray_getEmptyTag_def TagBool_getEmptyTag_def TagData_getEmptyTag_def
  TagDate_getEmptyTag_def TagDict_getEmptyTag_def TagFloat_getEmptyTag_def TagInt64_getEmptyTag_def
  TagKey_getEmptyTag_def TagString_getEmptyTag_def

section \<open>Releasing a tag\<close>

definition TagBool_ReleaseTag :: "bool \<Rightarrow> tag_cache \<Rightarrow> tag_cache" where
  "TagBool_ReleaseTag b c = c\<lparr>freeBool := freeBool c @ [False]\<rparr>"

definition TagData_ReleaseTag :: "byte list \<Rightarrow> tag_cache \<Rightarrow> tag_cache" where
  "TagData_ReleaseTag dataBuffer c = c\<lparr>freeData := freeData c @ [[]]\<rparr>"

definition TagDate_ReleaseTag :: "xstring8 \<Rightarrow> tag_cache \<Rightarrow> tag_cache option" where
  "TagDate_ReleaseTag s c = map_option (\<lambda>s'. c\<lparr>freeDate := freeDate c @ [s']\<rparr>) (setEmpty s)"

definition TagFloat_ReleaseTag :: "32 word \<Rightarrow> tag_cache \<Rightarrow> tag_cache" where
  "TagFloat_ReleaseTag f c = c\<lparr>freeFloat := freeFloat c @ [0]\<rparr>"

definition TagInt64_ReleaseTag :: "intn \<Rightarrow> tag_cache \<Rightarrow> tag_cache" where
  "TagInt64_ReleaseTag i c = c\<lparr>freeInt64 := freeInt64 c @ [0]\<rparr>"

definition TagKey_ReleaseTag :: "xstring8 \<Rightarrow> tag_cache \<Rightarrow> tag_cache option" where
  "TagKey_ReleaseTag s c = map_option (\<lambda>s'. c\<lparr>freeKey := freeKey c @ [s']\<rparr>) (setEmpty s)"

definition TagString_ReleaseTag :: "xstring8 \<Rightarrow> tag_cache \<Rightarrow> tag_cache option" where
  "TagString_ReleaseTag s c = map_option (\<lambda>s'. c\<lparr>freeString := freeString c @ [s']\<rparr>) (setEmpty s)"

text \<open>
  \<open>ReleaseTag\<close> is the virtual call. The loop of the two containers releases the elements from
  the last to the first; the container itself goes to its cache afterwards, empty.
\<close>

function ReleaseTag :: "tag_struct \<Rightarrow> tag_cache \<Rightarrow> tag_cache option"
  and TagArray_ReleaseTag :: "tag_struct list \<Rightarrow> tag_cache \<Rightarrow> tag_cache option"
  and TagDict_ReleaseTag :: "tag_struct list \<Rightarrow> tag_cache \<Rightarrow> tag_cache option"
  and release_loop :: "tag_struct list \<Rightarrow> tag_cache \<Rightarrow> tag_cache option" where
  "ReleaseTag (TagArray arrayContent) c = TagArray_ReleaseTag arrayContent c"
| "ReleaseTag (TagBool b) c = Some (TagBool_ReleaseTag b c)"
| "ReleaseTag (TagData d) c = Some (TagData_ReleaseTag d c)"
| "ReleaseTag (TagDate s) c = TagDate_ReleaseTag s c"
| "ReleaseTag (TagDict dictContent) c = TagDict_ReleaseTag dictContent c"
| "ReleaseTag (TagFloat f) c = Some (TagFloat_ReleaseTag f c)"
| "ReleaseTag (TagInt64 i) c = Some (TagInt64_ReleaseTag i c)"
| "ReleaseTag (TagKey s) c = TagKey_ReleaseTag s c"
| "ReleaseTag (TagString s) c = TagString_ReleaseTag s c"
| "TagArray_ReleaseTag arrayContent c =
     map_option (\<lambda>c. c\<lparr>freeArray := freeArray c @ [[]]\<rparr>) (release_loop arrayContent c)"
| "TagDict_ReleaseTag dictContent c =
     map_option (\<lambda>c. c\<lparr>freeDict := freeDict c @ [[]]\<rparr>) (release_loop dictContent c)"
| "release_loop [] c = Some c"
| "release_loop (tag # tags) c = (case release_loop tags c of None \<Rightarrow> None | Some c \<Rightarrow> ReleaseTag tag c)"
  by pat_completeness auto
termination
  by (relation "measure (case_sum (case_sum (\<lambda>(t, _). 2 * size t) (\<lambda>(ts, _). 2 * size_list size ts + 1))
      (case_sum (\<lambda>(ts, _). 2 * size_list size ts + 1) (\<lambda>(ts, _). 2 * size_list size ts)))") auto

lemmas ReleaseTag_defs = TagBool_ReleaseTag_def TagData_ReleaseTag_def TagDate_ReleaseTag_def
  TagFloat_ReleaseTag_def TagInt64_ReleaseTag_def TagKey_ReleaseTag_def TagString_ReleaseTag_def

section \<open>Types and values\<close>

text \<open>
  The virtual tests. \<open>TagDate\<close> overrides \<open>isDict\<close> and \<open>getTypeAsXString8\<close> as if it were a
  dictionary, and does not override \<open>isDate\<close>.
\<close>

fun isDict :: "'s tag \<Rightarrow> bool" where
  "isDict (TagDict _) = True" | "isDict (TagDate _) = True" | "isDict _ = False"

fun isArray :: "'s tag \<Rightarrow> bool" where
  "isArray (TagArray _) = True" | "isArray _ = False"

fun isKey :: "'s tag \<Rightarrow> bool" where
  "isKey (TagKey _) = True" | "isKey _ = False"

definition isDate :: "'s tag \<Rightarrow> bool" where
  "isDate tag = False"

text \<open>
  \<open>getDict\<close> and \<open>getArray\<close>: \<open>None\<close> is the null pointer, except that the \<open>const\<close> overload of
  \<open>getDict\<close> panics instead of returning one.
\<close>

fun getDict :: "'s tag \<Rightarrow> 's tag list option" where
  "getDict (TagDict dictContent) = Some dictContent" | "getDict _ = None"

fun getArray :: "'s tag \<Rightarrow> 's tag list option" where
  "getArray (TagArray arrayContent) = Some arrayContent" | "getArray _ = None"

text \<open>\<open>isEqual\<close>, \<open>operator ==\<close> and \<open>isEqualIC\<close> of the strings\<close>

definition isEqual :: "xstring8 \<Rightarrow> byte list \<Rightarrow> bool option" where
  "isEqual s S = map_option (\<lambda>r. r = 0)
     (XStringAbstract__compare get_char32_from_utf8_string get_char32_from_utf8_string (Some (data s)) (Some S) False)"

definition isEqualIC :: "xstring8 \<Rightarrow> byte list \<Rightarrow> bool option" where
  "isEqualIC s S = map_option (\<lambda>r. r = 0)
     (XStringAbstract__compare get_char32_from_utf8_string get_char32_from_utf8_string (Some (data s)) (Some S) True)"

definition isTrue :: "tag_struct \<Rightarrow> bool" where
  "isTrue tag = (case tag of TagBool value \<Rightarrow> value | _ \<Rightarrow> False)"

definition isFalse :: "tag_struct \<Rightarrow> bool" where
  "isFalse tag = (case tag of TagBool value \<Rightarrow> \<not> value | _ \<Rightarrow> False)"

definition isTrueOrYy :: "tag_struct \<Rightarrow> bool" where
  "isTrueOrYy tag =
     (case tag of TagBool value \<Rightarrow> value
      | TagString s \<Rightarrow> \<not> isEmpty s \<and> (char32At s 0 = 0x79 \<or> char32At s 0 = 0x59)
      | _ \<Rightarrow> False)"

definition isTrueOrYes :: "tag_struct \<Rightarrow> bool option" where
  "isTrueOrYes tag =
     (case tag of TagBool value \<Rightarrow> Some value | TagString s \<Rightarrow> isEqual s (ascii ''Yes'') | _ \<Rightarrow> Some False)"

definition isFalseOrNn :: "tag_struct \<Rightarrow> bool" where
  "isFalseOrNn tag =
     (case tag of TagBool value \<Rightarrow> \<not> value
      | TagString s \<Rightarrow> \<not> isEmpty s \<and> (char32At s 0 = 0x6E \<or> char32At s 0 = 0x4E)
      | _ \<Rightarrow> False)"

definition IsPropertyNotNullAndTrue :: "tag_struct option \<Rightarrow> bool" where
  "IsPropertyNotNullAndTrue Prop = (case Prop of None \<Rightarrow> False | Some tag \<Rightarrow> isTrueOrYy tag)"

definition IsPropertyNotNullAndFalse :: "tag_struct option \<Rightarrow> bool" where
  "IsPropertyNotNullAndFalse Prop = (case Prop of None \<Rightarrow> False | Some tag \<Rightarrow> isFalseOrNn tag)"

text \<open>\<open>memcpy(&Data, data, Size)\<close> into a zeroed \<open>INTN\<close>, on a little-endian machine\<close>

fun little_endian :: "byte list \<Rightarrow> intn" where
  "little_endian [] = 0"
| "little_endian (b # bs) = ucast b + 256 * little_endian bs"

definition GetPropertyAsInteger :: "tag_struct option \<Rightarrow> intn \<Rightarrow> intn option" where
  "GetPropertyAsInteger Prop Default =
     (case Prop of
        None \<Rightarrow> Some Default
      | Some (TagInt64 value) \<Rightarrow> Some value
      | Some (TagString s) \<Rightarrow>
          if isEmpty s then Some Default
          else do {
            len \<leftarrow> string_length s;
            if len > 1 \<and> (char32At s 1 = 0x78 \<or> char32At s 1 = 0x58) then AsciiStrHexToUintn (Some (data s))
            else if char32At s 0 = 0x2D then Some (- AsciiStrDecimalToUintn (Some (drop 1 (data s))))
            else Some (AsciiStrDecimalToUintn (Some (if char32At s 0 = 0x2B then drop 1 (data s) else data s)))
          }
      | Some (TagData dataBuffer) \<Rightarrow> Some (little_endian (take 8 dataBuffer))
      | _ \<Rightarrow> Some Default)"

section \<open>Containers\<close>

definition elementAt :: "tag_struct list \<Rightarrow> nat \<Rightarrow> tag_struct option" where
  "elementAt arrayContent idx = (if idx \<ge> length arrayContent then None else Some (arrayContent ! idx))"

text \<open>The outer option is a fault: the call through the null pointer, or the panic of \<open>getDict\<close>.\<close>

definition dictElementAt :: "tag_struct list \<Rightarrow> nat \<Rightarrow> tag_struct list option option" where
  "dictElementAt arrayContent idx =
     (case elementAt arrayContent idx of None \<Rightarrow> None
      | Some tag \<Rightarrow> if \<not> isDict tag then Some None else map_option Some (getDict tag))"

definition arrayElementAt :: "tag_struct list \<Rightarrow> nat \<Rightarrow> tag_struct list option option" where
  "arrayElementAt arrayContent idx =
     (case elementAt arrayContent idx of None \<Rightarrow> None
      | Some tag \<Rightarrow> if \<not> isArray tag then Some None else map_option Some (getArray tag))"

text \<open>The loops over \<open>dictContent\<close>; the list is the rest from \<open>tagIdx\<close> on.\<close>

fun count_loop :: "'s tag list \<Rightarrow> nat \<Rightarrow> nat" where
  "count_loop (tag # tag2 # tags) count =
     count_loop (tag2 # tags) (if isKey tag \<and> \<not> isKey tag2 then count + 1 else count)"
| "count_loop _ count = count"

definition dictKeyCount :: "'s tag list \<Rightarrow> nat" where
  "dictKeyCount dictContent = count_loop dictContent 0"

fun index_loop :: "'s tag list \<Rightarrow> nat \<Rightarrow> nat \<Rightarrow> ('s tag \<times> 's tag) option" where
  "index_loop (tag # tag2 # tags) idx element =
     (if isKey tag \<and> \<not> isKey tag2 then
        (if element = idx then Some (tag, tag2) else index_loop (tag2 # tags) idx (element + 1))
      else index_loop (tag2 # tags) idx element)"
| "index_loop _ idx element = None"

definition getKeyAndValueAtIndex :: "'s tag list \<Rightarrow> int \<Rightarrow> efi_status \<times> ('s tag \<times> 's tag) option" where
  "getKeyAndValueAtIndex dictContent idx =
     (if idx < 0 then (EFI_UNSUPPORTED, None)
      else case index_loop dictContent (nat idx) 0 of
        None \<Rightarrow> (EFI_UNSUPPORTED, None) | Some p \<Rightarrow> (EFI_SUCCESS, Some p))"

fun key_loop :: "tag_struct list \<Rightarrow> byte list \<Rightarrow> tag_struct option option" where
  "key_loop [] key = Some None"
| "key_loop (tag # tags) key =
     (case tag of
        TagKey s \<Rightarrow> (case isEqualIC s key of
            None \<Rightarrow> None
          | Some False \<Rightarrow> key_loop tags key
          | Some True \<Rightarrow> Some (case tags of [] \<Rightarrow> None | tag2 # _ \<Rightarrow> if isKey tag2 then None else Some tag2))
      | _ \<Rightarrow> key_loop tags key)"

definition propertyForKey :: "tag_struct list \<Rightarrow> byte list \<Rightarrow> tag_struct option option" where
  "propertyForKey dictContent key = key_loop dictContent key"

definition dictPropertyForKey :: "tag_struct list \<Rightarrow> byte list \<Rightarrow> tag_struct list option option" where
  "dictPropertyForKey dictContent key =
     (case propertyForKey dictContent key of None \<Rightarrow> None
      | Some None \<Rightarrow> Some None
      | Some (Some tag) \<Rightarrow> if \<not> isDict tag then Some None else map_option Some (getDict tag))"

definition arrayPropertyForKey :: "tag_struct list \<Rightarrow> byte list \<Rightarrow> tag_struct list option option" where
  "arrayPropertyForKey dictContent key =
     (case propertyForKey dictContent key of None \<Rightarrow> None
      | Some None \<Rightarrow> Some None
      | Some (Some tag) \<Rightarrow> if \<not> isArray tag then Some None else map_option Some (getArray tag))"

section \<open>Equality\<close>

text \<open>\<open>float == float\<close> on the bit patterns: a NaN equals nothing, and the two zeros are equal.\<close>

definition float_equal :: "32 word \<Rightarrow> 32 word \<Rightarrow> bool" where
  "float_equal f g =
     (let magnitude = (\<lambda>x. x AND 0x7FFFFFFF); nan = (\<lambda>x. magnitude x > 0x7F800000) in
      \<not> nan f \<and> \<not> nan g \<and> (f = g \<or> magnitude f = 0 \<and> magnitude g = 0))"

definition TagBool_equal :: "bool \<Rightarrow> tag_struct \<Rightarrow> bool" where
  "TagBool_equal value other = (case other of TagBool v \<Rightarrow> value = v | _ \<Rightarrow> False)"

definition TagData_equal :: "byte list \<Rightarrow> tag_struct \<Rightarrow> bool" where
  "TagData_equal dataBuffer other = (case other of TagData d \<Rightarrow> dataBuffer = d | _ \<Rightarrow> False)"

definition TagDate_equal :: "xstring8 \<Rightarrow> tag_struct \<Rightarrow> bool option" where
  "TagDate_equal s other =
     (if \<not> isDate other then Some False else case other of TagDate s' \<Rightarrow> isEqual s (data s') | _ \<Rightarrow> None)"

definition TagFloat_equal :: "32 word \<Rightarrow> tag_struct \<Rightarrow> bool" where
  "TagFloat_equal value other = (case other of TagFloat f \<Rightarrow> float_equal value f | _ \<Rightarrow> False)"

definition TagInt64_equal :: "intn \<Rightarrow> tag_struct \<Rightarrow> bool" where
  "TagInt64_equal value other = (case other of TagInt64 i \<Rightarrow> value = i | _ \<Rightarrow> False)"

definition TagKey_equal :: "xstring8 \<Rightarrow> tag_struct \<Rightarrow> bool option" where
  "TagKey_equal s other = (case other of TagKey s' \<Rightarrow> isEqual s (data s') | _ \<Rightarrow> Some False)"

definition TagString_equal :: "xstring8 \<Rightarrow> tag_struct \<Rightarrow> bool option" where
  "TagString_equal s other = (case other of TagString s' \<Rightarrow> isEqual s (data s') | _ \<Rightarrow> Some False)"

text \<open>
  \<open>equal\<close> is the virtual \<open>operator ==\<close>. The loop of the containers compares two lists of the
  same size; \<open>None\<close> is the panic of \<open>getDict\<close> on a date, or a comparison that does not return.
\<close>

function equal :: "tag_struct \<Rightarrow> tag_struct \<Rightarrow> bool option"
  and TagArray_equal :: "tag_struct list \<Rightarrow> tag_struct \<Rightarrow> bool option"
  and TagDict_equal :: "tag_struct list \<Rightarrow> tag_struct \<Rightarrow> bool option"
  and equal_loop :: "tag_struct list \<Rightarrow> tag_struct list \<Rightarrow> bool option" where
  "equal (TagArray arrayContent) other = TagArray_equal arrayContent other"
| "equal (TagBool value) other = Some (TagBool_equal value other)"
| "equal (TagData dataBuffer) other = Some (TagData_equal dataBuffer other)"
| "equal (TagDate s) other = TagDate_equal s other"
| "equal (TagDict dictContent) other = TagDict_equal dictContent other"
| "equal (TagFloat value) other = Some (TagFloat_equal value other)"
| "equal (TagInt64 value) other = Some (TagInt64_equal value other)"
| "equal (TagKey s) other = TagKey_equal s other"
| "equal (TagString s) other = TagString_equal s other"
| "TagArray_equal arrayContent other =
     (if \<not> isArray other then Some False
      else case getArray other of None \<Rightarrow> None
      | Some content \<Rightarrow> if length arrayContent \<noteq> length content then Some False else equal_loop arrayContent content)"
| "TagDict_equal dictContent other =
     (if \<not> isDict other then Some False
      else case getDict other of None \<Rightarrow> None
      | Some content \<Rightarrow> if length dictContent \<noteq> length content then Some False else equal_loop dictContent content)"
| "equal_loop (tag # tags) (tag' # tags') =
     (case equal tag tag' of None \<Rightarrow> None | Some False \<Rightarrow> Some False | Some True \<Rightarrow> equal_loop tags tags')"
| "equal_loop (tag # tags) [] = None"
| "equal_loop [] _ = Some True"
  by pat_completeness auto
termination
  by (relation "measure (case_sum (case_sum (\<lambda>(t, _). 2 * size t) (\<lambda>(ts, _). 2 * size_list size ts + 1))
      (case_sum (\<lambda>(ts, _). 2 * size_list size ts + 1) (\<lambda>(ts, _). 2 * size_list size ts)))") auto

text \<open>\<open>debugIsEqual\<close>, without the messages: \<open>TagStruct\<close> has the one for the scalar classes.\<close>

definition TagStruct_debugIsEqual :: "tag_struct \<Rightarrow> tag_struct \<Rightarrow> bool option" where
  "TagStruct_debugIsEqual tag other =
     (case equal tag other of None \<Rightarrow> None | Some b \<Rightarrow> if \<not> b then (case equal tag other of None \<Rightarrow> None | Some _ \<Rightarrow> Some False) else Some True)"

function debugIsEqual :: "tag_struct \<Rightarrow> tag_struct \<Rightarrow> bool option"
  and TagArray_debugIsEqual :: "tag_struct list \<Rightarrow> tag_struct \<Rightarrow> bool option"
  and TagDict_debugIsEqual :: "tag_struct list \<Rightarrow> tag_struct \<Rightarrow> bool option"
  and debug_loop :: "tag_struct list \<Rightarrow> tag_struct list \<Rightarrow> bool option" where
  "debugIsEqual tag other =
     (case tag of TagArray arrayContent \<Rightarrow> TagArray_debugIsEqual arrayContent other
      | TagDict dictContent \<Rightarrow> TagDict_debugIsEqual dictContent other
      | _ \<Rightarrow> TagStruct_debugIsEqual tag other)"
| "TagArray_debugIsEqual arrayContent other =
     (if \<not> isArray other then Some False
      else case getArray other of None \<Rightarrow> None
      | Some content \<Rightarrow> if length arrayContent \<noteq> length content then Some False else debug_loop arrayContent content)"
| "TagDict_debugIsEqual dictContent other =
     (if \<not> isDict other then Some False
      else case getDict other of None \<Rightarrow> None
      | Some content \<Rightarrow> if length dictContent \<noteq> length content then Some False else debug_loop dictContent content)"
| "debug_loop (tag # tags) (tag' # tags') =
     (case debugIsEqual tag tag' of None \<Rightarrow> None | Some False \<Rightarrow> Some False | Some True \<Rightarrow> debug_loop tags tags')"
| "debug_loop (tag # tags) [] = None"
| "debug_loop [] _ = Some True"
  by pat_completeness auto
termination
  by (relation "measure (case_sum (case_sum (\<lambda>(t, _). 2 * size t) (\<lambda>(ts, _). 2 * size_list size ts + 1))
      (case_sum (\<lambda>(ts, _). 2 * size_list size ts + 1) (\<lambda>(ts, _). 2 * size_list size ts)))") auto

declare debugIsEqual.simps [simp del]

section \<open>The caches\<close>

text \<open>Every object in a cache is as good as a new one.\<close>

definition cache_ok :: "tag_cache \<Rightarrow> bool" where
  "cache_ok c \<longleftrightarrow>
     list_all (\<lambda>content. content = []) (freeArray c) \<and> list_all (\<lambda>b. b = False) (freeBool c) \<and>
     list_all (\<lambda>d. d = []) (freeData c) \<and> list_all (\<lambda>s. sound s \<and> data s = []) (freeDate c) \<and>
     list_all (\<lambda>content. content = []) (freeDict c) \<and> list_all (\<lambda>f. f = 0) (freeFloat c) \<and>
     list_all (\<lambda>i. i = 0) (freeInt64 c) \<and> list_all (\<lambda>s. sound s \<and> data s = []) (freeKey c) \<and>
     list_all (\<lambda>s. sound s \<and> data s = []) (freeString c)"

definition cached :: "tag_cache \<Rightarrow> nat" where
  "cached c = length (freeArray c) + length (freeBool c) + length (freeData c) + length (freeDate c) +
     length (freeDict c) + length (freeFloat c) + length (freeInt64 c) + length (freeKey c) + length (freeString c)"

fun nodes :: "'s tag \<Rightarrow> nat" where
  "nodes (TagArray ts) = Suc (sum_list (map nodes ts))"
| "nodes (TagDict ts) = Suc (sum_list (map nodes ts))"
| "nodes _ = 1"

definition sound_tag :: "tag_struct \<Rightarrow> bool" where
  "sound_tag tag \<longleftrightarrow> (\<forall>s\<in>set_tag tag. sound s)"

lemma sound_tag_simps [simp]:
  "sound_tag (TagArray ts) \<longleftrightarrow> list_all sound_tag ts" "sound_tag (TagDict ts) \<longleftrightarrow> list_all sound_tag ts"
  "sound_tag (TagBool b)" "sound_tag (TagData d)" "sound_tag (TagFloat f)" "sound_tag (TagInt64 i)"
  "sound_tag (TagDate s) \<longleftrightarrow> sound s" "sound_tag (TagKey s) \<longleftrightarrow> sound s" "sound_tag (TagString s) \<longleftrightarrow> sound s"
  by (auto simp: sound_tag_def list_all_iff)

definition returns_to_cache :: "tag_cache \<Rightarrow> nat \<Rightarrow> tag_cache option \<Rightarrow> bool" where
  "returns_to_cache c n r \<longleftrightarrow> (\<exists>c'. r = Some c' \<and> cache_ok c' \<and> cached c' = cached c + n)"

lemma release_string:
  assumes "cache_ok c" "sound s"
  shows "returns_to_cache c 1 (TagDate_ReleaseTag s c)" "returns_to_cache c 1 (TagKey_ReleaseTag s c)"
    "returns_to_cache c 1 (TagString_ReleaseTag s c)"
  using assms setEmpty_sound [OF assms(2)]
  by (auto simp: returns_to_cache_def ReleaseTag_defs cache_ok_def cached_def)

lemma release_ok:
  "cache_ok c \<Longrightarrow> sound_tag tag \<Longrightarrow> returns_to_cache c (nodes tag) (ReleaseTag tag c)"
  "cache_ok c \<Longrightarrow> list_all sound_tag ts \<Longrightarrow> returns_to_cache c (Suc (sum_list (map nodes ts))) (TagArray_ReleaseTag ts c)"
  "cache_ok c \<Longrightarrow> list_all sound_tag ts \<Longrightarrow> returns_to_cache c (Suc (sum_list (map nodes ts))) (TagDict_ReleaseTag ts c)"
  "cache_ok c \<Longrightarrow> list_all sound_tag ts \<Longrightarrow> returns_to_cache c (sum_list (map nodes ts)) (release_loop ts c)"
proof (induction tag c and ts c and ts c and ts c rule: ReleaseTag_TagArray_ReleaseTag_TagDict_ReleaseTag_release_loop.induct)
  case (13 tag tags c)
  then obtain c' where c': "release_loop tags c = Some c'" "cache_ok c'" "cached c' = cached c + sum_list (map nodes tags)"
    by (auto simp: returns_to_cache_def)
  then have "returns_to_cache c' (nodes tag) (ReleaseTag tag c')" using 13 by simp
  then show ?case using c' by (simp add: returns_to_cache_def ac_simps)
qed (use release_string in \<open>auto simp: returns_to_cache_def ReleaseTag_defs cache_ok_def cached_def\<close>)

lemma getEmptyTag_ok:
  assumes "cache_ok c"
  shows "fst (TagArray_getEmptyTag c) = [] \<and> cache_ok (snd (TagArray_getEmptyTag c))"
    "fst (TagBool_getEmptyTag c) = False \<and> cache_ok (snd (TagBool_getEmptyTag c))"
    "fst (TagData_getEmptyTag c) = [] \<and> cache_ok (snd (TagData_getEmptyTag c))"
    "sound (fst (TagDate_getEmptyTag c)) \<and> data (fst (TagDate_getEmptyTag c)) = [] \<and> cache_ok (snd (TagDate_getEmptyTag c))"
    "fst (TagDict_getEmptyTag c) = [] \<and> cache_ok (snd (TagDict_getEmptyTag c))"
    "fst (TagFloat_getEmptyTag c) = 0 \<and> cache_ok (snd (TagFloat_getEmptyTag c))"
    "fst (TagInt64_getEmptyTag c) = 0 \<and> cache_ok (snd (TagInt64_getEmptyTag c))"
    "sound (fst (TagKey_getEmptyTag c)) \<and> data (fst (TagKey_getEmptyTag c)) = [] \<and> cache_ok (snd (TagKey_getEmptyTag c))"
    "sound (fst (TagString_getEmptyTag c)) \<and> data (fst (TagString_getEmptyTag c)) = [] \<and> cache_ok (snd (TagString_getEmptyTag c))"
  using assms new_sound by (auto simp: cache_ok_def getEmptyTag_defs split: list.split)

section \<open>Comparing and finding\<close>

text \<open>
  Tags on which \<open>operator ==\<close> is an equality: no dates, which equal nothing, and no NaN and no
  negative zero among the numbers.
\<close>

fun comparable :: "tag_struct \<Rightarrow> bool" where
  "comparable (TagArray ts) = list_all comparable ts"
| "comparable (TagDict ts) = list_all comparable ts"
| "comparable (TagDate s) = False"
| "comparable (TagFloat f) = (f \<le> 0x7F800000 \<or> 0x80000000 < f \<and> f \<le> 0xFF800000)"
| "comparable (TagKey s) = textual (data s)"
| "comparable (TagString s) = textual (data s)"
| "comparable _ = True"

lemma isEqual_textual: "textual (data s) \<Longrightarrow> textual t \<Longrightarrow> isEqual s t = Some (data s = t)"
  by (simp add: isEqual_def compare_textual text_compare_equal fold_case_def [abs_def] textual_eq)

lemma isEqualIC_textual:
  "textual (data s) \<Longrightarrow> textual t \<Longrightarrow>
   isEqualIC s t = Some (map (fold_case True) (text_of (data s)) = map (fold_case True) (text_of t))"
  by (simp add: isEqualIC_def compare_textual text_compare_equal)

lemma magnitude: "unat ((f :: 32 word) AND 0x7FFFFFFF) = unat f mod 2 ^ 31"
proof -
  have "f AND 0x7FFFFFFF = take_bit 31 f" by (simp add: take_bit_eq_mask mask_eq_exp_minus_1)
  then show ?thesis by (simp add: take_bit_eq_mod unat_mod)
qed

lemma float_equal_plain:
  assumes "comparable (TagFloat f)" "comparable (TagFloat g)"
  shows "float_equal f g \<longleftrightarrow> f = g"
proof -
  have m: "unat x mod 2147483648 = (if unat x < 2147483648 then unat x else unat x - 2147483648)" for x :: "32 word"
    using unsigned_less [of x, where ?'a = nat] by (auto simp: mod_if)
  have z: "unat x = 0 \<longleftrightarrow> x = 0" for x :: "32 word" by (simp add: unat_eq_zero)
  have n: "\<not> (x AND 0x7FFFFFFF > 0x7F800000) \<and> (x AND 0x7FFFFFFF = 0 \<longrightarrow> x = 0)" if "comparable (TagFloat x)" for x
    using that m [of x] z [of x] z [of "x AND 0x7FFFFFFF"] magnitude [of x]
    by (auto simp: word_less_nat_alt word_le_nat_alt split: if_splits)
  show ?thesis using n [OF assms(1)] n [OF assms(2)] by (auto simp: float_equal_def Let_def)
qed

lemma debug_equal:
  "debugIsEqual tag other = equal tag other" "TagArray_debugIsEqual ts other = TagArray_equal ts other"
  "TagDict_debugIsEqual ts other = TagDict_equal ts other" "debug_loop ts us = equal_loop ts us"
proof (induction tag other and ts other and ts other and ts us
    rule: debugIsEqual_TagArray_debugIsEqual_TagDict_debugIsEqual_debug_loop.induct)
  case (1 tag other)
  then show ?case
    by (subst debugIsEqual.simps) (cases tag; auto simp: TagStruct_debugIsEqual_def split: option.split)
qed (auto split: option.split bool.split)

section \<open>Pairs\<close>

text \<open>The entries of a dictionary: a key with the value that follows it.\<close>

fun pairs :: "'s tag list \<Rightarrow> ('s tag \<times> 's tag) list" where
  "pairs (tag # tag2 # tags) = (if isKey tag \<and> \<not> isKey tag2 then [(tag, tag2)] else []) @ pairs (tag2 # tags)"
| "pairs _ = []"

definition dict_of :: "('s \<times> 's tag) list \<Rightarrow> 's tag list" where
  "dict_of ps = concat (map (\<lambda>(k, v). [TagKey k, v]) ps)"

definition folded_key :: "byte list \<Rightarrow> char32 list" where
  "folded_key key = map (fold_case True) (text_of key)"

lemma count_loop_pairs: "count_loop tags n = n + length (pairs tags)"
  by (induction tags n rule: count_loop.induct) auto

lemma index_loop_pairs:
  "element \<le> idx \<Longrightarrow>
   index_loop tags idx element = (if idx < element + length (pairs tags) then Some (pairs tags ! (idx - element)) else None)"
proof (induction tags idx element rule: index_loop.induct)
  case (1 tag tag2 tags idx element)
  then show ?case by (auto simp: nth_Cons')
qed auto

lemma pairs_dict_of:
  "list_all (\<lambda>(k, v). \<not> isKey v) ps \<Longrightarrow> pairs (dict_of ps) = map (\<lambda>(k, v). (TagKey k, v)) ps"
proof (induction ps)
  case (Cons p ps)
  obtain k v where p: "p = (k, v)" by force
  have "pairs (v # dict_of ps) = pairs (dict_of ps)" if "\<not> isKey v"
    using that by (cases "dict_of ps") auto
  then show ?case using Cons p by (simp add: dict_of_def)
qed (simp add: dict_of_def)

lemma key_loop_value: "\<not> isKey v \<Longrightarrow> key_loop (v # tags) key = key_loop tags key"
  by (cases v) auto

lemma key_loop_dict_of:
  "list_all (\<lambda>(k, v). textual (data k) \<and> \<not> isKey v) ps \<Longrightarrow> textual key \<Longrightarrow>
   key_loop (dict_of ps) key = Some (map_of (map (\<lambda>(k, v). (folded_key (data k), v)) ps) (folded_key key))"
proof (induction ps)
  case (Cons p ps)
  obtain k v where p: "p = (k, v)" by force
  have "dict_of (p # ps) = TagKey k # v # dict_of ps" by (simp add: dict_of_def p)
  moreover have "isEqualIC k key = Some (folded_key (data k) = folded_key key)"
    using Cons.prems p by (simp add: isEqualIC_textual folded_key_def)
  ultimately show ?case using Cons p key_loop_value [of v "dict_of ps" key]
    by (cases v) (auto split: bool.split)
qed (simp add: dict_of_def)

lemma equal_comparable:
  "comparable tag \<Longrightarrow> comparable other \<Longrightarrow> equal tag other = Some (map_tag data tag = map_tag data other)"
  "list_all comparable ts \<Longrightarrow> comparable other \<Longrightarrow> TagArray_equal ts other = Some (map_tag data (TagArray ts) = map_tag data other)"
  "list_all comparable ts \<Longrightarrow> comparable other \<Longrightarrow> TagDict_equal ts other = Some (map_tag data (TagDict ts) = map_tag data other)"
  "list_all comparable ts \<Longrightarrow> list_all comparable us \<Longrightarrow> length ts = length us \<Longrightarrow>
    equal_loop ts us = Some (map (map_tag data) ts = map (map_tag data) us)"
proof (induction tag other and ts other and ts other and ts us
    rule: equal_TagArray_equal_TagDict_equal_equal_loop.induct)
  case (6 f other)
  then show ?case using float_equal_plain [of f] by (cases other) (auto simp: TagFloat_equal_def)
next
  case (10 ts other)
  then show ?case by (cases other) (auto dest: map_eq_imp_length_eq)
next
  case (11 ts other)
  then show ?case by (cases other) (auto dest: map_eq_imp_length_eq)
next
  case (2 b other)
  then show ?case by (cases other) (auto simp: TagBool_equal_def)
next
  case (3 d other)
  then show ?case by (cases other) (auto simp: TagData_equal_def)
next
  case (7 i other)
  then show ?case by (cases other) (auto simp: TagInt64_equal_def)
next
  case (8 s other)
  then show ?case by (cases other) (auto simp: TagKey_equal_def isEqual_textual)
next
  case (9 s other)
  then show ?case by (cases other) (auto simp: TagString_equal_def isEqual_textual)
qed (auto split: option.split bool.split)

section \<open>Numbers in properties\<close>

definition plain_ascii :: "byte list \<Rightarrow> bool" where
  "plain_ascii t \<longleftrightarrow> list_all (\<lambda>b. b \<noteq> 0 \<and> b AND 0x80 = 0) t"

lemma ascii_bit: "\<forall>b :: byte. b \<noteq> 0 \<and> b AND 0x80 = 0 \<longrightarrow> ucast b < (0x80 :: char32) \<and> scalar (ucast b) \<and> (ucast (ucast b :: char32) :: byte) = b"
  by code_simp

lemma ascii_units: "plain_ascii t \<Longrightarrow> units utf8 (map ucast t) = t \<and> list_all scalar (map ucast t)"
  using ascii_bit by (induction t) (auto simp: plain_ascii_def utf8_ascii)

lemma ascii_length: "plain_ascii (data s) \<Longrightarrow> string_length s = Some (length (data s))"
  using ascii_units [of "data s"] length_text [of "map ucast (data s)"] by (simp add: string_length_def)

lemma ascii_char0: "plain_ascii (b # t) \<Longrightarrow> data s = b # t \<Longrightarrow> char32At s 0 = ucast b"
  using ascii_bit by (auto simp: char32At_def char32At_loop.simps ascii_read plain_ascii_def scalar_def)

lemma ascii_char1: "plain_ascii (a # b # t) \<Longrightarrow> data s = a # b # t \<Longrightarrow> char32At s 1 = ucast b"
  using ascii_bit by (auto simp: char32At_def char32At_loop.simps ascii_read plain_ascii_def scalar_def)

lemma digits_ascii:
  "list_all InternalAsciiIsDecimalDigitCharacter ds \<Longrightarrow> plain_ascii ds"
  "list_all InternalAsciiIsHexaDecimalDigitCharacter hs \<Longrightarrow> plain_ascii hs"
proof -
  have "\<forall>b. InternalAsciiIsHexaDecimalDigitCharacter b \<longrightarrow> b \<noteq> 0 \<and> b AND 0x80 = 0" by code_simp
  moreover have "\<forall>b. InternalAsciiIsDecimalDigitCharacter b \<longrightarrow> b \<noteq> 0 \<and> b AND 0x80 = 0" by code_simp
  ultimately show "list_all InternalAsciiIsDecimalDigitCharacter ds \<Longrightarrow> plain_ascii ds"
    "list_all InternalAsciiIsHexaDecimalDigitCharacter hs \<Longrightarrow> plain_ascii hs"
    by (auto simp: plain_ascii_def list_all_iff)
qed

lemma decimal_text:
  assumes "list_all InternalAsciiIsDecimalDigitCharacter ds" "ds \<noteq> []"
  shows "AsciiStrDecimalToUintn (Some ds) = word_of_nat (numeral_value 10 decimal_digit ds)"
  using ascii_digits.decimal_number [of "[]" ds "[]" 0] assms by (simp add: number_defs)

lemma hex_text:
  assumes "list_all InternalAsciiIsHexaDecimalDigitCharacter hs" "x = 0x78 \<or> x = 0x58"
  shows "AsciiStrHexToUintn (Some (0x30 # x # hs)) = Some (word_of_nat (numeral_value 16 hex_digit hs))"
  using ascii_digits.hex_number [of "[]" "[0x30]" x hs "[]" 0] assms by (auto simp: number_defs)

lemma no_x: "InternalAsciiIsDecimalDigitCharacter b \<Longrightarrow> (ucast b :: char32) \<noteq> 0x78 \<and> (ucast b :: char32) \<noteq> 0x58 \<and> (ucast b :: char32) \<noteq> 0x2D \<and> (ucast b :: char32) \<noteq> 0x2B"
proof -
  have "\<forall>b. InternalAsciiIsDecimalDigitCharacter b \<longrightarrow> (ucast b :: char32) \<noteq> 0x78 \<and> (ucast b :: char32) \<noteq> 0x58 \<and> (ucast b :: char32) \<noteq> 0x2D \<and> (ucast b :: char32) \<noteq> 0x2B"
    by code_simp
  then show "InternalAsciiIsDecimalDigitCharacter b \<Longrightarrow> ?thesis" by blast
qed

lemma second_char:
  assumes "plain_ascii (a # ds)" "list_all InternalAsciiIsDecimalDigitCharacter ds" "data s = a # ds"
  shows "\<not> (length ds > 0 \<and> (char32At s 1 = 0x78 \<or> char32At s 1 = 0x58))"
  using assms ascii_char1 [of a _ _ s] no_x by (cases ds) auto

lemma little_endian_value:
  "length d \<le> 8 \<Longrightarrow> little_endian d = word_of_nat (numeral_value 256 unat (rev d))"
  by (induction d) (simp_all add: numeral_value_def)

section \<open>Properties\<close>

text \<open>
  C3: The caches of released tags hold only objects that are as good as new ones. From such
  caches every \<open>getEmptyTag\<close> gives a tag with empty contents; releasing a tree of tags succeeds
  and puts each of its tags into a cache once; all operations keep the caches in order.
\<close>
theorem tag_cache_invariant:
  assumes "cache_ok c" and "sound_tag tag"
  shows "(\<exists>c'. ReleaseTag tag c = Some c' \<and> cache_ok c' \<and> cached c' = cached c + nodes tag) \<and>
    cache_ok (EmptyCache c) \<and> cached (EmptyCache c) = 0 \<and>
    (fst (TagArray_getEmptyTag c) = [] \<and> cache_ok (snd (TagArray_getEmptyTag c))) \<and>
    (fst (TagBool_getEmptyTag c) = False \<and> cache_ok (snd (TagBool_getEmptyTag c))) \<and>
    (fst (TagData_getEmptyTag c) = [] \<and> cache_ok (snd (TagData_getEmptyTag c))) \<and>
    (data (fst (TagDate_getEmptyTag c)) = [] \<and> cache_ok (snd (TagDate_getEmptyTag c))) \<and>
    (fst (TagDict_getEmptyTag c) = [] \<and> cache_ok (snd (TagDict_getEmptyTag c))) \<and>
    (fst (TagFloat_getEmptyTag c) = 0 \<and> cache_ok (snd (TagFloat_getEmptyTag c))) \<and>
    (fst (TagInt64_getEmptyTag c) = 0 \<and> cache_ok (snd (TagInt64_getEmptyTag c))) \<and>
    (data (fst (TagKey_getEmptyTag c)) = [] \<and> cache_ok (snd (TagKey_getEmptyTag c))) \<and>
    (data (fst (TagString_getEmptyTag c)) = [] \<and> cache_ok (snd (TagString_getEmptyTag c)))"
proof -
  have "cache_ok (EmptyCache c) \<and> cached (EmptyCache c) = 0" by (simp add: EmptyCache_def cache_ok_def cached_def)
  then show ?thesis
    using release_ok(1) [OF assms] getEmptyTag_ok [OF assms(1)] by (simp add: returns_to_cache_def)
qed

definition no_tags :: tag_cache where
  "no_tags = \<lparr>freeArray = [], freeBool = [], freeData = [], freeDate = [], freeDict = [],
     freeFloat = [], freeInt64 = [], freeKey = [], freeString = []\<rparr>"

theorem tag_cache_invariant_witness:
  "\<exists>c'. ReleaseTag (TagDict [TagKey (xstring8_of_literal []), TagArray [TagBool True, TagInt64 5]]) no_tags = Some c' \<and> cached c' = 5"
proof -
  have "cache_ok no_tags" "cached no_tags = 0" by (simp_all add: no_tags_def cache_ok_def cached_def)
  moreover have "sound_tag (TagDict [TagKey (xstring8_of_literal []), TagArray [TagBool True, TagInt64 5]])"
    by (simp add: sound_def xstring8_of_literal_def)
  ultimately show ?thesis using tag_cache_invariant [of no_tags "TagDict [TagKey (xstring8_of_literal []), TagArray [TagBool True, TagInt64 5]]"]
    by auto
qed







text \<open>A date is taken for a dictionary: comparing a dictionary with it panics, and a date does not equal itself.\<close>

lemma date_is_dict: "isDict (TagDate s)" "equal (TagDict ts) (TagDate s) = None" "equal (TagDate s) (TagDate s) = Some False"
  by (simp_all add: TagDate_equal_def isDate_def)

end
