(* ===== verification/Plist_Parser.thy ===== *)
theory Plist_Parser
  imports Plist_Tags
begin

text \<open>
  The parser of property lists: \<open>ParseXML\<close> and the routines below it in \<open>Platform/plist/plist.cpp\<close>.
  The parser works in place on a copy of the file, \<open>configBuffer\<close>, which it cuts into C strings by
  storing zero bytes. A pointer into the copy is an offset into \<open>mem\<close>. A routine ends with a
  result, with an error status, or with a fault: an access outside the copy, or a use of a null
  pointer after a failed allocation. The recursion and the loops take fuel; \<open>Unfinished\<close> is what
  is left when it runs out, and \<open>plist_parser_safe\<close> shows that it never does.
  Lengths are \<open>UINT32\<close>.

  \<open>AsciiStrToFloat\<close> of \<open>libeg/FloatLib.cpp\<close> computes in floating point and is an argument of the
  model, with the former value of the variable it stores into.
\<close>

section \<open>State\<close>

record pstate =
  mem :: "byte list"
  cache :: tag_cache

datatype 'a outcome =
    Done 'a pstate
  | Failed efi_status pstate
  | Fault
  | Unfinished

fun and_then :: "'a outcome \<Rightarrow> ('a \<Rightarrow> pstate \<Rightarrow> 'b outcome) \<Rightarrow> 'b outcome" where
  "and_then (Done x st) f = f x st"
| "and_then (Failed Status st) f = Failed Status st"
| "and_then Fault f = Fault"
| "and_then Unfinished f = Unfinished"

record firmware =
  AllocatePool :: pool
  AsciiStrToFloat :: "byte list \<Rightarrow> 32 word \<Rightarrow> efi_status \<times> 32 word"
  stack_float :: "32 word"

definition cstring_at :: "nat \<Rightarrow> pstate \<Rightarrow> byte list" where
  "cstring_at p st = c_string (drop p (mem st))"

section \<open>Tags in the text\<close>

text \<open>\<open>while ((buffer[cnt] != 0) && (buffer[cnt] != c)) cnt++;\<close>\<close>

fun find_byte :: "byte \<Rightarrow> byte list \<Rightarrow> nat option" where
  "find_byte c [] = None"
| "find_byte c (b # bs) = (if b \<noteq> 0 \<and> b \<noteq> c then map_option Suc (find_byte c bs) else Some 0)"

text \<open>The result: the tag name, the position of its \<open><\<close>, and the length up to its end.\<close>

definition GetNextTag :: "nat \<Rightarrow> pstate \<Rightarrow> (nat \<times> nat \<times> nat) outcome" where
  "GetNextTag buffer st =
     (case find_byte 0x3C (drop buffer (mem st)) of
        None \<Rightarrow> Fault
      | Some cnt \<Rightarrow>
          if mem st ! (buffer + cnt) = 0 then Failed EFI_UNSUPPORTED st
          else (case find_byte 0x3E (drop (buffer + (cnt + 1)) (mem st)) of
              None \<Rightarrow> Fault
            | Some k \<Rightarrow>
                let cnt2 = cnt + 1 + k in
                if mem st ! (buffer + cnt2) = 0 then Failed EFI_UNSUPPORTED st
                else Done (buffer + cnt + 1, cnt, cnt2 + 1) (st\<lparr>mem := (mem st)[buffer + cnt2 := 0]\<rparr>)))"

fun fix_loop :: "nat \<Rightarrow> nat \<Rightarrow> byte list \<Rightarrow> nat \<Rightarrow> pstate \<Rightarrow> nat outcome" where
  "fix_loop 0 buffer tag start st = Unfinished"
| "fix_loop (Suc fuel) buffer tag start st =
     and_then (GetNextTag (buffer + start) st) (\<lambda>(endTag, stop, len) st.
       if mem st ! endTag = 0x2F \<and> cstring_at (endTag + 1) st = tag
       then Done (u32 (start + len)) (st\<lparr>mem := (mem st)[buffer + u32 (start + stop) := 0]\<rparr>)
       else fix_loop fuel buffer tag (u32 (start + len)) st)"

definition FixDataMatchingTag :: "nat \<Rightarrow> byte list \<Rightarrow> pstate \<Rightarrow> nat outcome" where
  "FixDataMatchingTag buffer tag st = fix_loop (length (mem st) + 1) buffer tag 0 st"

section \<open>Scalar tags\<close>

text \<open>\<open>strncpy\<close> of an object, as a step of the parser\<close>

definition with_string :: "firmware \<Rightarrow> byte list \<Rightarrow> nat \<Rightarrow> xstring8 \<Rightarrow> (xstring8 \<Rightarrow> 'a outcome) \<Rightarrow> 'a outcome" where
  "with_string fw value len s f =
     (case strncpy (AllocatePool fw) (Some value) len s of None \<Rightarrow> Fault | Some s' \<Rightarrow> f s')"

definition ParseTagKey :: "firmware \<Rightarrow> nat \<Rightarrow> pstate \<Rightarrow> (tag_struct \<times> nat) outcome" where
  "ParseTagKey fw buffer st =
     and_then (FixDataMatchingTag buffer (ascii ''key'') st) (\<lambda>len st.
       let (tmpTag, c) = TagKey_getEmptyTag (cache st); value = cstring_at buffer st
       in with_string fw value (length value) tmpTag (\<lambda>s. Done (TagKey s, len) (st\<lparr>cache := c\<rparr>)))"

definition ParseTagString :: "firmware \<Rightarrow> nat \<Rightarrow> pstate \<Rightarrow> (tag_struct \<times> nat) outcome" where
  "ParseTagString fw buffer st =
     and_then (FixDataMatchingTag buffer (ascii ''string'') st) (\<lambda>len st.
       let (tmpTag, c) = TagString_getEmptyTag (cache st);
           value = cstring_at buffer st;
           (stored, outlen) = XMLDecode (Some value) (length value) (length value);
           st = st\<lparr>mem := take buffer (mem st) @ stored @ drop (buffer + length stored) (mem st)\<rparr>
       in with_string fw (cstring_at buffer st) outlen tmpTag (\<lambda>s. Done (TagString s, len) (st\<lparr>cache := c\<rparr>)))"

fun hex_loop :: "byte list \<Rightarrow> intn \<Rightarrow> intn option" where
  "hex_loop [] integer = Some integer"
| "hex_loop (b # bs) integer =
     (if 0x30 \<le> b \<and> b \<le> 0x39 then hex_loop bs (integer * 16 + (ucast b - 0x30))
      else if 0x61 \<le> b \<and> b \<le> 0x66 then hex_loop bs (integer * 16 + (ucast b - 0x61 + 10))
      else if 0x41 \<le> b \<and> b \<le> 0x46 then hex_loop bs (integer * 16 + (ucast b - 0x41 + 10))
      else None)"

text \<open>The decimal loop runs \<open>size\<close> times and does nothing at the end of the string.\<close>

fun decimal_loop :: "nat \<Rightarrow> byte list \<Rightarrow> intn \<Rightarrow> intn option" where
  "decimal_loop 0 val integer = Some integer"
| "decimal_loop (Suc n) [] integer = decimal_loop n [] integer"
| "decimal_loop (Suc n) (b # bs) integer =
     (if b < 0x30 \<or> b > 0x39 then None else decimal_loop n bs (integer * 10 + (ucast b - 0x30)))"

text \<open>
  \<open>ParseTagInteger\<close>. When the content starts with another tag, \<open>*lenPtr\<close> keeps its old value,
  which is the length of the opening tag.
\<close>

definition ParseTagInteger :: "firmware \<Rightarrow> nat \<Rightarrow> nat \<Rightarrow> pstate \<Rightarrow> (tag_struct \<times> nat) outcome" where
  "ParseTagInteger fw buffer lenPtr st =
     and_then (FixDataMatchingTag buffer (ascii ''integer'') st) (\<lambda>len st.
       let (tmpTag, c) = TagInt64_getEmptyTag (cache st);
           finish = (\<lambda>r. case r of
               None \<Rightarrow> Failed EFI_UNSUPPORTED (st\<lparr>cache := TagInt64_ReleaseTag 0 c\<rparr>)
             | Some integer \<Rightarrow> Done (TagInt64 integer, len) (st\<lparr>cache := c\<rparr>))
       in if mem st ! buffer = 0x3C then Done (TagInt64 0, lenPtr) (st\<lparr>cache := c\<rparr>)
          else if len > 1 \<and> (mem st ! (buffer + 1) = 0x78 \<or> mem st ! (buffer + 1) = 0x58)
          then finish (hex_loop (cstring_at (buffer + 2) st) 0)
          else if len \<noteq> 0 then
            (if mem st ! buffer = 0x2D then finish (map_option uminus (decimal_loop (len - 1) (cstring_at (buffer + 1) st) 0))
             else finish (decimal_loop len (cstring_at buffer st) 0))
          else finish (Some 0))"

definition ParseTagFloat :: "firmware \<Rightarrow> nat \<Rightarrow> pstate \<Rightarrow> (tag_struct \<times> nat) outcome" where
  "ParseTagFloat fw buffer st =
     and_then (FixDataMatchingTag buffer (ascii ''real'') st) (\<lambda>len st.
       let (tmpTag, c) = TagFloat_getEmptyTag (cache st);
           (Status, f) = AsciiStrToFloat fw (cstring_at buffer st) (stack_float fw)
       in Done (TagFloat f, len) (st\<lparr>cache := c\<rparr>))"

definition setDataValue :: "byte list option \<Rightarrow> nat \<Rightarrow> byte list \<Rightarrow> byte list" where
  "setDataValue dataPtr dataLen dataBuffer =
     (case dataPtr of
        None \<Rightarrow> if dataLen \<noteq> 0 then dataBuffer else []
      | Some d \<Rightarrow> if dataLen = 0 then dataBuffer else take dataLen d)"

definition ParseTagData :: "firmware \<Rightarrow> nat \<Rightarrow> pstate \<Rightarrow> (tag_struct \<times> nat) outcome" where
  "ParseTagData fw buffer st =
     and_then (FixDataMatchingTag buffer (ascii ''data'') st) (\<lambda>len st.
       let (tmpTag, c) = TagData_getEmptyTag (cache st)
       in case Base64DecodeClover (AllocatePool fw) (Some (cstring_at buffer st)) of
            None \<Rightarrow> Fault
          | Some (dataPtr, dataLen) \<Rightarrow> Done (TagData (setDataValue dataPtr dataLen tmpTag), len) (st\<lparr>cache := c\<rparr>))"

definition ParseTagDate :: "firmware \<Rightarrow> nat \<Rightarrow> pstate \<Rightarrow> (tag_struct \<times> nat) outcome" where
  "ParseTagDate fw buffer st =
     and_then (FixDataMatchingTag buffer (ascii ''date'') st) (\<lambda>len st.
       let (tmpTag, c) = TagDate_getEmptyTag (cache st)
       in with_string fw (cstring_at buffer st) len tmpTag (\<lambda>s. Done (TagDate s, len) (st\<lparr>cache := c\<rparr>)))"

definition ParseTagBoolean :: "bool \<Rightarrow> pstate \<Rightarrow> (tag_struct \<times> nat) outcome" where
  "ParseTagBoolean value st =
     (let (tmpTag, c) = TagBool_getEmptyTag (cache st) in Done (TagBool value, 0) (st\<lparr>cache := c\<rparr>))"

section \<open>The recursion\<close>

text \<open>The chain of comparisons of the tag name\<close>

datatype xml_kind =
  kPList | kDict | kDictEmpty | kKey | kString | kInteger | kFloat | kData | kDate | kFalse | kTrue
  | kArray | kArrayEmpty | kUnknown

definition strncmp_equal :: "byte list \<Rightarrow> byte list \<Rightarrow> nat \<Rightarrow> bool" where
  "strncmp_equal a b n \<longleftrightarrow> take n (a @ [0]) = take n (b @ [0])"

definition tag_kind :: "byte list \<Rightarrow> xml_kind" where
  "tag_kind tagName =
     (if strncmp_equal tagName (ascii ''plist'') 6 then kPList
      else if tagName = ascii ''dict'' then kDict
      else if tagName = ascii ''dict/'' then kDictEmpty
      else if strncmp_equal tagName (ascii ''dict '') 5 then kDict
      else if tagName = ascii ''key'' then kKey
      else if tagName = ascii ''string'' then kString
      else if strncmp_equal tagName (ascii ''string '') 7 then kString
      else if tagName = ascii ''integer'' then kInteger
      else if strncmp_equal tagName (ascii ''integer '') 8 then kInteger
      else if tagName = ascii ''real'' then kFloat
      else if strncmp_equal tagName (ascii ''real '') 8 then kFloat
      else if tagName = ascii ''data'' then kData
      else if strncmp_equal tagName (ascii ''data '') 5 then kData
      else if tagName = ascii ''date'' then kDate
      else if tagName = ascii ''false/'' then kFalse
      else if tagName = ascii ''true/'' then kTrue
      else if tagName = ascii ''array'' then kArray
      else if strncmp_equal tagName (ascii ''array '') 6 then kArray
      else if tagName = ascii ''array/'' then kArrayEmpty
      else kUnknown)"

definition dict_or_array :: "bool \<Rightarrow> tag_struct list \<Rightarrow> tag_struct" where
  "dict_or_array arr tagList = (if arr then TagArray tagList else TagDict tagList)"

text \<open>
  \<open>list_loop\<close> is the loop of \<open>__ParseTagList\<close> with the release of the list after an error. The
  arguments of \<open>XMLParseNextTag\<close> are the position and the old value of \<open>*tag\<close>; the result is the
  new one with the length.
\<close>

fun XMLParseNextTag :: "firmware \<Rightarrow> nat \<Rightarrow> nat \<Rightarrow> tag_struct option \<Rightarrow> pstate \<Rightarrow> (tag_struct option \<times> nat) outcome"
  and ParseTagList :: "firmware \<Rightarrow> nat \<Rightarrow> bool \<Rightarrow> nat \<Rightarrow> bool \<Rightarrow> pstate \<Rightarrow> (tag_struct \<times> nat) outcome"
  and list_loop :: "firmware \<Rightarrow> nat \<Rightarrow> bool \<Rightarrow> nat \<Rightarrow> nat \<Rightarrow> tag_struct list \<Rightarrow> pstate \<Rightarrow> (tag_struct list \<times> nat) outcome" where
  "XMLParseNextTag fw 0 buffer tag st = Unfinished"
| "XMLParseNextTag fw (Suc fuel) buffer tag st =
     and_then (GetNextTag buffer st) (\<lambda>(tagName, start, pos) st.
       let ret = (\<lambda>r. and_then r (\<lambda>(t, len) st. Done (Some t, u32 (pos + len)) st)) in
       case tag_kind (cstring_at tagName st) of
         kPList \<Rightarrow> Done (tag, pos) st
       | kDict \<Rightarrow> ret (ParseTagList fw fuel False (buffer + pos) False st)
       | kDictEmpty \<Rightarrow> ret (ParseTagList fw fuel False (buffer + pos) True st)
       | kKey \<Rightarrow> ret (ParseTagKey fw (buffer + pos) st)
       | kString \<Rightarrow> ret (ParseTagString fw (buffer + pos) st)
       | kInteger \<Rightarrow> ret (ParseTagInteger fw (buffer + pos) pos st)
       | kFloat \<Rightarrow> ret (ParseTagFloat fw (buffer + pos) st)
       | kData \<Rightarrow> ret (ParseTagData fw (buffer + pos) st)
       | kDate \<Rightarrow> ret (ParseTagDate fw (buffer + pos) st)
       | kFalse \<Rightarrow> ret (ParseTagBoolean False st)
       | kTrue \<Rightarrow> ret (ParseTagBoolean True st)
       | kArray \<Rightarrow> ret (ParseTagList fw fuel True (buffer + pos) False st)
       | kArrayEmpty \<Rightarrow> ret (ParseTagList fw fuel True (buffer + pos) True st)
       | kUnknown \<Rightarrow> Done (None, pos) st)"
| "ParseTagList fw 0 arr buffer isEmpty_tag st = Unfinished"
| "ParseTagList fw (Suc fuel) arr buffer isEmpty_tag st =
     (let (tagList, c) = (if arr then TagArray_getEmptyTag (cache st) else TagDict_getEmptyTag (cache st));
          st = st\<lparr>cache := c\<rparr>
      in if isEmpty_tag then Done (dict_or_array arr tagList, 0) st
         else and_then (list_loop fw fuel arr buffer 0 tagList st) (\<lambda>(tagList, pos) st.
           Done (dict_or_array arr tagList, pos) st))"
| "list_loop fw 0 arr buffer pos tagList st = Unfinished"
| "list_loop fw (Suc fuel) arr buffer pos tagList st =
     (case XMLParseNextTag fw fuel (buffer + pos) None st of
        Done (newTag, len) st \<Rightarrow>
          (case newTag of
             None \<Rightarrow> Done (tagList, u32 (pos + len)) st
           | Some t \<Rightarrow> list_loop fw fuel arr buffer (u32 (pos + len)) (tagList @ [t]) st)
      | Failed Status st \<Rightarrow>
          (case ReleaseTag (dict_or_array arr tagList) (cache st) of
             None \<Rightarrow> Fault | Some c \<Rightarrow> Failed Status (st\<lparr>cache := c\<rparr>))
      | Fault \<Rightarrow> Fault
      | Unfinished \<Rightarrow> Unfinished)"

section \<open>The whole file\<close>

fun xml_tag_loop :: "firmware \<Rightarrow> nat \<Rightarrow> nat \<Rightarrow> pstate \<Rightarrow> tag_struct outcome" where
  "xml_tag_loop fw 0 pos st = Unfinished"
| "xml_tag_loop fw (Suc fuel) pos st =
     and_then (XMLParseNextTag fw fuel pos None st) (\<lambda>(tag, len) st.
       case tag of
         None \<Rightarrow> xml_tag_loop fw fuel (u32 (pos + len)) st
       | Some t \<Rightarrow>
           if isDict t \<or> isArray t then Done t st
           else (case ReleaseTag t (cache st) of
               None \<Rightarrow> Fault
             | Some c \<Rightarrow> xml_tag_loop fw fuel (u32 (pos + len)) (st\<lparr>cache := c\<rparr>)))"

text \<open>
  \<open>ParseXML\<close>. \<open>buffer\<close> is the memory the caller passes, \<open>dict_given\<close> tells that the pointer for the
  result is not null, and the result is what it points to afterwards, the null pointer for an
  array.
\<close>

definition ParseXML :: "firmware \<Rightarrow> byte list \<Rightarrow> bool \<Rightarrow> nat \<Rightarrow> tag_cache \<Rightarrow> tag_struct list option outcome" where
  "ParseXML fw buffer dict_given bufSize c =
     (let bufferSize = (if bufSize \<noteq> 0 then bufSize else u32 (length (c_string buffer)));
          st = \<lparr>mem = [], cache = c\<rparr>
      in if \<not> dict_given then Failed EFI_INVALID_PARAMETER st
         else case AllocatePool fw (bufferSize + 1) of
           None \<Rightarrow> Failed EFI_OUT_OF_RESOURCES st
         | Some _ \<Rightarrow>
             if bufferSize > length buffer then Fault
             else let configBuffer = map (\<lambda>b. if b = 0 then 0x20 else b) (take bufferSize buffer) @ [0]
               in and_then (xml_tag_loop fw (2 * length configBuffer + 2) 0 (st\<lparr>mem := configBuffer\<rparr>))
                 (\<lambda>tag st. Done (if isDict tag then getDict tag else None) st))"

section \<open>Scanning\<close>

lemma find_byte_hit: "0 \<notin> set xs \<Longrightarrow> c \<notin> set xs \<Longrightarrow> b = 0 \<or> b = c \<Longrightarrow> find_byte c (xs @ b # ys) = Some (length xs)"
  by (induction xs) auto

lemma GetNextTag_found:
  assumes m: "mem st = pre @ gap @ 0x3C # name @ 0x3E # rest" and "0 \<notin> set gap" "0x3C \<notin> set gap" "0 \<notin> set name" "0x3E \<notin> set name"
  shows "GetNextTag (length pre) st =
    Done (length pre + length gap + 1, length gap, length gap + length name + 2) (st\<lparr>mem := pre @ gap @ 0x3C # name @ 0 # rest\<rparr>)"
proof -
  have f: "find_byte 0x3C (drop (length pre) (mem st)) = Some (length gap)"
    "find_byte 0x3E (drop (Suc (length pre + length gap)) (mem st)) = Some (length name)"
    using assms(2-5) by (simp_all add: m find_byte_hit)
  have n: "mem st ! (length pre + length gap) = 0x3C" "mem st ! Suc (length pre + (length gap + length name)) = 0x3E"
    by (simp_all add: m nth_append)
  have u: "(mem st)[Suc (length pre + (length gap + length name)) := 0] = pre @ gap @ 0x3C # name @ 0 # rest"
    by (simp add: m list_update_append)
  show ?thesis by (simp add: GetNextTag_def f n u Let_def)
qed

lemma split_at: "c \<in> set xs \<Longrightarrow> \<exists>ys zs. xs = ys @ c # zs \<and> c \<notin> set ys"
  by (rule split_list_first)

lemma GetNextTag_cases:
  assumes m: "mem st = pre @ bs @ [0]" and z: "0 \<notin> set bs"
  obtains (failed) "GetNextTag (length pre) st = Failed EFI_UNSUPPORTED st"
  | (found) gap name rest where "bs = gap @ 0x3C # name @ 0x3E # rest" "0x3C \<notin> set gap" "0x3E \<notin> set name"
proof (cases "0x3C \<in> set bs")
  case False
  then have "GetNextTag (length pre) st = Failed EFI_UNSUPPORTED st"
    using z by (simp add: GetNextTag_def m find_byte_hit nth_append)
  then show ?thesis by (rule failed)
next
  case True
  then obtain gap bs' where b: "bs = gap @ 0x3C # bs'" "0x3C \<notin> set gap" using split_at by metis
  show ?thesis
  proof (cases "0x3E \<in> set bs'")
    case False
    have f: "find_byte 0x3C (drop (length pre) (mem st)) = Some (length gap)"
      "find_byte 0x3E (drop (Suc (length pre + length gap)) (mem st)) = Some (length bs')"
      using z b False by (simp_all add: m find_byte_hit)
    have n: "mem st ! (length pre + length gap) = 0x3C" "mem st ! Suc (length pre + (length gap + length bs')) = 0"
      by (simp_all add: m b nth_append)
    have "GetNextTag (length pre) st = Failed EFI_UNSUPPORTED st" by (simp add: GetNextTag_def f n Let_def)
    then show ?thesis by (rule failed)
  next
    case True
    then obtain name rest where "bs' = name @ 0x3E # rest" "0x3E \<notin> set name" using split_at by metis
    then show ?thesis using found b by blast
  qed
qed

lemma cstring_at_cut:
  "mem st = pre @ name @ 0 # rest \<Longrightarrow> 0 \<notin> set name \<Longrightarrow> p = length pre \<Longrightarrow> cstring_at p st = name"
  by (simp add: cstring_at_def c_string_text)

text \<open>The matching end tag is the next tag.\<close>

lemma fix_found:
  assumes m: "mem st = pre @ gap @ 0x3C # 0x2F # tag @ 0x3E # rest" and "0 \<notin> set gap" "0x3C \<notin> set gap" "0 \<notin> set tag" "0x3E \<notin> set tag"
    and "length (mem st) < 2 ^ 32"
  shows "FixDataMatchingTag (length pre) tag st =
    Done (length gap + length tag + 3) (st\<lparr>mem := pre @ gap @ 0 # 0x2F # tag @ 0 # rest\<rparr>)"
proof -
  have g: "GetNextTag (length pre) st = Done (length pre + length gap + 1, length gap, length gap + length (0x2F # tag) + 2)
      (st\<lparr>mem := pre @ gap @ 0x3C # (0x2F # tag) @ 0 # rest\<rparr>)"
    using assms by (intro GetNextTag_found) auto
  let ?st = "st\<lparr>mem := pre @ gap @ 0x3C # 0x2F # tag @ 0 # rest\<rparr>"
  have s: "cstring_at (length pre + length gap + 2) ?st = tag"
    by (rule cstring_at_cut [of _ "pre @ gap @ [0x3C, 0x2F]" tag rest]) (use assms in auto)
  have u: "u32 (length gap) = length gap" "u32 (Suc (Suc (Suc (length gap + length tag)))) = Suc (Suc (Suc (length gap + length tag)))"
    using assms(6) by (simp_all add: m)
  have n: "(pre @ gap @ 0x3C # 0x2F # tag @ 0 # rest) ! Suc (length pre + length gap) = 0x2F"
    by (simp add: nth_append)
  have l: "(pre @ gap @ 0x3C # t)[length pre + length gap := 0] = pre @ gap @ 0 # t" for t
    by (simp add: list_update_append)
  show ?thesis
    using s n u by (simp add: FixDataMatchingTag_def g l)
qed

text \<open>In general the bytes up to the end tag are kept or cut by zeros, and a zero ends the first string.\<close>

abbreviation cut :: "byte list \<Rightarrow> byte list \<Rightarrow> bool" where
  "cut \<equiv> list_all2 (\<lambda>x y. y = x \<or> y = 0)"

lemma cut_refl: "cut xs xs"
  by (simp add: list_all2_refl)

lemma fix_loop_general:
  assumes "mem st = pre @ seen @ bs @ [0]" "length seen = start" "0 \<notin> set bs" "length (mem st) < 2 ^ 32" "length bs < fuel"
  shows "(\<exists>m. fix_loop fuel (length pre) tag start st = Failed EFI_UNSUPPORTED (st\<lparr>mem := m\<rparr>)) \<or>
    (\<exists>used c rest. bs = used @ rest \<and> cut used c \<and> 0 \<in> set c \<and>
       fix_loop fuel (length pre) tag start st = Done (start + length used) (st\<lparr>mem := pre @ seen @ c @ rest @ [0]\<rparr>))"
  using assms
proof (induction fuel arbitrary: st seen bs start)
  case (Suc fuel)
  have m: "mem st = (pre @ seen) @ bs @ [0]" "length (pre @ seen) = length pre + start" using Suc.prems by auto
  show ?case
  proof (cases rule: GetNextTag_cases [OF m(1) Suc.prems(3)])
    case 1
    then have "fix_loop (Suc fuel) (length pre) tag start st = Failed EFI_UNSUPPORTED (st\<lparr>mem := mem st\<rparr>)"
      using m(2) by simp
    then show ?thesis by blast
  next
    case (2 gap name rest)
    let ?n = "length gap + length name + 2"
    let ?st = "st\<lparr>mem := (pre @ seen) @ gap @ 0x3C # name @ 0 # rest @ [0]\<rparr>"
    have g: "GetNextTag (length pre + start) st = Done (length pre + start + length gap + 1, length gap, ?n) ?st"
      using GetNextTag_found [of st "pre @ seen" gap name "rest @ [0]"] m 2 Suc.prems(3) by simp
    have u: "u32 (start + ?n) = start + ?n" "u32 (start + length gap) = start + length gap"
      using Suc.prems m(1) 2(1) by simp_all
    show ?thesis
    proof (cases "mem ?st ! (length pre + start + length gap + 1) = 0x2F \<and> cstring_at (length pre + start + length gap + 1 + 1) ?st = tag")
      case True
      have l: "(mem ?st)[length pre + (start + length gap) := 0] = pre @ seen @ (gap @ 0 # name @ [0]) @ rest @ [0]"
        using Suc.prems(2) by (simp add: list_update_append)
      have "fix_loop (Suc fuel) (length pre) tag start st =
          Done (start + length (gap @ 0x3C # name @ [0x3E])) (st\<lparr>mem := pre @ seen @ (gap @ 0 # name @ [0]) @ rest @ [0]\<rparr>)"
        using True l u by (simp add: g del: append_assoc)
      moreover have "bs = (gap @ 0x3C # name @ [0x3E]) @ rest" using 2 by simp
      moreover have "cut (gap @ 0x3C # name @ [0x3E]) (gap @ 0 # name @ [0])"
        by (simp add: list_all2_appendI cut_refl)
      moreover have "0 \<in> set (gap @ 0 # name @ [0])" by simp
      ultimately show ?thesis
        by (intro disjI2 exI [of _ "gap @ 0x3C # name @ [0x3E]"] exI [of _ "gap @ 0 # name @ [0]"] exI [of _ rest] conjI)
    next
      case False
      let ?c = "gap @ 0x3C # name @ [0]"
      have f: "fix_loop (Suc fuel) (length pre) tag start st = fix_loop fuel (length pre) tag (start + ?n) ?st"
        using False u by (auto simp: g)
      have c: "cut (gap @ 0x3C # name @ [0x3E]) ?c" by (simp add: list_all2_appendI cut_refl)
      have "(\<exists>m. fix_loop fuel (length pre) tag (start + ?n) ?st = Failed EFI_UNSUPPORTED (?st\<lparr>mem := m\<rparr>)) \<or>
        (\<exists>used c rest'. rest = used @ rest' \<and> cut used c \<and> 0 \<in> set c \<and>
          fix_loop fuel (length pre) tag (start + ?n) ?st = Done (start + ?n + length used) (?st\<lparr>mem := pre @ (seen @ ?c) @ c @ rest' @ [0]\<rparr>))"
        by (rule Suc.IH) (use Suc.prems 2 m in auto)
      then show ?thesis
      proof (elim disjE exE conjE)
        fix m
        assume "fix_loop fuel (length pre) tag (start + ?n) ?st = Failed EFI_UNSUPPORTED (?st\<lparr>mem := m\<rparr>)"
        then show ?thesis using f by auto
      next
        fix used d rest'
        assume a: "rest = used @ rest'" "cut used d" "0 \<in> set d"
          "fix_loop fuel (length pre) tag (start + ?n) ?st = Done (start + ?n + length used) (?st\<lparr>mem := pre @ (seen @ ?c) @ d @ rest' @ [0]\<rparr>)"
        have "bs = ((gap @ 0x3C # name @ [0x3E]) @ used) @ rest'" using 2 a by simp
        moreover have "cut ((gap @ 0x3C # name @ [0x3E]) @ used) (?c @ d)" using c a(2) by (rule list_all2_appendI)
        moreover have "fix_loop (Suc fuel) (length pre) tag start st =
            Done (start + length ((gap @ 0x3C # name @ [0x3E]) @ used)) (st\<lparr>mem := pre @ seen @ (?c @ d) @ rest' @ [0]\<rparr>)"
          using f a(4) by simp
        moreover have "0 \<in> set (?c @ d)" by simp
        ultimately show ?thesis
          by (intro disjI2 exI [of _ "(gap @ 0x3C # name @ [0x3E]) @ used"] exI [of _ "?c @ d"] exI [of _ rest'] conjI)
      qed
    qed
  qed
qed simp

lemma fix_general:
  assumes "mem st = pre @ bs @ [0]" "0 \<notin> set bs" "length (mem st) < 2 ^ 32"
  obtains (failed) m where "FixDataMatchingTag (length pre) tag st = Failed EFI_UNSUPPORTED (st\<lparr>mem := m\<rparr>)"
  | (fixed) used c rest where "bs = used @ rest" "cut used c" "0 \<in> set c" "length c = length used"
      "FixDataMatchingTag (length pre) tag st = Done (length used) (st\<lparr>mem := pre @ c @ rest @ [0]\<rparr>)"
proof -
  have "(\<exists>m. FixDataMatchingTag (length pre) tag st = Failed EFI_UNSUPPORTED (st\<lparr>mem := m\<rparr>)) \<or>
    (\<exists>used c rest. bs = used @ rest \<and> cut used c \<and> 0 \<in> set c \<and>
       FixDataMatchingTag (length pre) tag st = Done (length used) (st\<lparr>mem := pre @ c @ rest @ [0]\<rparr>))"
    using fix_loop_general [of st pre "[]" bs 0 "length (mem st) + 1" tag] assms
    unfolding FixDataMatchingTag_def by (simp del: fix_loop.simps)
  then show thesis
  proof (elim disjE exE conjE)
    fix m
    assume "FixDataMatchingTag (length pre) tag st = Failed EFI_UNSUPPORTED (st\<lparr>mem := m\<rparr>)"
    then show thesis by (rule failed)
  next
    fix used c rest
    assume a: "bs = used @ rest" "cut used c" "0 \<in> set c"
      "FixDataMatchingTag (length pre) tag st = Done (length used) (st\<lparr>mem := pre @ c @ rest @ [0]\<rparr>)"
    show thesis by (rule fixed [OF a(1-3) _ a(4)]) (simp add: list_all2_lengthD [OF a(2)])
  qed
qed

end
