(* ===== verification/Plist_Safety.thy ===== *)
theory Plist_Safety
  imports Plist_Parser
begin

text \<open>
  The parser on arbitrary bytes. \<open>parsed\<close> is the contract that all its routines share: on a text
  \<open>bs\<close> that fills the rest of the buffer up to the final zero they return, with
  \<open>EFI_UNSUPPORTED\<close> or with a tag; they use up a part of the text, leave what follows it as it was,
  and keep the caches in order.
\<close>

section \<open>The contract\<close>

definition parsed :: "byte list \<Rightarrow> byte list \<Rightarrow> (tag_struct \<times> nat) outcome \<Rightarrow> bool" where
  "parsed pre bs r \<longleftrightarrow>
     (case r of
        Failed Status st \<Rightarrow> Status = EFI_UNSUPPORTED \<and> cache_ok (cache st)
      | Done (t, n) st \<Rightarrow> sound_tag t \<and> cache_ok (cache st) \<and>
          (\<exists>used rest c. bs = used @ rest \<and> n = length used \<and> mem st = pre @ c @ rest @ [0] \<and> length c = n)
      | Fault \<Rightarrow> False
      | Unfinished \<Rightarrow> False)"

lemma parsed_failed: "cache_ok (cache st) \<Longrightarrow> parsed pre bs (Failed EFI_UNSUPPORTED st)"
  by (simp add: parsed_def)

lemma parsed_done:
  "sound_tag t \<Longrightarrow> cache_ok (cache st) \<Longrightarrow> mem st = pre @ c @ rest @ [0] \<Longrightarrow> length c = length used \<Longrightarrow> bs = used @ rest \<Longrightarrow>
   parsed pre bs (Done (t, length used) st)"
  by (auto simp: parsed_def)

lemma parsed_fix:
  assumes m: "mem st = pre @ bs @ [0]" "0 \<notin> set bs" "length (mem st) < 2 ^ 32" and c: "cache_ok (cache st)"
    and f: "\<And>used c rest. bs = used @ rest \<Longrightarrow> cut used c \<Longrightarrow> 0 \<in> set c \<Longrightarrow> length c = length used \<Longrightarrow>
      FixDataMatchingTag (length pre) tag st = Done (length used) (st\<lparr>mem := pre @ c @ rest @ [0]\<rparr>) \<Longrightarrow>
      parsed pre bs (f (length used) (st\<lparr>mem := pre @ c @ rest @ [0]\<rparr>))"
  shows "parsed pre bs (and_then (FixDataMatchingTag (length pre) tag st) f)"
proof (cases rule: fix_general [OF m, of tag])
  case (1 m')
  then show ?thesis using c by (simp add: parsed_failed)
next
  case (2 used c rest)
  then show ?thesis using f [OF 2] by simp
qed

lemma c_string_first: "0 \<in> set c \<Longrightarrow> c_string (c @ d) = c_string c \<and> length (c_string c) < length c \<and> 0 \<notin> set (c_string c)"
proof -
  assume "0 \<in> set c"
  then obtain x y where c: "c = x @ 0 # y" "0 \<notin> set x" using split_list_first by metis
  then show ?thesis by (simp add: c_string_text)
qed

lemma cstring_at_first: "0 \<in> set c \<Longrightarrow> cstring_at (length pre) (st\<lparr>mem := pre @ c @ d\<rparr>) = c_string c"
  by (simp add: cstring_at_def c_string_first)

lemma parsed_string:
  assumes "good_pool (AllocatePool fw)" "sound s" "\<And>s'. sound s' \<Longrightarrow> parsed pre bs (f s')"
  shows "parsed pre bs (with_string fw v len s f)"
  using strncpy_sound [OF assms(1,2), of v len] assms(3) by (auto simp: with_string_def)

section \<open>Scalar tags\<close>

text \<open>The situation a routine starts in: the text \<open>bs\<close> at the offset \<open>length pre\<close>.\<close>

definition ready :: "firmware \<Rightarrow> byte list \<Rightarrow> byte list \<Rightarrow> pstate \<Rightarrow> bool" where
  "ready fw pre bs st \<longleftrightarrow> good_pool (AllocatePool fw) \<and> cache_ok (cache st) \<and>
     mem st = pre @ bs @ [0] \<and> 0 \<notin> set bs \<and> length (mem st) < 2 ^ 32"

lemma readyD:
  assumes "ready fw pre bs st"
  shows "good_pool (AllocatePool fw)" "cache_ok (cache st)" "mem st = pre @ bs @ [0]" "0 \<notin> set bs" "length (mem st) < 2 ^ 32"
  using assms by (auto simp: ready_def)

lemma fix_ready:
  assumes "ready fw pre bs st"
    and "\<And>used c rest. bs = used @ rest \<Longrightarrow> cut used c \<Longrightarrow> 0 \<in> set c \<Longrightarrow> length c = length used \<Longrightarrow>
      FixDataMatchingTag (length pre) tag st = Done (length used) (st\<lparr>mem := pre @ c @ rest @ [0]\<rparr>) \<Longrightarrow>
      parsed pre bs (f (length used) (st\<lparr>mem := pre @ c @ rest @ [0]\<rparr>))"
  shows "parsed pre bs (and_then (FixDataMatchingTag (length pre) tag st) f)"
  using parsed_fix [of st pre bs tag f] assms by (auto simp: ready_def)

lemma key_parsed:
  assumes r: "ready fw pre bs st"
  shows "parsed pre bs (ParseTagKey fw (length pre) st)"
  unfolding ParseTagKey_def
proof (rule fix_ready [OF r])
  fix used c rest :: "byte list"
  assume a: "bs = used @ rest" "0 \<in> set c" "length c = length used"
  let ?st = "st\<lparr>mem := pre @ c @ rest @ [0]\<rparr>"
  obtain t k where t: "TagKey_getEmptyTag (cache st) = (t, k)" by force
  then have "sound t" "cache_ok k" using getEmptyTag_ok(8) [OF readyD(2) [OF r]] by simp_all
  then show "parsed pre bs
      (let (tmpTag, c) = TagKey_getEmptyTag (cache ?st); value = cstring_at (length pre) ?st
       in with_string fw value (length value) tmpTag (\<lambda>s. Done (TagKey s, length used) (?st\<lparr>cache := c\<rparr>)))"
    using a by (simp add: t Let_def) (rule parsed_string [OF readyD(1) [OF r]], simp, rule parsed_done [where c = c and used = used and rest = rest]; simp)
qed

lemma date_parsed:
  assumes r: "ready fw pre bs st"
  shows "parsed pre bs (ParseTagDate fw (length pre) st)"
  unfolding ParseTagDate_def
proof (rule fix_ready [OF r])
  fix used c rest :: "byte list"
  assume a: "bs = used @ rest" "0 \<in> set c" "length c = length used"
  let ?st = "st\<lparr>mem := pre @ c @ rest @ [0]\<rparr>"
  obtain t k where t: "TagDate_getEmptyTag (cache st) = (t, k)" by force
  then have "sound t" "cache_ok k" using getEmptyTag_ok(4) [OF readyD(2) [OF r]] by simp_all
  then show "parsed pre bs
      (let (tmpTag, c) = TagDate_getEmptyTag (cache ?st)
       in with_string fw (cstring_at (length pre) ?st) (length used) tmpTag (\<lambda>s. Done (TagDate s, length used) (?st\<lparr>cache := c\<rparr>)))"
    using a by (simp add: t Let_def) (rule parsed_string [OF readyD(1) [OF r]], simp, rule parsed_done [where c = c and used = used and rest = rest]; simp)
qed

lemma string_parsed:
  assumes r: "ready fw pre bs st"
  shows "parsed pre bs (ParseTagString fw (length pre) st)"
  unfolding ParseTagString_def
proof (rule fix_ready [OF r])
  fix used c rest :: "byte list"
  assume a: "bs = used @ rest" "0 \<in> set c" "length c = length used"
  let ?st = "st\<lparr>mem := pre @ c @ rest @ [0]\<rparr>"
  obtain t k where t: "TagString_getEmptyTag (cache st) = (t, k)" by force
  then have k: "sound t" "cache_ok k" using getEmptyTag_ok(9) [OF readyD(2) [OF r]] by simp_all
  define v where "v = c_string c"
  obtain w n where w: "XMLDecode (Some v) (length v) (length v) = (w, n)" by force
  have "length w \<le> length v" using w xml_loop_inplace [of v "length v" "[]" "length v"]
    by (auto simp: XMLDecode_def split: prod.splits if_splits)
  then have len: "length w \<le> length c" using c_string_first [OF a(2), of "[]"] by (simp add: v_def)
  then have m: "take (length pre) (mem ?st) @ w @ drop (length pre + length w) (mem ?st) = pre @ (w @ drop (length w) c) @ rest @ [0]"
    by simp
  show "parsed pre bs
      (let (tmpTag, c) = TagString_getEmptyTag (cache ?st);
           value = cstring_at (length pre) ?st;
           (stored, outlen) = XMLDecode (Some value) (length value) (length value);
           st = ?st\<lparr>mem := take (length pre) (mem ?st) @ stored @ drop (length pre + length stored) (mem ?st)\<rparr>
       in with_string fw (cstring_at (length pre) st) outlen tmpTag (\<lambda>s. Done (TagString s, length used) (st\<lparr>cache := c\<rparr>)))"
    unfolding cstring_at_first [OF a(2)] v_def [symmetric]
    using k len a by (simp add: t w Let_def) (rule parsed_string [OF readyD(1) [OF r]], simp, rule parsed_done [where c = "w @ drop (length w) c" and used = used and rest = rest]; simp)
qed

lemma float_parsed:
  assumes r: "ready fw pre bs st"
  shows "parsed pre bs (ParseTagFloat fw (length pre) st)"
  unfolding ParseTagFloat_def
proof (rule fix_ready [OF r])
  fix used c rest :: "byte list"
  assume a: "bs = used @ rest" "0 \<in> set c" "length c = length used"
  let ?st = "st\<lparr>mem := pre @ c @ rest @ [0]\<rparr>"
  obtain t k where t: "TagFloat_getEmptyTag (cache st) = (t, k)" by force
  then have "cache_ok k" using getEmptyTag_ok(6) [OF readyD(2) [OF r]] by simp
  then show "parsed pre bs
      (let (tmpTag, c) = TagFloat_getEmptyTag (cache ?st); (Status, f) = AsciiStrToFloat fw (cstring_at (length pre) ?st) (stack_float fw)
       in Done (TagFloat f, length used) (?st\<lparr>cache := c\<rparr>))"
    using a by (cases "AsciiStrToFloat fw (cstring_at (length pre) ?st) (stack_float fw)")
      (simp add: t, rule parsed_done [where c = c and used = used and rest = rest]; simp)
qed

lemma decode_returns:
  assumes "good_pool (AllocatePool fw)"
  shows "\<exists>d n. Base64DecodeClover (AllocatePool fw) (Some v) = Some (d, n)"
proof (cases v)
  case Nil
  then show ?thesis by (simp add: Base64DecodeClover_def)
next
  case (Cons x xs)
  obtain b where "AllocatePool fw (length v) = Some b" "length b = length v" using assms by (auto simp: good_pool_def)
  then show ?thesis using base64_decode_stream [of "AllocatePool fw" v b] Cons by blast
qed

lemma data_parsed:
  assumes r: "ready fw pre bs st"
  shows "parsed pre bs (ParseTagData fw (length pre) st)"
  unfolding ParseTagData_def
proof (rule fix_ready [OF r])
  fix used c rest :: "byte list"
  assume a: "bs = used @ rest" "0 \<in> set c" "length c = length used"
  let ?st = "st\<lparr>mem := pre @ c @ rest @ [0]\<rparr>"
  obtain t k where t: "TagData_getEmptyTag (cache st) = (t, k)" by force
  then have k: "cache_ok k" using getEmptyTag_ok(3) [OF readyD(2) [OF r]] by simp
  obtain d n where "Base64DecodeClover (AllocatePool fw) (Some (cstring_at (length pre) ?st)) = Some (d, n)"
    using decode_returns [OF readyD(1) [OF r]] by blast
  then show "parsed pre bs
      (let (tmpTag, c) = TagData_getEmptyTag (cache ?st)
       in case Base64DecodeClover (AllocatePool fw) (Some (cstring_at (length pre) ?st)) of
            None \<Rightarrow> Fault
          | Some (dataPtr, dataLen) \<Rightarrow> Done (TagData (setDataValue dataPtr dataLen tmpTag), length used) (?st\<lparr>cache := c\<rparr>))"
    using a k by (simp add: t) (rule parsed_done [where c = c and used = used and rest = rest]; simp)
qed

lemma boolean_parsed:
  assumes r: "ready fw pre bs st"
  shows "parsed pre bs (ParseTagBoolean v st)"
proof -
  obtain t k where t: "TagBool_getEmptyTag (cache st) = (t, k)" by force
  then have "cache_ok k" using getEmptyTag_ok(2) [OF readyD(2) [OF r]] by simp
  then show ?thesis using readyD(3) [OF r] by (simp add: ParseTagBoolean_def t parsed_def)
qed

text \<open>An integer tag must not start with another tag than its end tag.\<close>

definition integer_content :: "byte list \<Rightarrow> bool" where
  "integer_content bs \<longleftrightarrow> bs = [] \<or> hd bs \<noteq> 0x3C \<or> take 10 bs = ascii ''</integer>''"

lemma end_of_integer: "ascii ''</integer>'' = 0x3C # 0x2F # ascii ''integer'' @ [0x3E]"
  by code_simp

lemma integer_tag: "0 \<notin> set (ascii ''integer'')" "0x3E \<notin> set (ascii ''integer'')"
  by code_simp+

lemma integer_start:
  assumes r: "ready fw pre bs st" and "integer_content bs" and b: "bs = used @ rest" "cut used c" "0 \<in> set c"
    and f: "FixDataMatchingTag (length pre) (ascii ''integer'') st = Done (length used) (st\<lparr>mem := pre @ c @ rest @ [0]\<rparr>)"
  shows "(pre @ c @ d) ! length pre \<noteq> 0x3C"
proof -
  obtain x c' where c: "c = x # c'" using b(3) by (cases c) auto
  obtain y used' where u: "used = y # used'" "x = y \<or> x = 0" using b(2) c by (cases used) auto
  have "x \<noteq> 0x3C"
  proof (cases "y = 0x3C")
    case True
    then have "take 10 bs = ascii ''</integer>''" using assms(2) b(1) u by (simp add: integer_content_def)
    then have "bs = 0x3C # 0x2F # ascii ''integer'' @ 0x3E # drop 10 bs"
      using append_take_drop_id [of 10 bs] by (simp add: end_of_integer)
    then have "mem st = pre @ [] @ 0x3C # 0x2F # ascii ''integer'' @ 0x3E # drop 10 bs @ [0]"
      using readyD(3) [OF r] by simp
    from fix_found [OF this _ _ integer_tag readyD(5) [OF r]] f c show ?thesis by (auto dest: arg_cong [of _ _ mem])
  next
    case False
    then show ?thesis using u by auto
  qed
  then show ?thesis by (simp add: c nth_append)
qed

lemma integer_parsed:
  assumes r: "ready fw pre bs st" and i: "integer_content bs"
  shows "parsed pre bs (ParseTagInteger fw (length pre) lenPtr st)"
  unfolding ParseTagInteger_def
proof (rule fix_ready [OF r])
  fix used c rest :: "byte list"
  assume a: "bs = used @ rest" "cut used c" "0 \<in> set c" "length c = length used"
    "FixDataMatchingTag (length pre) (ascii ''integer'') st = Done (length used) (st\<lparr>mem := pre @ c @ rest @ [0]\<rparr>)"
  let ?st = "st\<lparr>mem := pre @ c @ rest @ [0]\<rparr>"
  obtain t k where t: "TagInt64_getEmptyTag (cache st) = (t, k)" by force
  then have k: "cache_ok k" "cache_ok (TagInt64_ReleaseTag 0 k)"
    using getEmptyTag_ok(7) [OF readyD(2) [OF r]] by (simp_all add: ReleaseTag_defs cache_ok_def)
  have t': "TagInt64_getEmptyTag (cache ?st) = (t, k)" using t by simp
  have n: "mem ?st ! length pre \<noteq> 0x3C" using integer_start [OF r i a(1-3) a(5)] by simp
  have fin: "parsed pre bs (case v of
      None \<Rightarrow> Failed EFI_UNSUPPORTED (?st\<lparr>cache := TagInt64_ReleaseTag 0 k\<rparr>)
    | Some integer \<Rightarrow> Done (TagInt64 integer, length used) (?st\<lparr>cache := k\<rparr>))" for v
    using k a(1,4) parsed_done [where c = c and used = used and rest = rest] by (cases v) (simp_all add: parsed_failed)
  show "parsed pre bs
      (let (tmpTag, c) = TagInt64_getEmptyTag (cache ?st);
           finish = (\<lambda>r. case r of
               None \<Rightarrow> Failed EFI_UNSUPPORTED (?st\<lparr>cache := TagInt64_ReleaseTag 0 c\<rparr>)
             | Some integer \<Rightarrow> Done (TagInt64 integer, length used) (?st\<lparr>cache := c\<rparr>))
       in if mem ?st ! length pre = 0x3C then Done (TagInt64 0, lenPtr) (?st\<lparr>cache := c\<rparr>)
          else if length used > 1 \<and> (mem ?st ! (length pre + 1) = 0x78 \<or> mem ?st ! (length pre + 1) = 0x58)
          then finish (hex_loop (cstring_at (length pre + 2) ?st) 0)
          else if length used \<noteq> 0 then
            (if mem ?st ! length pre = 0x2D then finish (map_option uminus (decimal_loop (length used - 1) (cstring_at (length pre + 1) ?st) 0))
             else finish (decimal_loop (length used) (cstring_at (length pre) ?st) 0))
          else finish (Some 0))"
    unfolding t' Let_def prod.case if_not_P [OF n] using fin by (simp only: split: if_split) blast
qed

section \<open>The recursion\<close>

text \<open>The condition on integers, for every tag of the text\<close>

fun integers_ok :: "byte list \<Rightarrow> bool" where
  "integers_ok [] = True"
| "integers_ok (b # bs) =
     ((b = 0x3C \<and> tag_kind (takeWhile (\<lambda>x. x \<noteq> 0x3E) bs) = kInteger \<longrightarrow>
         integer_content (drop 1 (dropWhile (\<lambda>x. x \<noteq> 0x3E) bs))) \<and> integers_ok bs)"

lemma integers_ok_suffix: "integers_ok (xs @ ys) \<Longrightarrow> integers_ok ys"
  by (induction xs) auto

lemma integers_ok_here:
  assumes "integers_ok (gap @ 0x3C # name @ 0x3E # rest)" "0x3E \<notin> set name" "tag_kind name = kInteger"
  shows "integer_content rest"
proof -
  have "takeWhile (\<lambda>x. x \<noteq> 0x3E) (name @ 0x3E # rest) = name" "dropWhile (\<lambda>x. x \<noteq> 0x3E) (name @ 0x3E # rest) = 0x3E # rest"
    using assms(2) by (auto simp: takeWhile_append dropWhile_append)
  then show ?thesis using integers_ok_suffix [OF assms(1)] assms(3) by auto
qed

definition parsed_next :: "byte list \<Rightarrow> byte list \<Rightarrow> (tag_struct option \<times> nat) outcome \<Rightarrow> bool" where
  "parsed_next pre bs r \<longleftrightarrow>
     (case r of
        Failed Status st \<Rightarrow> Status = EFI_UNSUPPORTED \<and> cache_ok (cache st)
      | Done (t, n) st \<Rightarrow> pred_option sound_tag t \<and> cache_ok (cache st) \<and>
          (\<exists>used rest c. bs = used @ rest \<and> used \<noteq> [] \<and> n = length used \<and> mem st = pre @ c @ rest @ [0] \<and> length c = n)
      | Fault \<Rightarrow> False
      | Unfinished \<Rightarrow> False)"

definition parsed_list :: "byte list \<Rightarrow> byte list \<Rightarrow> byte list \<Rightarrow> (tag_struct list \<times> nat) outcome \<Rightarrow> bool" where
  "parsed_list pre seen bs r \<longleftrightarrow>
     (case r of
        Failed Status st \<Rightarrow> Status = EFI_UNSUPPORTED \<and> cache_ok (cache st)
      | Done (ts, n) st \<Rightarrow> list_all sound_tag ts \<and> cache_ok (cache st) \<and>
          (\<exists>used rest c. bs = used @ rest \<and> n = length seen + length used \<and> mem st = pre @ c @ rest @ [0] \<and> length c = n)
      | Fault \<Rightarrow> False
      | Unfinished \<Rightarrow> False)"

lemma parsed_next_done:
  "pred_option sound_tag t \<Longrightarrow> cache_ok (cache st) \<Longrightarrow> mem st = pre @ c @ rest @ [0] \<Longrightarrow> length c = length used \<Longrightarrow>
   bs = used @ rest \<Longrightarrow> used \<noteq> [] \<Longrightarrow> n = length used \<Longrightarrow> parsed_next pre bs (Done (t, n) st)"
  by (auto simp: parsed_next_def)

lemma parsed_list_done:
  "list_all sound_tag ts \<Longrightarrow> cache_ok (cache st) \<Longrightarrow> mem st = pre @ c @ rest @ [0] \<Longrightarrow> length c = length seen + length used \<Longrightarrow>
   bs = used @ rest \<Longrightarrow> n = length seen + length used \<Longrightarrow> parsed_list pre seen bs (Done (ts, n) st)"
  by (auto simp: parsed_list_def)

text \<open>After the opening tag \<open>gap < name >\<close>.\<close>

lemma parsed_ret:
  assumes "parsed (pre @ c0) rest r" "length c0 = pos" "bs = used0 @ rest" "length used0 = pos" "pos > 0" "length pre + length bs < 2 ^ 32"
  shows "parsed_next pre bs (and_then r (\<lambda>(t, len) st. Done (Some t, u32 (pos + len)) st))"
proof (cases r)
  case (Done x st)
  obtain t n where x: "x = (t, n)" by force
  obtain used rest' c where a: "rest = used @ rest'" "n = length used" "mem st = (pre @ c0) @ c @ rest' @ [0]" "length c = n"
    "sound_tag t" "cache_ok (cache st)"
    using assms(1) Done x by (auto simp: parsed_def)
  have "u32 (pos + n) = length (used0 @ used)" using a assms by simp
  moreover have "mem st = pre @ (c0 @ c) @ rest' @ [0]" "bs = (used0 @ used) @ rest'" "length (c0 @ c) = length (used0 @ used)" "used0 @ used \<noteq> []"
    using a assms by auto
  ultimately show ?thesis using a(5,6) Done x parsed_next_done [of "Some t" st pre "c0 @ c" rest' "used0 @ used" bs] by simp
qed (use assms(1) in \<open>auto simp: parsed_def parsed_next_def\<close>)

lemma list_step:
  assumes "parsed_next (pre @ seen) bs (Done (Some t, n) st)" "ready fw (pre @ seen) bs st0"
  obtains used rest c where "bs = used @ rest" "used \<noteq> []" "n = length used" "length c = n" "sound_tag t"
    "ready fw (pre @ seen @ c) rest st" "u32 (length seen + n) = length (seen @ c)"
proof -
  obtain used rest c where a: "bs = used @ rest" "used \<noteq> []" "n = length used" "mem st = (pre @ seen) @ c @ rest @ [0]"
    "length c = n" "sound_tag t" "cache_ok (cache st)"
    using assms(1) by (auto simp: parsed_next_def)
  have "ready fw (pre @ seen @ c) rest st" using a readyD [OF assms(2)] by (auto simp: ready_def)
  moreover have "u32 (length seen + n) = length (seen @ c)" using a readyD(3,5) [OF assms(2)] by simp
  ultimately show thesis using that a by blast
qed

lemma release_list: "cache_ok c \<Longrightarrow> list_all sound_tag ts \<Longrightarrow> \<exists>c'. ReleaseTag (dict_or_array arr ts) c = Some c' \<and> cache_ok c'"
  using release_ok(1) [of c "dict_or_array arr ts"] by (auto simp: dict_or_array_def returns_to_cache_def simp del: ReleaseTag.simps)

lemma list_loop_step:
  assumes N: "\<And>pre bs st. ready fw pre bs st \<Longrightarrow> integers_ok bs \<Longrightarrow> 2 * length bs + 1 \<le> fuel \<Longrightarrow>
      parsed_next pre bs (XMLParseNextTag fw fuel (length pre) None st)"
    and L: "\<And>seen bs ts st. ready fw (pre @ seen) bs st \<Longrightarrow> integers_ok bs \<Longrightarrow> 2 * length bs + 2 \<le> fuel \<Longrightarrow> list_all sound_tag ts \<Longrightarrow>
      parsed_list pre seen bs (list_loop fw fuel arr (length pre) (length seen) ts st)"
    and r: "ready fw (pre @ seen) bs st" "integers_ok bs" "2 * length bs + 2 \<le> Suc fuel" "list_all sound_tag ts"
  shows "parsed_list pre seen bs (list_loop fw (Suc fuel) arr (length pre) (length seen) ts st)"
proof -
  let ?r = "XMLParseNextTag fw fuel (length pre + length seen) None st"
  have n: "parsed_next (pre @ seen) bs ?r" using N [OF r(1,2)] r(3) by simp
  show ?thesis
  proof (cases ?r)
    case (Failed Status st')
    then show ?thesis using n release_list [of "cache st'" ts arr] r(4) by (auto simp: parsed_next_def parsed_list_def)
  next
    case (Done x st')
    obtain t k where x: "x = (t, k)" by force
    show ?thesis
    proof (cases t)
      case None
      obtain used rest c where a: "bs = used @ rest" "k = length used" "mem st' = (pre @ seen) @ c @ rest @ [0]" "length c = k" "cache_ok (cache st')"
        using n Done x None by (auto simp: parsed_next_def)
      have "u32 (length seen + k) = length seen + length used" using a readyD(3,5) [OF r(1)] by simp
      then have "parsed_list pre seen bs (Done (ts, u32 (length seen + k)) st')"
        using a r(4) by (intro parsed_list_done [where c = "seen @ c" and used = used and rest = rest]) auto
      then show ?thesis using Done x None by simp
    next
      case (Some u)
      obtain used rest c where a: "bs = used @ rest" "used \<noteq> []" "k = length used" "length c = k" "sound_tag u"
        "ready fw (pre @ seen @ c) rest st'" "u32 (length seen + k) = length (seen @ c)"
        using list_step [of pre seen bs u k st' fw st] n Done x Some r(1) by auto
      have "parsed_list pre (seen @ c) rest (list_loop fw fuel arr (length pre) (length (seen @ c)) (ts @ [u]) st')"
        using L [of "seen @ c" rest st' "ts @ [u]"] a r integers_ok_suffix [of used rest] by (cases used) auto
      then have "parsed_list pre seen bs (list_loop fw fuel arr (length pre) (length (seen @ c)) (ts @ [u]) st')"
        using a(1,3,4) unfolding parsed_list_def by (auto split: outcome.splits) (metis append_assoc length_append)
      then show ?thesis using Done x Some a(7) by simp
    qed
  qed (use n in \<open>auto simp: parsed_next_def\<close>)
qed

lemma ParseTagList_step:
  assumes L: "\<And>seen bs ts st. ready fw (pre @ seen) bs st \<Longrightarrow> integers_ok bs \<Longrightarrow> 2 * length bs + 2 \<le> fuel \<Longrightarrow> list_all sound_tag ts \<Longrightarrow>
      parsed_list pre seen bs (list_loop fw fuel arr (length pre) (length seen) ts st)"
    and r: "ready fw pre bs st" "integers_ok bs" "2 * length bs + 3 \<le> Suc fuel"
  shows "parsed pre bs (ParseTagList fw (Suc fuel) arr (length pre) e st)"
proof -
  obtain ts k where t: "(if arr then TagArray_getEmptyTag (cache st) else TagDict_getEmptyTag (cache st)) = (ts, k)" by force
  have k: "ts = []" "cache_ok k" using t getEmptyTag_ok(1,5) [OF readyD(2) [OF r(1)]] by (auto split: if_splits)
  have r': "ready fw (pre @ []) bs (st\<lparr>cache := k\<rparr>)" using readyD [OF r(1)] k by (simp add: ready_def)
  have s: "sound_tag (dict_or_array arr us) = list_all sound_tag us" for us by (simp add: dict_or_array_def)
  show ?thesis
  proof (cases e)
    case True
    then show ?thesis using t k readyD(3) [OF r(1)] by (simp add: s parsed_def)
  next
    case False
    have "parsed_list pre [] bs (list_loop fw fuel arr (length pre) 0 [] (st\<lparr>cache := k\<rparr>))"
      using L [OF r', of "[]"] r by simp
    then show ?thesis using t k False
      by (cases "list_loop fw fuel arr (length pre) 0 [] (st\<lparr>cache := k\<rparr>)") (auto simp: s parsed_def parsed_list_def, blast)
  qed
qed

lemma XMLParseNextTag_step:
  assumes P: "\<And>pre bs arr e st. ready fw pre bs st \<Longrightarrow> integers_ok bs \<Longrightarrow> 2 * length bs + 3 \<le> fuel \<Longrightarrow>
      parsed pre bs (ParseTagList fw fuel arr (length pre) e st)"
    and r: "ready fw pre bs st" "integers_ok bs" "2 * length bs + 1 \<le> Suc fuel"
  shows "parsed_next pre bs (XMLParseNextTag fw (Suc fuel) (length pre) None st)"
proof (cases rule: GetNextTag_cases [OF readyD(3,4) [OF r(1)]])
  case 1
  then show ?thesis using readyD(2) [OF r(1)] by (simp add: parsed_next_def)
next
  case (2 gap name rest)
  let ?pos = "length gap + length name + 2"
  let ?c = "gap @ 0x3C # name @ [0]"
  let ?st = "st\<lparr>mem := pre @ gap @ 0x3C # name @ 0 # rest @ [0]\<rparr>"
  have z: "0 \<notin> set gap" "0 \<notin> set name" "0 \<notin> set rest" using readyD(4) [OF r(1)] 2 by auto
  have g: "GetNextTag (length pre) st = Done (length pre + length gap + 1, length gap, ?pos) ?st"
    using GetNextTag_found [of st pre gap name "rest @ [0]"] 2 z readyD(3) [OF r(1)] by simp
  have n: "cstring_at (length pre + length gap + 1) ?st = name"
    by (rule cstring_at_cut [of _ "pre @ gap @ [0x3C]" name "rest @ [0]"]) (use z in auto)
  have r': "ready fw (pre @ ?c) rest ?st" using readyD [OF r(1)] 2 z by (simp add: ready_def)
  have i: "integers_ok rest" using integers_ok_suffix [of "gap @ 0x3C # name @ [0x3E]" rest] r(2) 2 by simp
  have b: "bs = (gap @ 0x3C # name @ [0x3E]) @ rest" "length ?c = ?pos" "length (gap @ 0x3C # name @ [0x3E]) = ?pos" "0 < ?pos"
    "length pre + length bs < 2 ^ 32"
    using 2 readyD(3,5) [OF r(1)] by auto
  have l: "length (pre @ ?c) = length pre + ?pos" by simp
  note ret = parsed_ret [OF _ b(2,1,3,4,5)]
  note list = P [OF r' i, unfolded l, THEN ret]
  have f: "2 * length rest + 3 \<le> fuel" using r(3) 2 by simp
  have none: "parsed_next pre bs (Done (None, ?pos) ?st)"
    by (rule parsed_next_done [where c = ?c and used = "gap @ 0x3C # name @ [0x3E]" and rest = rest])
      (use r' b in \<open>auto simp: ready_def\<close>)
  show ?thesis
  proof (cases "tag_kind name")
    case kInteger
    then have "integer_content rest" using integers_ok_here [of gap name rest] r(2) 2 by simp
    from integer_parsed [OF r' this, unfolded l, THEN ret] show ?thesis by (simp add: g n [simplified] kInteger Let_def)
  qed (use list [OF f] none key_parsed [OF r', unfolded l, THEN ret] string_parsed [OF r', unfolded l, THEN ret]
        float_parsed [OF r', unfolded l, THEN ret] data_parsed [OF r', unfolded l, THEN ret]
        date_parsed [OF r', unfolded l, THEN ret] boolean_parsed [OF r', THEN ret]
       in \<open>simp_all add: g n [simplified] Let_def\<close>)
qed

lemma parser_total:
  "(\<forall>pre bs st. ready fw pre bs st \<and> integers_ok bs \<and> 2 * length bs + 1 \<le> fuel \<longrightarrow>
      parsed_next pre bs (XMLParseNextTag fw fuel (length pre) None st)) \<and>
   (\<forall>pre bs arr e st. ready fw pre bs st \<and> integers_ok bs \<and> 2 * length bs + 3 \<le> fuel \<longrightarrow>
      parsed pre bs (ParseTagList fw fuel arr (length pre) e st)) \<and>
   (\<forall>pre seen bs arr ts st. ready fw (pre @ seen) bs st \<and> integers_ok bs \<and> 2 * length bs + 2 \<le> fuel \<and> list_all sound_tag ts \<longrightarrow>
      parsed_list pre seen bs (list_loop fw fuel arr (length pre) (length seen) ts st))"
proof (induction fuel)
  case (Suc fuel)
  then have N: "\<And>pre bs st. ready fw pre bs st \<Longrightarrow> integers_ok bs \<Longrightarrow> 2 * length bs + 1 \<le> fuel \<Longrightarrow>
      parsed_next pre bs (XMLParseNextTag fw fuel (length pre) None st)"
    and P: "\<And>pre bs arr e st. ready fw pre bs st \<Longrightarrow> integers_ok bs \<Longrightarrow> 2 * length bs + 3 \<le> fuel \<Longrightarrow>
      parsed pre bs (ParseTagList fw fuel arr (length pre) e st)"
    and L: "\<And>pre seen bs arr ts st. ready fw (pre @ seen) bs st \<Longrightarrow> integers_ok bs \<Longrightarrow> 2 * length bs + 2 \<le> fuel \<Longrightarrow> list_all sound_tag ts \<Longrightarrow>
      parsed_list pre seen bs (list_loop fw fuel arr (length pre) (length seen) ts st)"
    by blast+
  show ?case
    using XMLParseNextTag_step [OF P] ParseTagList_step [OF L] list_loop_step [OF N L] by blast
qed auto

lemma next_total:
  "ready fw pre bs st \<Longrightarrow> integers_ok bs \<Longrightarrow> 2 * length bs + 1 \<le> fuel \<Longrightarrow>
   parsed_next pre bs (XMLParseNextTag fw fuel (length pre) None st)"
  using parser_total [of fw fuel] by blast

section \<open>The whole file\<close>

definition xml_result :: "tag_struct outcome \<Rightarrow> bool" where
  "xml_result r \<longleftrightarrow>
     (case r of
        Failed Status st \<Rightarrow> Status = EFI_UNSUPPORTED \<and> cache_ok (cache st)
      | Done t st \<Rightarrow> (isDict t \<or> isArray t) \<and> sound_tag t \<and> cache_ok (cache st)
      | Fault \<Rightarrow> False
      | Unfinished \<Rightarrow> False)"

lemma xml_tag_loop_total:
  "ready fw pre bs st \<Longrightarrow> integers_ok bs \<Longrightarrow> 2 * length bs + 2 \<le> fuel \<Longrightarrow> xml_result (xml_tag_loop fw fuel (length pre) st)"
proof (induction fuel arbitrary: pre bs st)
  case (Suc fuel)
  let ?r = "XMLParseNextTag fw fuel (length pre) None st"
  have n: "parsed_next pre bs ?r" using next_total [OF Suc.prems(1,2)] Suc.prems(3) by simp
  show ?case
  proof (cases ?r)
    case (Done x st')
    obtain t k where x: "x = (t, k)" by force
    obtain used rest c where a: "bs = used @ rest" "used \<noteq> []" "k = length used" "mem st' = pre @ c @ rest @ [0]" "length c = k"
      "pred_option sound_tag t" "cache_ok (cache st')"
      using n Done x by (auto simp: parsed_next_def)
    have u: "u32 (length pre + k) = length (pre @ c)" using a readyD(3,5) [OF Suc.prems(1)] by simp
    have i: "integers_ok rest" "2 * length rest + 2 \<le> fuel"
      using integers_ok_suffix [of used rest] Suc.prems a by (cases used; simp)+
    have go: "xml_result (xml_tag_loop fw fuel (length (pre @ c)) (st'\<lparr>cache := d\<rparr>))" if "cache_ok d" for d
      using Suc.IH [OF _ i, of "pre @ c" "st'\<lparr>cache := d\<rparr>"] a readyD [OF Suc.prems(1)] that by (simp add: ready_def)
    show ?thesis
    proof (cases t)
      case None
      then show ?thesis using go [OF a(7)] Done x u by simp
    next
      case (Some v)
      obtain d where d: "ReleaseTag v (cache st') = Some d" "cache_ok d"
        using release_ok(1) [of "cache st'" v] a Some by (auto simp: returns_to_cache_def)
      then show ?thesis using go [OF d(2)] Done x u a Some by (auto simp: xml_result_def)
    qed
  qed (use n in \<open>auto simp: parsed_next_def xml_result_def\<close>)
qed simp

text \<open>The text the parser works on: a copy in which zeros have become blanks.\<close>

definition blanked :: "byte list \<Rightarrow> byte list" where
  "blanked bs = map (\<lambda>b. if b = 0 then 0x20 else b) bs"

lemma sound_dict: "sound_tag t \<Longrightarrow> pred_option (list_all sound_tag) (getDict t)"
  by (cases t) auto

section \<open>Properties\<close>

text \<open>
  C2: \<open>ParseXML\<close> on any file of less than four gigabytes, valid or not, in which no integer tag
  starts with another tag: the parser returns without an access outside its buffer and without
  running out of fuel; it either reports \<open>EFI_UNSUPPORTED\<close> or gives a dictionary of
  well-formed tags (null for an array), and it leaves the tag caches in order.
\<close>
theorem plist_parser_safe:
  assumes "good_pool (AllocatePool fw)" and "cache_ok c"
    and "sz = (if bufSize \<noteq> 0 then bufSize else length (c_string buffer))" and "sz \<le> length buffer" and "sz + 1 < 2 ^ 32"
    and "integers_ok (blanked (take sz buffer))"
  shows "(\<exists>st. ParseXML fw buffer True bufSize c = Failed EFI_UNSUPPORTED st \<and> cache_ok (cache st)) \<or>
    (\<exists>dict st. ParseXML fw buffer True bufSize c = Done dict st \<and> cache_ok (cache st) \<and> pred_option (list_all sound_tag) dict)"
proof -
  let ?m = "blanked (take sz buffer) @ [0]"
  let ?st = "\<lparr>mem = ?m, cache = c\<rparr>"
  let ?r = "xml_tag_loop fw (2 * length ?m + 2) 0 ?st"
  have len: "length (blanked (take sz buffer)) = sz" using assms(4) by (simp add: blanked_def)
  then have "ready fw [] (blanked (take sz buffer)) ?st" using assms by (auto simp: ready_def blanked_def)
  from xml_tag_loop_total [OF this assms(6), of "2 * length ?m + 2"] have x: "xml_result ?r" by simp
  have "u32 sz = sz" using assms(5) by simp
  then have s: "(if bufSize \<noteq> 0 then bufSize else u32 (length (c_string buffer))) = sz" using assms(3) by (auto split: if_splits)
  obtain b where b: "AllocatePool fw (sz + 1) = Some b" using assms(1) by (auto simp: good_pool_def)
  have "ParseXML fw buffer True bufSize c = and_then ?r (\<lambda>tag st. Done (if isDict tag then getDict tag else None) st)"
    using assms(4) b unfolding ParseXML_def s Let_def by (simp add: blanked_def)
  then show ?thesis using x sound_dict by (cases ?r) (auto simp: xml_result_def)
qed

definition test_firmware :: firmware where
  "test_firmware = \<lparr>AllocatePool = (\<lambda>n. Some (replicate n 0)), AsciiStrToFloat = (\<lambda>s f. (EFI_UNSUPPORTED, f)), stack_float = 0\<rparr>"

theorem plist_parser_safe_witness:
  "\<exists>st. ParseXML test_firmware (ascii ''<dict><key>a</key><integer>12a</integer></dict>'') True 0 no_tags = Failed EFI_UNSUPPORTED st
     \<and> cache_ok (cache st)"
proof -
  let ?b = "ascii ''<dict><key>a</key><integer>12a</integer></dict>''"
  have "good_pool (AllocatePool test_firmware)" "cache_ok no_tags"
    by (simp_all add: test_firmware_def good_pool_def no_tags_def cache_ok_def)
  moreover have "length ?b = 47" "length (c_string ?b) = 47" "integers_ok (blanked (take 47 ?b))"
    "\<not> (case ParseXML test_firmware ?b True 0 no_tags of Done _ _ \<Rightarrow> True | _ \<Rightarrow> False)" by code_simp+
  ultimately show ?thesis using plist_parser_safe [of test_firmware no_tags 47 0 ?b] by auto
qed

section \<open>Findings\<close>

text \<open>
  Without the condition on integers the parser leaves its buffer: the length of the opening tag,
  with the blanks in front of it, is counted twice.
\<close>

lemma integer_out_of_buffer:
  "ParseXML test_firmware (ascii ''                    <integer><a></integer>'') True 0 no_tags = Fault"
  by code_simp

text \<open>An unknown tag, a comment for example, ends the enclosing dictionary or array.\<close>

lemma comment_ends_dict:
  "case ParseXML test_firmware (ascii ''<dict><key>a</key><true/><!-- --><key>b</key><true/></dict>'') True 0 no_tags of
     Done dict st \<Rightarrow> map_option (map (map_tag data)) dict = Some [TagKey (ascii ''a''), TagBool True] | _ \<Rightarrow> False"
  by code_simp

text \<open>Attributes of a \<open>real\<close> tag are not recognised, because the comparison covers eight characters.\<close>

lemma real_with_attribute: "tag_kind (ascii ''real size=4'') = kUnknown" "tag_kind (ascii ''data size=4'') = kData"
  by code_simp+

end
