(* ===== verification/Plist_Printer.thy ===== *)
theory Plist_Printer
  imports Plist_Tags
begin

text \<open>
  Printing of property lists: the methods \<open>sprintf\<close> of the tag classes, which append the XML text
  of a tag to a string. \<open>S8Printf\<close> comes from the \<open>printf_lite\<close> library, which is not part of the
  repository: the texts it makes of \<open>%lld\<close> and \<open>%f\<close> are arguments of the model.
\<close>

section \<open>Operations\<close>

record printf_lite =
  print_lld :: "intn \<Rightarrow> byte list"
  print_f :: "32 word \<Rightarrow> byte list"

text \<open>\<open>for (size_t i = 0 ; i < (size_t)ident ; i++) *s += " ";\<close>\<close>

fun indent :: "pool \<Rightarrow> nat \<Rightarrow> xstring8 \<Rightarrow> xstring8 option" where
  "indent pool 0 s = Some s"
| "indent pool (Suc i) s = do { s \<leftarrow> strcat pool (Some [0x20]) s; indent pool i s }"

definition line :: "string \<Rightarrow> byte list" where
  "line t = ascii t @ [0x0A]"

definition TagBool_sprintf :: "pool \<Rightarrow> nat \<Rightarrow> bool \<Rightarrow> xstring8 \<Rightarrow> xstring8 option" where
  "TagBool_sprintf pool ident value s = do {
     s \<leftarrow> indent pool ident s;
     strcat pool (Some (if value then line ''<true/>'' else line ''<false/>'')) s
   }"

definition TagData_sprintf :: "pool \<Rightarrow> nat \<Rightarrow> byte list \<Rightarrow> xstring8 \<Rightarrow> xstring8 option" where
  "TagData_sprintf pool ident dataBuffer s = do {
     s \<leftarrow> indent pool ident s;
     s \<leftarrow> strcat pool (Some (line ''<data>'')) s;
     s \<leftarrow> (if length dataBuffer > 0 then
             (case base64_encode (\<lambda>n. pool n \<noteq> None) dataBuffer of (output, outputLen) \<Rightarrow> do {
                s \<leftarrow> indent pool ident s;
                strncat pool output outputLen s
              })
           else Some s);
     s \<leftarrow> indent pool ident s;
     strcat pool (Some (line ''</data>'')) s
   }"

definition TagDate_sprintf :: "pool \<Rightarrow> nat \<Rightarrow> xstring8 \<Rightarrow> xstring8 \<Rightarrow> xstring8 option" where
  "TagDate_sprintf pool ident str s = do { s \<leftarrow> indent pool ident s; strcat pool (Some (data str)) s }"

definition TagFloat_sprintf :: "printf_lite \<Rightarrow> pool \<Rightarrow> nat \<Rightarrow> 32 word \<Rightarrow> xstring8 \<Rightarrow> xstring8 option" where
  "TagFloat_sprintf pf pool ident value s = do { s \<leftarrow> indent pool ident s; strcat pool (Some (print_f pf value)) s }"

definition TagInt64_sprintf :: "printf_lite \<Rightarrow> pool \<Rightarrow> nat \<Rightarrow> intn \<Rightarrow> xstring8 \<Rightarrow> xstring8 option" where
  "TagInt64_sprintf pf pool ident value s = do {
     s \<leftarrow> indent pool ident s;
     s \<leftarrow> strcat pool (Some (ascii ''<integer>'')) s;
     s \<leftarrow> strcat pool (Some (print_lld pf value)) s;
     strcat pool (Some (line ''</integer>'')) s
   }"

definition TagKey_sprintf :: "pool \<Rightarrow> nat \<Rightarrow> xstring8 \<Rightarrow> xstring8 \<Rightarrow> xstring8 option" where
  "TagKey_sprintf pool ident str s = do {
     s \<leftarrow> indent pool ident s;
     s \<leftarrow> strcat pool (Some (ascii ''<key>'')) s;
     s \<leftarrow> strcat pool (Some (data str)) s;
     strcat pool (Some (line ''</key>'')) s
   }"

definition TagString_sprintf :: "pool \<Rightarrow> nat \<Rightarrow> xstring8 \<Rightarrow> xstring8 \<Rightarrow> xstring8 option" where
  "TagString_sprintf pool ident str s = do {
     s \<leftarrow> indent pool ident s;
     s \<leftarrow> strcat pool (Some (ascii ''<string>'')) s;
     s \<leftarrow> strcat pool (Some (data str)) s;
     strcat pool (Some (line ''</string>'')) s
   }"

text \<open>\<open>sprintf\<close> is the virtual call; the indentation is an \<open>unsigned int\<close>.\<close>

definition deeper :: "nat \<Rightarrow> nat" where
  "deeper ident = unat (word_of_nat (ident + 8) :: 32 word)"

function sprintf :: "printf_lite \<Rightarrow> pool \<Rightarrow> nat \<Rightarrow> tag_struct \<Rightarrow> xstring8 \<Rightarrow> xstring8 option"
  and TagArray_sprintf :: "printf_lite \<Rightarrow> pool \<Rightarrow> nat \<Rightarrow> tag_struct list \<Rightarrow> xstring8 \<Rightarrow> xstring8 option"
  and TagDict_sprintf :: "printf_lite \<Rightarrow> pool \<Rightarrow> nat \<Rightarrow> tag_struct list \<Rightarrow> xstring8 \<Rightarrow> xstring8 option"
  and sprintf_loop :: "printf_lite \<Rightarrow> pool \<Rightarrow> nat \<Rightarrow> tag_struct list \<Rightarrow> xstring8 \<Rightarrow> xstring8 option" where
  "sprintf pf pool ident (TagArray arrayContent) s = TagArray_sprintf pf pool ident arrayContent s"
| "sprintf pf pool ident (TagBool b) s = TagBool_sprintf pool ident b s"
| "sprintf pf pool ident (TagData d) s = TagData_sprintf pool ident d s"
| "sprintf pf pool ident (TagDate str) s = TagDate_sprintf pool ident str s"
| "sprintf pf pool ident (TagDict dictContent) s = TagDict_sprintf pf pool ident dictContent s"
| "sprintf pf pool ident (TagFloat f) s = TagFloat_sprintf pf pool ident f s"
| "sprintf pf pool ident (TagInt64 i) s = TagInt64_sprintf pf pool ident i s"
| "sprintf pf pool ident (TagKey str) s = TagKey_sprintf pool ident str s"
| "sprintf pf pool ident (TagString str) s = TagString_sprintf pool ident str s"
| "TagArray_sprintf pf pool ident arrayContent s = do {
     s \<leftarrow> indent pool ident s;
     s \<leftarrow> strcat pool (Some (line ''<array>'')) s;
     s \<leftarrow> sprintf_loop pf pool (deeper ident) arrayContent s;
     s \<leftarrow> indent pool ident s;
     strcat pool (Some (line ''</array>'')) s
   }"
| "TagDict_sprintf pf pool ident dictContent s = do {
     s \<leftarrow> indent pool ident s;
     s \<leftarrow> strcat pool (Some (line ''<dict>'')) s;
     s \<leftarrow> sprintf_loop pf pool (deeper ident) dictContent s;
     s \<leftarrow> indent pool ident s;
     strcat pool (Some (line ''</dict>'')) s
   }"
| "sprintf_loop pf pool ident [] s = Some s"
| "sprintf_loop pf pool ident (tag # tags) s =
     (case sprintf pf pool ident tag s of None \<Rightarrow> None | Some s \<Rightarrow> sprintf_loop pf pool ident tags s)"
  by pat_completeness auto
termination
  by (relation "measure (case_sum (case_sum (\<lambda>(_, _, _, t, _). 2 * size t) (\<lambda>(_, _, _, ts, _). 2 * size_list size ts + 1))
      (case_sum (\<lambda>(_, _, _, ts, _). 2 * size_list size ts + 1) (\<lambda>(_, _, _, ts, _). 2 * size_list size ts)))") auto

section \<open>The printed text\<close>

text \<open>\<open>core\<close> is the text of a tag from its \<open><\<close> to its \<open>>\<close>; \<open>printed\<close> adds the indentation and the newline.\<close>

abbreviation blanks :: "nat \<Rightarrow> byte list" where
  "blanks n \<equiv> replicate n 0x20"

fun core :: "printf_lite \<Rightarrow> nat \<Rightarrow> byte list tag \<Rightarrow> byte list" where
  "core pf n (TagBool b) = (if b then ascii ''<true/>'' else ascii ''<false/>'')"
| "core pf n (TagData d) = line ''<data>'' @ (if d = [] then [] else blanks n @ padded d) @ blanks n @ ascii ''</data>''"
| "core pf n (TagInt64 i) = ascii ''<integer>'' @ print_lld pf i @ ascii ''</integer>''"
| "core pf n (TagKey k) = ascii ''<key>'' @ k @ ascii ''</key>''"
| "core pf n (TagString k) = ascii ''<string>'' @ k @ ascii ''</string>''"
| "core pf n (TagArray ts) = line ''<array>'' @
     concat (map (\<lambda>t. blanks (deeper n) @ core pf (deeper n) t @ [0x0A]) ts) @ blanks n @ ascii ''</array>''"
| "core pf n (TagDict ts) = line ''<dict>'' @
     concat (map (\<lambda>t. blanks (deeper n) @ core pf (deeper n) t @ [0x0A]) ts) @ blanks n @ ascii ''</dict>''"
| "core pf n (TagDate k) = []"
| "core pf n (TagFloat f) = []"

definition printed :: "printf_lite \<Rightarrow> nat \<Rightarrow> byte list tag \<Rightarrow> byte list" where
  "printed pf n t = blanks n @ core pf n t @ [0x0A]"

text \<open>What \<open>printf\<close> promises for \<open>%lld\<close>: an optional sign and the decimal digits of the number.\<close>

definition prints_decimal :: "printf_lite \<Rightarrow> bool" where
  "prints_decimal pf \<longleftrightarrow>
     (\<forall>i. \<exists>ds. ds \<noteq> [] \<and> list_all InternalAsciiIsDecimalDigitCharacter ds \<and>
        numeral_value 10 decimal_digit ds = nat \<bar>sint i\<bar> \<and>
        print_lld pf i = (if sint i < 0 then 0x2D # ds else ds))"

text \<open>
  Tags that keep their contents when they are printed: strings of Unicode text without the
  characters XML reserves, which \<open>sprintf\<close> does not escape, and no dates and real numbers, which
  it prints without their tags.
\<close>

definition unicode_text :: "byte list \<Rightarrow> bool" where
  "unicode_text k \<longleftrightarrow> textual k \<and> list_all scalar (text_of k)"

fun printable :: "byte list tag \<Rightarrow> bool" where
  "printable (TagArray ts) = list_all printable ts"
| "printable (TagDict ts) = list_all printable ts"
| "printable (TagKey k) = (unicode_text k \<and> 0x3C \<notin> set k)"
| "printable (TagString k) = (unicode_text k \<and> 0x3C \<notin> set k \<and> 0x26 \<notin> set k)"
| "printable (TagDate k) = False"
| "printable (TagFloat f) = False"
| "printable _ = True"

section \<open>Appending\<close>

text \<open>\<open>adds s t r\<close>: the operation succeeded and its result holds the text of \<open>s\<close> followed by \<open>t\<close>.\<close>

definition adds :: "xstring8 \<Rightarrow> byte list \<Rightarrow> xstring8 option \<Rightarrow> bool" where
  "adds s t r \<longleftrightarrow> (\<exists>s' cs ds. r = Some s' \<and> represents s cs \<and> represents s' (cs @ ds) \<and> units utf8 ds = t)"

lemma scalar_decodable: "list_all scalar cs \<Longrightarrow> list_all decodable cs"
  using scalar_bounds by (auto simp: list_all_iff decodable_def)

lemma units_inject: "list_all scalar cs \<Longrightarrow> list_all scalar ds \<Longrightarrow> units utf8 cs = units utf8 ds \<Longrightarrow> cs = ds"
  by (metis scalar_decodable text_of_units)

lemma represents_unique: "represents s cs \<Longrightarrow> represents s ds \<Longrightarrow> cs = ds"
  by (metis represents_data represents_scalar units_inject)

lemma adds_strcat:
  assumes "good_pool pool" "represents s cs" "unicode_text t"
  shows "adds s t (strcat pool (Some t) s)"
  using strcat_text [OF assms(1,2), of "text_of t"] assms(2,3) unfolding adds_def unicode_text_def textual_def by metis

lemma adds_then:
  assumes "adds s t r" "\<And>s'. r = Some s' \<Longrightarrow> \<exists>cs. represents s' cs \<Longrightarrow> adds s' u (f s')"
  shows "adds s (t @ u) (Option.bind r f)"
proof -
  obtain s' cs ds where a: "r = Some s'" "represents s cs" "represents s' (cs @ ds)" "units utf8 ds = t"
    using assms(1) by (auto simp: adds_def)
  obtain s2 cs' es where b: "f s' = Some s2" "represents s' cs'" "represents s2 (cs' @ es)" "units utf8 es = u"
    using assms(2) [OF a(1)] a(3) by (auto simp: adds_def)
  have "cs' = cs @ ds" using represents_unique a(3) b(2) by blast
  then show ?thesis using a b unfolding adds_def
    by (intro exI [of _ s2] exI [of _ cs] exI [of _ "ds @ es"]) simp
qed

lemma adds_nothing: "represents s cs \<Longrightarrow> adds s [] (Some s)"
  unfolding adds_def by (rule exI [of _ s], rule exI [of _ cs], rule exI [of _ "[]"]) simp

lemma unicode_ascii: "plain_ascii t \<Longrightarrow> unicode_text t"
  using ascii_units [of t] text_of_units [of "map ucast t"] scalar_decodable [of "map ucast t"] textual_units [of "map ucast t"]
  by (simp add: unicode_text_def)

lemma adds_ascii: "good_pool pool \<Longrightarrow> \<exists>cs. represents s cs \<Longrightarrow> plain_ascii t \<Longrightarrow> adds s t (strcat pool (Some t) s)"
  using adds_strcat unicode_ascii by blast

lemma plain_blanks: "plain_ascii (blanks n)"
  by (induction n) (auto simp: plain_ascii_def)

lemma adds_indent: "good_pool pool \<Longrightarrow> \<exists>cs. represents s cs \<Longrightarrow> adds s (blanks n) (indent pool n s)"
proof (induction n arbitrary: s)
  case 0
  then show ?case using adds_nothing by auto
next
  case (Suc n)
  have "adds s ([0x20] @ blanks n) (Option.bind (strcat pool (Some [0x20]) s) (indent pool n))"
    using Suc plain_blanks [of 1] by (intro adds_then adds_ascii) auto
  then show ?case by simp
qed

lemma plain_lines:
  "plain_ascii (line ''<true/>'')" "plain_ascii (line ''<false/>'')" "plain_ascii (line ''<data>'')" "plain_ascii (line ''</data>'')"
  "plain_ascii (ascii ''<integer>'')" "plain_ascii (line ''</integer>'')" "plain_ascii (ascii ''<key>'')" "plain_ascii (line ''</key>'')"
  "plain_ascii (ascii ''<string>'')" "plain_ascii (line ''</string>'')" "plain_ascii (line ''<array>'')" "plain_ascii (line ''</array>'')"
  "plain_ascii (line ''<dict>'')" "plain_ascii (line ''</dict>'')"
  by code_simp+

lemma encoded_ascii: "plain_ascii (padded d)"
proof -
  have "list_all (\<lambda>b. b \<noteq> 0 \<and> b AND 0x80 = 0) encoding_table" by code_simp
  moreover have "length encoding_table = 64" by code_simp
  ultimately have c: "encode_char t k \<noteq> 0 \<and> encode_char t k AND 0x80 = 0" for t k
    using sextet_less [of "drop_bit (k * 6) t"] nth_mem [of _ encoding_table]
    by (auto simp: encode_char_def list_all_iff)
  then show ?thesis by (induction d rule: tail_bits.induct) (simp_all add: padded_simps plain_ascii_def)
qed

lemma adds_strncat:
  assumes "good_pool pool" "\<exists>cs. represents s cs" "plain_ascii t"
  shows "adds s t (strncat pool (Some t) (length t) s)"
proof -
  obtain cs where cs: "represents s cs" using assms(2) by blast
  show ?thesis
    using strncat_text [OF assms(1) cs, of "map ucast t" "length t"] ascii_units [OF assms(3)] cs unfolding adds_def by auto
qed

section \<open>Printing\<close>

lemma adds_unicode: "good_pool pool \<Longrightarrow> \<exists>cs. represents s cs \<Longrightarrow> unicode_text t \<Longrightarrow> adds s t (strcat pool (Some t) s)"
  using adds_strcat by blast

lemmas adds_rules = adds_then adds_unicode adds_indent plain_lines [THEN unicode_ascii]

lemma adds_data:
  assumes "good_pool pool" "\<exists>cs. represents s cs"
  shows "adds s (printed pf n (TagData d)) (TagData_sprintf pool n d s)"
proof -
  have ok: "(\<lambda>n. pool n \<noteq> None) m" for m using assms(1) by (auto simp: good_pool_def)
  have e: "base64_encode (\<lambda>n. pool n \<noteq> None) d = (Some (padded d), length (padded d))"
    using ok by (simp add: base64_encode_def padded_def [symmetric] length_padded)
  let ?f = "\<lambda>s. if length d > 0 then
             (case base64_encode (\<lambda>n. pool n \<noteq> None) d of (output, outputLen) \<Rightarrow> do {
                s \<leftarrow> indent pool n s;
                strncat pool output outputLen s
              })
           else Some s"
  have f: "adds s (if d = [] then [] else blanks n @ padded d) (?f s)" if "\<exists>cs. represents s cs" for s
    using that adds_nothing assms(1) unfolding e prod.case
    by (cases "d = []") (auto intro!: adds_then adds_indent adds_strncat encoded_ascii)
  have "adds s (blanks n @ line ''<data>'' @ (if d = [] then [] else blanks n @ padded d) @ blanks n @ line ''</data>'')
      (TagData_sprintf pool n d s)"
    unfolding TagData_sprintf_def using assms by (intro adds_rules f)
  then show ?thesis by (simp add: printed_def line_def)
qed

text \<open>The strings of the tags that are printed hold Unicode text.\<close>

lemma digits_plain:
  assumes "prints_decimal pf"
  shows "plain_ascii (print_lld pf i)"
proof -
  obtain ds where "list_all InternalAsciiIsDecimalDigitCharacter ds" "print_lld pf i = (if sint i < 0 then 0x2D # ds else ds)"
    using assms unfolding prints_decimal_def by blast
  then show ?thesis using digits_ascii(1) [of ds] by (simp add: plain_ascii_def)
qed

lemma sprintf_prints:
  "good_pool pool \<Longrightarrow> prints_decimal pf \<Longrightarrow> printable (map_tag data tag) \<Longrightarrow> \<exists>cs. represents s cs \<Longrightarrow>
    adds s (printed pf n (map_tag data tag)) (sprintf pf pool n tag s)"
  "good_pool pool \<Longrightarrow> prints_decimal pf \<Longrightarrow> list_all (\<lambda>t. printable (map_tag data t)) ts \<Longrightarrow> \<exists>cs. represents s cs \<Longrightarrow>
    adds s (printed pf n (map_tag data (TagArray ts))) (TagArray_sprintf pf pool n ts s)"
  "good_pool pool \<Longrightarrow> prints_decimal pf \<Longrightarrow> list_all (\<lambda>t. printable (map_tag data t)) ts \<Longrightarrow> \<exists>cs. represents s cs \<Longrightarrow>
    adds s (printed pf n (map_tag data (TagDict ts))) (TagDict_sprintf pf pool n ts s)"
  "good_pool pool \<Longrightarrow> prints_decimal pf \<Longrightarrow> list_all (\<lambda>t. printable (map_tag data t)) ts \<Longrightarrow> \<exists>cs. represents s cs \<Longrightarrow>
    adds s (concat (map (\<lambda>t. printed pf n (map_tag data t)) ts)) (sprintf_loop pf pool n ts s)"
proof (induction pf pool n tag s and pf pool n ts s and pf pool n ts s and pf pool n ts s
    rule: sprintf_TagArray_sprintf_TagDict_sprintf_sprintf_loop.induct)
  case (2 pf pool n b s)
  have "adds s (blanks n @ (if b then line ''<true/>'' else line ''<false/>'')) (TagBool_sprintf pool n b s)"
    unfolding TagBool_sprintf_def using 2 plain_lines by (intro adds_then adds_indent adds_ascii) auto
  then show ?case by (cases b) (simp_all add: printed_def line_def)
next
  case (3 pf pool n d s)
  then show ?case by (simp add: adds_data)
next
  case (7 pf pool n i s)
  have "adds s (blanks n @ ascii ''<integer>'' @ print_lld pf i @ line ''</integer>'') (TagInt64_sprintf pf pool n i s)"
    unfolding TagInt64_sprintf_def using 7 by (intro adds_rules unicode_ascii [OF digits_plain])
  then show ?case by (simp add: printed_def line_def)
next
  case (8 pf pool n str s)
  have "adds s (blanks n @ ascii ''<key>'' @ data str @ line ''</key>'') (TagKey_sprintf pool n str s)"
    unfolding TagKey_sprintf_def using 8 by (intro adds_rules) auto
  then show ?case by (simp add: printed_def line_def)
next
  case (9 pf pool n str s)
  have "adds s (blanks n @ ascii ''<string>'' @ data str @ line ''</string>'') (TagString_sprintf pool n str s)"
    unfolding TagString_sprintf_def using 9 by (intro adds_rules) auto
  then show ?case by (simp add: printed_def line_def)
next
  case (10 pf pool n ts s)
  have "adds s (blanks n @ line ''<array>'' @ concat (map (\<lambda>t. printed pf (deeper n) (map_tag data t)) ts) @ blanks n @ line ''</array>'')
      (TagArray_sprintf pf pool n ts s)"
    unfolding TagArray_sprintf.simps using 10 by (intro adds_rules) auto
  then show ?case by (simp add: printed_def line_def comp_def)
next
  case (11 pf pool n ts s)
  have "adds s (blanks n @ line ''<dict>'' @ concat (map (\<lambda>t. printed pf (deeper n) (map_tag data t)) ts) @ blanks n @ line ''</dict>'')
      (TagDict_sprintf pf pool n ts s)"
    unfolding TagDict_sprintf.simps using 11 by (intro adds_rules) auto
  then show ?case by (simp add: printed_def line_def comp_def)
next
  case (12 pf pool n s)
  then show ?case using adds_nothing by auto
next
  case (13 pf pool n tag tags s)
  have "adds s (printed pf n (map_tag data tag) @ concat (map (\<lambda>t. printed pf n (map_tag data t)) tags))
      (Option.bind (sprintf pf pool n tag s) (sprintf_loop pf pool n tags))"
    using 13 by (intro adds_then) auto
  then show ?case by (cases "sprintf pf pool n tag s") simp_all
qed (simp_all add: list_all_iff)

end
