(* ===== verification/Plist_Roundtrip.thy ===== *)
theory Plist_Roundtrip
  imports Plist_Safety Plist_Printer
begin

text \<open>
  Reading back what was printed: \<open>ParseXML\<close> applied to the text that \<open>sprintf\<close> makes of a
  dictionary gives the dictionary again, whatever the tag caches hold.
\<close>

section \<open>Exact parsing\<close>

text \<open>\<open>reads\<close>: on the text \<open>t\<close>, whatever follows it, the routine gives a tag with the contents \<open>v\<close> and uses up \<open>t\<close>.\<close>

definition reads :: "firmware \<Rightarrow> (nat \<Rightarrow> pstate \<Rightarrow> (tag_struct \<times> nat) outcome) \<Rightarrow> byte list \<Rightarrow> byte list tag \<Rightarrow> bool" where
  "reads fw parse t v \<longleftrightarrow>
     (\<forall>pre rest st. good_pool (AllocatePool fw) \<and> cache_ok (cache st) \<and> mem st = pre @ t @ rest \<and> length (mem st) < 2 ^ 32 \<longrightarrow>
       (\<exists>tag c st'. parse (length pre) st = Done (tag, length t) st' \<and> map_tag data tag = v \<and> cache_ok (cache st') \<and>
          mem st' = pre @ c @ rest \<and> length c = length t))"

definition end_tag :: "byte list \<Rightarrow> byte list" where
  "end_tag tag = 0x3C # 0x2F # tag @ [0x3E]"

definition plain_name :: "byte list \<Rightarrow> bool" where
  "plain_name tag \<longleftrightarrow> 0 \<notin> set tag \<and> 0x3E \<notin> set tag"

lemma readsI:
  assumes "plain_name tag" "0 \<notin> set k" "0x3C \<notin> set k"
    and "\<And>pre rest st. good_pool (AllocatePool fw) \<Longrightarrow> cache_ok (cache st) \<Longrightarrow>
      cstring_at (length pre) (st\<lparr>mem := pre @ k @ 0 # 0x2F # tag @ 0 # rest\<rparr>) = k \<Longrightarrow>
      \<exists>v' c st'. f (length pre) (length k + length tag + 3) (st\<lparr>mem := pre @ k @ 0 # 0x2F # tag @ 0 # rest\<rparr>) =
        Done (v', length k + length tag + 3) st' \<and> map_tag data v' = v \<and> cache_ok (cache st') \<and>
        mem st' = pre @ c @ rest \<and> length c = length k + length tag + 3"
  shows "reads fw (\<lambda>buffer st. and_then (FixDataMatchingTag buffer tag st) (f buffer)) (k @ end_tag tag) v"
  unfolding reads_def
proof (intro allI impI, elim conjE)
  fix pre rest :: "byte list" and st :: pstate
  assume a: "good_pool (AllocatePool fw)" "cache_ok (cache st)" "mem st = pre @ (k @ end_tag tag) @ rest" "length (mem st) < 2 ^ 32"
  let ?st = "st\<lparr>mem := pre @ k @ 0 # 0x2F # tag @ 0 # rest\<rparr>"
  have f: "FixDataMatchingTag (length pre) tag st = Done (length k + length tag + 3) ?st"
    by (rule fix_found) (use assms(1-3) a in \<open>auto simp: end_tag_def plain_name_def\<close>)
  have "cstring_at (length pre) ?st = k"
    by (rule cstring_at_cut [where rest = "0x2F # tag @ 0 # rest"]) (use assms(2) in auto)
  note g = assms(4) [OF a(1,2) this]
  have l: "length (k @ end_tag tag) = length k + length tag + 3" by (simp add: end_tag_def)
  show "\<exists>v' c st'. and_then (FixDataMatchingTag (length pre) tag st) (f (length pre)) =
      Done (v', length (k @ end_tag tag)) st' \<and> map_tag data v' = v \<and> cache_ok (cache st') \<and>
      mem st' = pre @ c @ rest \<and> length c = length (k @ end_tag tag)"
    unfolding l f and_then.simps by (rule g)
qed

lemma plain_names: "plain_name (ascii ''key'')" "plain_name (ascii ''string'')" "plain_name (ascii ''integer'')" "plain_name (ascii ''data'')"
  by code_simp+

lemma recode_textual: "textual k \<Longrightarrow> recode (length k) k = k"
  by (simp add: recode_def textual_def text_of_def)

lemma textual_no_zero: "textual k \<Longrightarrow> 0 \<notin> set k"
  using recode_no_zero [of "length k" k] by (simp add: recode_textual)

text \<open>The memory after the end tag has been cut off.\<close>

lemma cut_text: "pre @ k @ 0 # 0x2F # tag @ 0 # rest = pre @ (k @ 0 # 0x2F # tag @ [0]) @ rest"
  by simp

lemma key_reads:
  assumes "textual k" "0x3C \<notin> set k"
  shows "reads fw (ParseTagKey fw) (k @ end_tag (ascii ''key'')) (TagKey k)"
  unfolding ParseTagKey_def
proof (rule readsI [OF plain_names(1) textual_no_zero [OF assms(1)] assms(2)])
  fix pre rest :: "byte list" and st :: pstate
  let ?st = "st\<lparr>mem := pre @ k @ 0 # 0x2F # ascii ''key'' @ 0 # rest\<rparr>"
  assume a: "good_pool (AllocatePool fw)" "cache_ok (cache st)" "cstring_at (length pre) ?st = k"
  obtain t d where t: "TagKey_getEmptyTag (cache st) = (t, d)" by force
  then have d: "sound t" "cache_ok d" using getEmptyTag_ok(8) [OF a(2)] by simp_all
  obtain s where s: "strncpy (AllocatePool fw) (Some k) (length k) t = Some s" "data s = k"
    using strncpy_sound [OF a(1) d(1), of k "length k"] recode_textual [OF assms(1)] by auto
  show "\<exists>v' c st'. (let (tmpTag, c) = TagKey_getEmptyTag (cache ?st); v = cstring_at (length pre) ?st
       in with_string fw v (length v) tmpTag (\<lambda>s. Done (TagKey s, length k + length (ascii ''key'') + 3) (?st\<lparr>cache := c\<rparr>))) =
      Done (v', length k + length (ascii ''key'') + 3) st' \<and> map_tag data v' = TagKey k \<and> cache_ok (cache st') \<and>
      mem st' = pre @ c @ rest \<and> length c = length k + length (ascii ''key'') + 3"
    unfolding a(3) using t s d(2) cut_text [of pre k "ascii ''key''" rest]
    by (intro exI [of _ "TagKey s"] exI [of _ "k @ 0 # 0x2F # ascii ''key'' @ [0]"] exI [of _ "?st\<lparr>cache := d\<rparr>"])
      (simp add: with_string_def)
qed

lemma string_reads:
  assumes "textual k" "0x3C \<notin> set k" "0x26 \<notin> set k"
  shows "reads fw (ParseTagString fw) (k @ end_tag (ascii ''string'')) (TagString k)"
  unfolding ParseTagString_def
proof (rule readsI [OF plain_names(2) textual_no_zero [OF assms(1)] assms(2)])
  fix pre rest :: "byte list" and st :: pstate
  let ?st = "st\<lparr>mem := pre @ k @ 0 # 0x2F # ascii ''string'' @ 0 # rest\<rparr>"
  assume a: "good_pool (AllocatePool fw)" "cache_ok (cache st)" "cstring_at (length pre) ?st = k"
  obtain t d where t: "TagString_getEmptyTag (cache st) = (t, d)" by force
  then have d: "sound t" "cache_ok d" using getEmptyTag_ok(9) [OF a(2)] by simp_all
  obtain s where s: "strncpy (AllocatePool fw) (Some k) (length k) t = Some s" "data s = k"
    using strncpy_sound [OF a(1) d(1), of k "length k"] recode_textual [OF assms(1)] by auto
  have x: "XMLDecode (Some k) (length k) (length k) = (k, length k)"
    using xml_loop_verbatim [of k "[]" "length k" "[]" 0] assms(3) by (simp add: XMLDecode_def xml_loop_done)
  have m: "?st\<lparr>mem := take (length pre) (mem ?st) @ k @ drop (length pre + length k) (mem ?st)\<rparr> = ?st" by simp
  show "\<exists>v' c st'. (let (tmpTag, c) = TagString_getEmptyTag (cache ?st); v = cstring_at (length pre) ?st;
         (stored, outlen) = XMLDecode (Some v) (length v) (length v);
         st = ?st\<lparr>mem := take (length pre) (mem ?st) @ stored @ drop (length pre + length stored) (mem ?st)\<rparr>
       in with_string fw (cstring_at (length pre) st) outlen tmpTag
            (\<lambda>s. Done (TagString s, length k + length (ascii ''string'') + 3) (st\<lparr>cache := c\<rparr>))) =
      Done (v', length k + length (ascii ''string'') + 3) st' \<and> map_tag data v' = TagString k \<and> cache_ok (cache st') \<and>
      mem st' = pre @ c @ rest \<and> length c = length k + length (ascii ''string'') + 3"
    unfolding a(3) x Let_def prod.case m using t s d(2) cut_text [of pre k "ascii ''string''" rest] a(3)
    by (intro exI [of _ "TagString s"] exI [of _ "k @ 0 # 0x2F # ascii ''string'' @ [0]"] exI [of _ "?st\<lparr>cache := d\<rparr>"])
      (simp add: with_string_def)
qed

lemma boolean_reads: "reads fw (\<lambda>buffer. ParseTagBoolean b) [] (TagBool b)"
  unfolding reads_def
proof (intro allI impI, elim conjE)
  fix pre rest :: "byte list" and st :: pstate
  assume a: "cache_ok (cache st)" "mem st = pre @ [] @ rest"
  obtain t d where t: "TagBool_getEmptyTag (cache st) = (t, d)" by force
  then have "cache_ok d" using getEmptyTag_ok(2) [OF a(1)] by simp
  then show "\<exists>tag c st'. ParseTagBoolean b st = Done (tag, length []) st' \<and> map_tag data tag = TagBool b \<and> cache_ok (cache st') \<and>
      mem st' = pre @ c @ rest \<and> length c = length []"
    using t a(2) by (simp add: ParseTagBoolean_def)
qed

lemma digit_bounds: "InternalAsciiIsDecimalDigitCharacter b \<Longrightarrow> \<not> (b < 0x30 \<or> b > 0x39)"
  by (auto simp: InternalAsciiIsDecimalDigitCharacter_def)

lemma decimal_loop_digits:
  "list_all InternalAsciiIsDecimalDigitCharacter ds \<Longrightarrow> length ds \<le> n \<Longrightarrow>
   decimal_loop n ds (word_of_nat a) = Some (word_of_nat (foldl (\<lambda>n d. n * 10 + decimal_digit d) a ds))"
proof (induction ds arbitrary: n a)
  case Nil
  have "decimal_loop n [] i = Some i" for i by (induction n) simp_all
  then show ?case by simp
next
  case (Cons d ds)
  then obtain m where n: "n = Suc m" "length ds \<le> m" by (cases n) auto
  have "(word_of_nat a * 10 + (ucast d - 0x30) :: intn) = word_of_nat (a * 10 + decimal_digit d)"
    using Cons.prems ascii_digits.decimal_value [of d] by simp
  then show ?case using Cons n digit_bounds [of d] by (simp del: of_nat_add of_nat_mult)
qed

lemma decimal_value_loop:
  assumes "list_all InternalAsciiIsDecimalDigitCharacter ds" "length ds \<le> n"
  shows "decimal_loop n ds 0 = Some (word_of_nat (numeral_value 10 decimal_digit ds))"
  using decimal_loop_digits [OF assms, of 0] by (simp add: numeral_value_def)

lemma word_abs: "(word_of_nat (nat \<bar>sint i\<bar>) :: intn) = (if sint i < 0 then - i else i)"
proof -
  have "(word_of_int (sint i) :: intn) = i" by simp
  then show ?thesis by (auto simp: abs_if)
qed

text \<open>An integer as \<open>printf\<close> writes it is read by the decimal branch.\<close>

lemma integer_branch:
  assumes pf: "prints_decimal pf" and k: "k = print_lld pf i"
    and m: "mem st = pre @ k @ 0 # rest" and len: "length k < len"
  shows "mem st ! length pre \<noteq> 0x3C" "\<not> (mem st ! (length pre + 1) = 0x78 \<or> mem st ! (length pre + 1) = 0x58)"
    "(if mem st ! length pre = 0x2D then map_option uminus (decimal_loop (len - 1) (cstring_at (length pre + 1) st) 0)
      else decimal_loop len (cstring_at (length pre) st) 0) = Some i"
proof -
  obtain ds where ds: "ds \<noteq> []" "list_all InternalAsciiIsDecimalDigitCharacter ds"
    "numeral_value 10 decimal_digit ds = nat \<bar>sint i\<bar>" "k = (if sint i < 0 then 0x2D # ds else ds)"
    using pf k unfolding prints_decimal_def by blast
  obtain d es where d: "ds = d # es" using ds(1) by (cases ds) auto
  have dig: "\<forall>b. InternalAsciiIsDecimalDigitCharacter b \<longrightarrow> b \<noteq> 0 \<and> b \<noteq> 0x3C \<and> b \<noteq> 0x78 \<and> b \<noteq> 0x58 \<and> b \<noteq> 0x2D" by code_simp
  then have z: "0 \<notin> set ds" using ds(2) by (auto simp: list_all_iff)
  have all: "list_all (\<lambda>b. b \<noteq> 0x3C \<and> b \<noteq> 0x78 \<and> b \<noteq> 0x58) (k @ [0])"
    using dig ds(2,4) by (auto simp: list_all_iff)
  have n: "mem st ! (length pre + j) = (k @ [0]) ! j" if "j \<le> length k" for j
    using that by (auto simp: m nth_append)
  have k1: "1 \<le> length k" using ds(4) d by auto
  have at: "(k @ [0]) ! j \<noteq> 0x3C \<and> (k @ [0]) ! j \<noteq> 0x78 \<and> (k @ [0]) ! j \<noteq> 0x58" if "j \<le> length k" for j
    using all that unfolding list_all_length by simp
  show "mem st ! length pre \<noteq> 0x3C" using n [of 0] at [of 0] by simp
  show "\<not> (mem st ! (length pre + 1) = 0x78 \<or> mem st ! (length pre + 1) = 0x58)" using n [OF k1] at [OF k1] by simp
  show "(if mem st ! length pre = 0x2D then map_option uminus (decimal_loop (len - 1) (cstring_at (length pre + 1) st) 0)
      else decimal_loop len (cstring_at (length pre) st) 0) = Some i"
  proof (cases "sint i < 0")
    case True
    then have "cstring_at (length pre + 1) st = ds"
      using ds(4) z by (intro cstring_at_cut [of _ "pre @ [0x2D]" ds rest]) (auto simp: m)
    moreover have "decimal_loop (len - 1) ds 0 = Some (- i)"
      using decimal_value_loop [OF ds(2), of "len - 1"] len True ds(3,4) word_abs [of i] by simp
    ultimately show ?thesis using True n [of 0] ds(4) by simp
  next
    case False
    then have "cstring_at (length pre) st = ds" using ds(4) z m by (intro cstring_at_cut) auto
    moreover have "decimal_loop len ds 0 = Some i"
      using decimal_value_loop [OF ds(2), of len] len False ds(3,4) word_abs [of i] by simp
    moreover have "mem st ! length pre \<noteq> 0x2D" using False n [of 0] ds(2,4) d dig by auto
    ultimately show ?thesis by simp
  qed
qed

lemma integer_reads:
  assumes pf: "prints_decimal pf"
  shows "reads fw (\<lambda>buffer. ParseTagInteger fw buffer lenPtr) (print_lld pf i @ end_tag (ascii ''integer'')) (TagInt64 i)"
  unfolding ParseTagInteger_def
proof (rule readsI [OF plain_names(3)])
  let ?k = "print_lld pf i"
  have "list_all (\<lambda>b. b \<noteq> 0) ?k" using digits_plain [OF pf, of i] by (auto simp: plain_ascii_def list_all_iff)
  then show "0 \<notin> set ?k" by (auto simp: list_all_iff)
  show "0x3C \<notin> set ?k"
  proof -
    obtain ds where "list_all InternalAsciiIsDecimalDigitCharacter ds" "?k = (if sint i < 0 then 0x2D # ds else ds)"
      using pf unfolding prints_decimal_def by blast
    moreover have "\<forall>b. InternalAsciiIsDecimalDigitCharacter b \<longrightarrow> b \<noteq> 0x3C" by code_simp
    ultimately show ?thesis by (auto simp: list_all_iff)
  qed
  fix pre rest :: "byte list" and st :: pstate
  let ?n = "length ?k + length (ascii ''integer'') + 3"
  let ?st = "st\<lparr>mem := pre @ ?k @ 0 # 0x2F # ascii ''integer'' @ 0 # rest\<rparr>"
  assume a: "good_pool (AllocatePool fw)" "cache_ok (cache st)" "cstring_at (length pre) ?st = ?k"
  obtain t d where t: "TagInt64_getEmptyTag (cache st) = (t, d)" by force
  then have d: "cache_ok d" using getEmptyTag_ok(7) [OF a(2)] by simp
  have t': "TagInt64_getEmptyTag (cache ?st) = (t, d)" using t by simp
  have len: "length ?k < ?n" "?n \<noteq> 0" by simp_all
  note b = integer_branch [OF pf refl, of ?st pre i "0x2F # ascii ''integer'' @ 0 # rest" ?n]
  have m: "mem ?st = pre @ ?k @ 0 # 0x2F # ascii ''integer'' @ 0 # rest" by simp
  have x: "\<not> (?n > 1 \<and> (mem ?st ! (length pre + 1) = 0x78 \<or> mem ?st ! (length pre + 1) = 0x58))"
    using b(2) [OF m len(1)] by blast
  have pull: "(if p then f u else f v) = f (if p then u else v)" for p and f :: "intn option \<Rightarrow> (tag_struct \<times> nat) outcome" and u v
    by simp
  show "\<exists>v' c st'. (let (tmpTag, c) = TagInt64_getEmptyTag (cache ?st);
           finish = (\<lambda>r. case r of
               None \<Rightarrow> Failed EFI_UNSUPPORTED (?st\<lparr>cache := TagInt64_ReleaseTag 0 c\<rparr>)
             | Some integer \<Rightarrow> Done (TagInt64 integer, ?n) (?st\<lparr>cache := c\<rparr>))
       in if mem ?st ! length pre = 0x3C then Done (TagInt64 0, lenPtr) (?st\<lparr>cache := c\<rparr>)
          else if ?n > 1 \<and> (mem ?st ! (length pre + 1) = 0x78 \<or> mem ?st ! (length pre + 1) = 0x58)
          then finish (hex_loop (cstring_at (length pre + 2) ?st) 0)
          else if ?n \<noteq> 0 then
            (if mem ?st ! length pre = 0x2D then finish (map_option uminus (decimal_loop (?n - 1) (cstring_at (length pre + 1) ?st) 0))
             else finish (decimal_loop ?n (cstring_at (length pre) ?st) 0))
          else finish (Some 0)) =
      Done (v', ?n) st' \<and> map_tag data v' = TagInt64 i \<and> cache_ok (cache st') \<and> mem st' = pre @ c @ rest \<and> length c = ?n"
    unfolding t' Let_def prod.case if_not_P [OF b(1) [OF m len(1)]] if_P [OF len(2)] if_not_P [OF x] pull b(3) [OF m len(1)] option.case
    by (rule exI [of _ "TagInt64 i"], rule exI [of _ "?k @ 0 # 0x2F # ascii ''integer'' @ [0]"], rule exI [of _ "?st\<lparr>cache := d\<rparr>"])
      (simp add: d)
qed

text \<open>The lines between the data tags decode to the data: blanks and newlines are not in the alphabet.\<close>

definition data_lines :: "nat \<Rightarrow> byte list \<Rightarrow> byte list" where
  "data_lines n d = 0x0A # (if d = [] then [] else blanks n @ padded d) @ blanks n"

lemma fragments_blanks: "fragments (blanks n) = []"
proof -
  have "base64_decode_value 0x20 < 0" by code_simp
  then show ?thesis by (induction n) simp_all
qed

lemma data_lines_fragments: "fragments (data_lines n d) = fragments (padded d)"
proof -
  have "base64_decode_value 0x0A < 0" by code_simp
  then show ?thesis by (simp add: data_lines_def fragments_blanks padded_simps)
qed

lemma data_lines_plain: "0 \<notin> set (data_lines n d)" "0x3C \<notin> set (data_lines n d)"
proof -
  have "list_all (\<lambda>b. b \<noteq> 0 \<and> b \<noteq> 0x3C) encoding_table" by code_simp
  moreover have "length encoding_table = 64" by code_simp
  ultimately have c: "encode_char t k \<noteq> 0 \<and> encode_char t k \<noteq> 0x3C" for t k
    using sextet_less [of "drop_bit (k * 6) t"] nth_mem [of _ encoding_table]
    by (auto simp: encode_char_def list_all_iff)
  have "list_all (\<lambda>b. b \<noteq> 0 \<and> b \<noteq> 0x3C) (padded d)"
    by (induction d rule: tail_bits.induct) (simp_all add: padded_simps c)
  then have "list_all (\<lambda>b. b \<noteq> 0 \<and> b \<noteq> 0x3C) (data_lines n d)" by (auto simp: data_lines_def list_all_iff)
  then show "0 \<notin> set (data_lines n d)" "0x3C \<notin> set (data_lines n d)" by (auto simp: list_all_iff)
qed

lemma data_lines_decode:
  assumes "good_pool pool"
  shows "Base64DecodeClover pool (Some (data_lines n d)) = Some (if d = [] then None else Some d, length d)"
proof -
  obtain b where b: "pool (length (data_lines n d)) = Some b" "length b = length (data_lines n d)"
    using assms by (auto simp: good_pool_def)
  have "data_lines n d \<noteq> []" by (simp add: data_lines_def)
  from base64_decode_stream [of pool, OF b this] obtain out rest where
    dec: "Base64DecodeClover pool (Some (data_lines n d)) = Some (if out = [] then None else Some out, length out)"
    and bits: "concat (map bits8 out) @ rest = concat (map bits8 d) @ tail_bits d" "length rest < 8"
    unfolding data_lines_fragments padded_bits by blast
  have "out = d" using bytes_of_bits_unique [OF bits(1,2) length_tail_bits] .
  then show ?thesis using dec by simp
qed

lemma data_reads: "reads fw (ParseTagData fw) (data_lines n d @ end_tag (ascii ''data'')) (TagData d)"
  unfolding ParseTagData_def
proof (rule readsI [OF plain_names(4) data_lines_plain])
  fix pre rest :: "byte list" and st :: pstate
  let ?k = "data_lines n d" and ?e = "ascii ''data''"
  let ?st = "st\<lparr>mem := pre @ ?k @ 0 # 0x2F # ?e @ 0 # rest\<rparr>"
  assume a: "good_pool (AllocatePool fw)" "cache_ok (cache st)" "cstring_at (length pre) ?st = ?k"
  obtain t c where t: "TagData_getEmptyTag (cache st) = (t, c)" by force
  then have c: "cache_ok c" using getEmptyTag_ok(3) [OF a(2)] by simp
  show "\<exists>v' c st'. (let (tmpTag, c) = TagData_getEmptyTag (cache ?st)
       in case Base64DecodeClover (AllocatePool fw) (Some (cstring_at (length pre) ?st)) of
            None \<Rightarrow> Fault
          | Some (dataPtr, dataLen) \<Rightarrow>
              Done (TagData (setDataValue dataPtr dataLen tmpTag), length ?k + length ?e + 3) (?st\<lparr>cache := c\<rparr>)) =
      Done (v', length ?k + length ?e + 3) st' \<and> map_tag data v' = TagData d \<and> cache_ok (cache st') \<and>
      mem st' = pre @ c @ rest \<and> length c = length ?k + length ?e + 3"
    unfolding a(3) data_lines_decode [OF a(1)] using t c cut_text [of pre ?k ?e rest]
    by (intro exI [of _ "TagData d"] exI [of _ "?k @ 0 # 0x2F # ?e @ [0]"] exI [of _ "?st\<lparr>cache := c\<rparr>"])
      (simp add: setDataValue_def)
qed

section \<open>Opening tags\<close>

text \<open>\<open>XMLParseNextTag\<close>, possibly after some text that is no tag, gives a tag with the contents \<open>v\<close> and uses up \<open>t\<close>.\<close>

definition reads_next :: "firmware \<Rightarrow> nat \<Rightarrow> byte list \<Rightarrow> byte list tag \<Rightarrow> bool" where
  "reads_next fw fuel t v \<longleftrightarrow>
     (\<forall>pre gap rest st. cache_ok (cache st) \<and> mem st = pre @ gap @ t @ rest \<and> length (mem st) < 2 ^ 32 \<and>
        0 \<notin> set gap \<and> 0x3C \<notin> set gap \<longrightarrow>
       (\<exists>tag c st'. XMLParseNextTag fw fuel (length pre) None st = Done (Some tag, length gap + length t) st' \<and>
          map_tag data tag = v \<and> cache_ok (cache st') \<and> mem st' = pre @ c @ rest \<and> length c = length gap + length t))"

definition start_tag :: "byte list \<Rightarrow> byte list" where
  "start_tag name = 0x3C # name @ [0x3E]"

lemma nextI:
  assumes name: "plain_name name" and pool: "good_pool (AllocatePool fw)" and r: "\<And>pos. reads fw (parse pos) body v"
    and step: "\<And>buffer st tagName start pos st'. GetNextTag buffer st = Done (tagName, start, pos) st' \<Longrightarrow> cstring_at tagName st' = name \<Longrightarrow>
      XMLParseNextTag fw fuel buffer None st = and_then (parse pos (buffer + pos) st') (\<lambda>(t, len) st. Done (Some t, u32 (pos + len)) st)"
  shows "reads_next fw fuel (start_tag name @ body) v"
  unfolding reads_next_def
proof (intro allI impI, elim conjE)
  fix pre gap rest :: "byte list" and st :: pstate
  assume a: "cache_ok (cache st)" "mem st = pre @ gap @ (start_tag name @ body) @ rest" "length (mem st) < 2 ^ 32" "0 \<notin> set gap" "0x3C \<notin> set gap"
  let ?pos = "length gap + length name + 2" and ?pre = "pre @ gap @ 0x3C # name @ [0]"
  let ?st = "st\<lparr>mem := pre @ gap @ 0x3C # name @ 0 # body @ rest\<rparr>"
  have g: "GetNextTag (length pre) st = Done (length pre + length gap + 1, length gap, ?pos) ?st"
    by (rule GetNextTag_found) (use a name in \<open>auto simp: start_tag_def plain_name_def\<close>)
  have n: "cstring_at (length pre + length gap + 1) ?st = name"
    by (rule cstring_at_cut [of _ "pre @ gap @ [0x3C]" name "body @ rest"]) (use name in \<open>auto simp: plain_name_def\<close>)
  have l: "length ?pre = length pre + ?pos" "length (mem ?st) < 2 ^ 32" "cache_ok (cache ?st)" "mem ?st = ?pre @ body @ rest"
    using a by (simp_all add: start_tag_def)
  obtain tag c st' where t: "parse ?pos (length ?pre) ?st = Done (tag, length body) st'" "map_tag data tag = v" "cache_ok (cache st')"
    "mem st' = ?pre @ c @ rest" "length c = length body"
    using r [of ?pos] pool l(2-4) unfolding reads_def by blast
  have u: "u32 (?pos + length body) = length gap + length (start_tag name @ body)" using a(2,3) by (simp add: start_tag_def)
  have "XMLParseNextTag fw fuel (length pre) None st = Done (Some tag, length gap + length (start_tag name @ body)) st'"
    using t(1) u unfolding step [OF g n] l(1) by simp
  then show "\<exists>tag c st'. XMLParseNextTag fw fuel (length pre) None st = Done (Some tag, length gap + length (start_tag name @ body)) st' \<and>
      map_tag data tag = v \<and> cache_ok (cache st') \<and> mem st' = pre @ c @ rest \<and> length c = length gap + length (start_tag name @ body)"
    using t by (intro exI [of _ tag] exI [of _ "gap @ 0x3C # name @ 0 # c"] exI [of _ st']) (simp add: start_tag_def)
qed

lemma plain_starts:
  "plain_name (ascii ''true/'')" "plain_name (ascii ''false/'')" "plain_name (ascii ''dict'')" "plain_name (ascii ''array'')"
  by code_simp+

lemma start_kinds:
  "tag_kind (ascii ''true/'') = kTrue" "tag_kind (ascii ''false/'') = kFalse" "tag_kind (ascii ''dict'') = kDict" "tag_kind (ascii ''array'') = kArray"
  "tag_kind (ascii ''key'') = kKey" "tag_kind (ascii ''string'') = kString" "tag_kind (ascii ''integer'') = kInteger" "tag_kind (ascii ''data'') = kData"
  "tag_kind (0x2F # ascii ''dict'') = kUnknown" "tag_kind (0x2F # ascii ''array'') = kUnknown"
  by code_simp+

lemma next_scalar:
  assumes "good_pool (AllocatePool fw)"
  shows "reads_next fw (Suc fuel) (start_tag (if b then ascii ''true/'' else ascii ''false/'')) (TagBool b)"
    and "reads_next fw (Suc fuel) (start_tag (ascii ''data'') @ data_lines n d @ end_tag (ascii ''data'')) (TagData d)"
    and "prints_decimal pf \<Longrightarrow> reads_next fw (Suc fuel) (start_tag (ascii ''integer'') @ print_lld pf i @ end_tag (ascii ''integer'')) (TagInt64 i)"
    and "textual k \<Longrightarrow> 0x3C \<notin> set k \<Longrightarrow> reads_next fw (Suc fuel) (start_tag (ascii ''key'') @ k @ end_tag (ascii ''key'')) (TagKey k)"
    and "textual k \<Longrightarrow> 0x3C \<notin> set k \<Longrightarrow> 0x26 \<notin> set k \<Longrightarrow>
      reads_next fw (Suc fuel) (start_tag (ascii ''string'') @ k @ end_tag (ascii ''string'')) (TagString k)"
proof -
  have "reads_next fw (Suc fuel) (start_tag (if b then ascii ''true/'' else ascii ''false/'') @ []) (TagBool b)"
    by (rule nextI [OF _ assms boolean_reads]) (cases b; simp add: plain_starts start_kinds)+
  then show "reads_next fw (Suc fuel) (start_tag (if b then ascii ''true/'' else ascii ''false/'')) (TagBool b)" by simp
qed (rule nextI [OF _ assms data_reads] nextI [OF _ assms integer_reads] nextI [OF _ assms key_reads] nextI [OF _ assms string_reads];
  simp add: plain_names start_kinds)+

section \<open>Lists\<close>

definition readable :: "firmware \<Rightarrow> byte list \<Rightarrow> byte list tag \<Rightarrow> bool" where
  "readable fw t v \<longleftrightarrow> t \<noteq> [] \<and> (\<forall>fuel > 2 * length t. reads_next fw fuel t v)"

text \<open>The lines of the elements, and everything up to the end of the list.\<close>

definition elements :: "(byte list tag \<Rightarrow> byte list) \<Rightarrow> nat \<Rightarrow> byte list tag list \<Rightarrow> byte list" where
  "elements f m ts = concat (map (\<lambda>t. blanks m @ f t @ [0x0A]) ts)"

definition closing :: "nat \<Rightarrow> byte list \<Rightarrow> byte list" where
  "closing n name = blanks n @ end_tag name"

lemma elements_simps [simp]:
  "elements f m [] = []" "elements f m (t # ts) = blanks m @ f t @ 0x0A # elements f m ts"
  by (simp_all add: elements_def)

lemma list_ends:
  assumes name: "plain_name name" "tag_kind (0x2F # name) = kUnknown"
    and m: "mem st = pre @ gap @ closing n name @ rest" "0 \<notin> set gap" "0x3C \<notin> set gap"
  shows "XMLParseNextTag fw (Suc fuel) (length pre) None st =
    Done (None, length (gap @ closing n name)) (st\<lparr>mem := pre @ (gap @ blanks n @ 0x3C # 0x2F # name @ [0]) @ rest\<rparr>)"
proof -
  let ?st = "st\<lparr>mem := pre @ (gap @ blanks n) @ 0x3C # (0x2F # name) @ 0 # rest\<rparr>"
  have "GetNextTag (length pre) st = Done (length pre + length (gap @ blanks n) + 1, length (gap @ blanks n), length (gap @ blanks n) + length (0x2F # name) + 2) ?st"
    by (rule GetNextTag_found) (use name m in \<open>auto simp: closing_def end_tag_def plain_name_def\<close>)
  moreover have "cstring_at (length pre + length (gap @ blanks n) + 1) ?st = 0x2F # name"
    by (rule cstring_at_cut [of _ "pre @ gap @ blanks n @ [0x3C]" "0x2F # name" rest]) (use name in \<open>auto simp: plain_name_def\<close>)
  ultimately show ?thesis using name(2) by (simp add: closing_def end_tag_def)
qed

lemma list_loop_reads:
  assumes "plain_name name" "tag_kind (0x2F # name) = kUnknown" "\<forall>t \<in> set ts. readable fw (f t) t"
    and "cache_ok (cache st)" "mem st = pre @ seen @ gap @ elements f m ts @ closing n name @ rest" "length (mem st) < 2 ^ 32"
    and "length seen = pos" "0 \<notin> set gap" "0x3C \<notin> set gap" "2 * length (gap @ elements f m ts @ closing n name) < fuel"
  shows "\<exists>us c st'. list_loop fw fuel arr (length pre) pos tags st = Done (tags @ us, pos + length (gap @ elements f m ts @ closing n name)) st' \<and>
    map (map_tag data) us = ts \<and> cache_ok (cache st') \<and> mem st' = pre @ seen @ c @ rest \<and>
    length c = length (gap @ elements f m ts @ closing n name)"
  using assms(3-)
proof (induction ts arbitrary: st seen gap pos tags fuel)
  case Nil
  obtain fu where fu: "fuel = Suc (Suc fu)" using Nil.prems(8) by (cases fuel; cases "fuel - 1") (auto simp: closing_def end_tag_def)
  have mm: "mem st = (pre @ seen) @ gap @ closing n name @ rest" using Nil.prems(3) by simp
  have e: "XMLParseNextTag fw (Suc fu) (length pre + pos) None st =
      Done (None, length (gap @ closing n name)) (st\<lparr>mem := (pre @ seen) @ (gap @ blanks n @ 0x3C # 0x2F # name @ [0]) @ rest\<rparr>)"
    using list_ends [OF assms(1,2) mm Nil.prems(6,7), of fw fu] Nil.prems(5) by simp
  have u: "u32 (pos + length (gap @ closing n name)) = pos + length (gap @ closing n name)"
    using Nil.prems(3-5) by simp
  show ?case unfolding fu list_loop.simps e using u Nil.prems(2)
    by (intro exI [of _ "[]"] exI [of _ "gap @ blanks n @ 0x3C # 0x2F # name @ [0]"]
        exI [of _ "st\<lparr>mem := (pre @ seen) @ (gap @ blanks n @ 0x3C # 0x2F # name @ [0]) @ rest\<rparr>"]) (simp add: closing_def end_tag_def)
next
  case (Cons t ts)
  obtain fu where fu: "fuel = Suc fu" using Cons.prems(8) by (cases fuel) auto
  let ?rest = "0x0A # elements f m ts @ closing n name @ rest" and ?gap = "gap @ blanks m"
  have t: "reads_next fw fu (f t) t" "f t \<noteq> []" using Cons.prems(1,8) fu unfolding readable_def by simp_all
  have "mem st = (pre @ seen) @ ?gap @ f t @ ?rest" "0 \<notin> set ?gap" "0x3C \<notin> set ?gap" using Cons.prems(3,6,7) by auto
  then obtain tag c st' where n: "XMLParseNextTag fw fu (length (pre @ seen)) None st = Done (Some tag, length ?gap + length (f t)) st'"
    "map_tag data tag = t" "cache_ok (cache st')" "mem st' = (pre @ seen) @ c @ ?rest" "length c = length ?gap + length (f t)"
    using t(1) Cons.prems(2,4) unfolding reads_next_def by blast
  let ?pos = "pos + (length ?gap + length (f t))"
  have "2 * length ([0x0A] @ elements f m ts @ closing n name) < fu" using Cons.prems(8) t(2) fu by (cases "f t") auto
  then
  have "\<exists>us d st2. list_loop fw fu arr (length pre) ?pos (tags @ [tag]) st' =
      Done ((tags @ [tag]) @ us, ?pos + length ([0x0A] @ elements f m ts @ closing n name)) st2 \<and>
      map (map_tag data) us = ts \<and> cache_ok (cache st2) \<and> mem st2 = pre @ (seen @ c) @ d @ rest \<and>
      length d = length ([0x0A] @ elements f m ts @ closing n name)"
    by (intro Cons.IH) (use Cons.prems n in auto)
  then obtain us d st2 where r: "list_loop fw fu arr (length pre) ?pos (tags @ [tag]) st' =
      Done ((tags @ [tag]) @ us, ?pos + length ([0x0A] @ elements f m ts @ closing n name)) st2"
    "map (map_tag data) us = ts" "cache_ok (cache st2)" "mem st2 = pre @ (seen @ c) @ d @ rest"
    "length d = length ([0x0A] @ elements f m ts @ closing n name)" by blast
  have u: "u32 ?pos = ?pos" using Cons.prems(3-5) by simp
  have x: "XMLParseNextTag fw fu (length pre + pos) None st = Done (Some tag, length ?gap + length (f t)) st'"
    using n(1) Cons.prems(5) by simp
  show ?case unfolding fu list_loop.simps x using r n u
    by (intro exI [of _ "tag # us"] exI [of _ "c @ d"] exI [of _ st2]) simp
qed

lemma list_reads:
  assumes "plain_name name" "tag_kind (0x2F # name) = kUnknown" "\<forall>t \<in> set ts. readable fw (f t) t"
    and "2 * length (elements f m ts @ closing n name) + 3 < fuel"
  shows "reads fw (\<lambda>buffer. ParseTagList fw fuel arr buffer False) (0x0A # elements f m ts @ closing n name)
    (if arr then TagArray ts else TagDict ts)"
  unfolding reads_def
proof (intro allI impI, elim conjE)
  fix pre rest :: "byte list" and st :: pstate
  let ?t = "0x0A # elements f m ts @ closing n name"
  assume a: "good_pool (AllocatePool fw)" "cache_ok (cache st)" "mem st = pre @ ?t @ rest" "length (mem st) < 2 ^ 32"
  obtain fu where fu: "fuel = Suc fu" using assms(4) by (cases fuel) auto
  obtain tags k where g: "(if arr then TagArray_getEmptyTag (cache st) else TagDict_getEmptyTag (cache st)) = (tags, k)" by force
  then have k: "tags = []" "cache_ok k" using getEmptyTag_ok(1,5) [OF a(2)] by (auto split: if_splits)
  have "\<exists>us c st'. list_loop fw fu arr (length pre) 0 [] (st\<lparr>cache := k\<rparr>) = Done ([] @ us, 0 + length ([0x0A] @ elements f m ts @ closing n name)) st' \<and>
      map (map_tag data) us = ts \<and> cache_ok (cache st') \<and> mem st' = pre @ [] @ c @ rest \<and>
      length c = length ([0x0A] @ elements f m ts @ closing n name)"
    by (rule list_loop_reads [OF assms(1-3)]) (use a k assms(4) fu in auto)
  then obtain us c st' where r: "list_loop fw fu arr (length pre) 0 [] (st\<lparr>cache := k\<rparr>) = Done (us, length ?t) st'"
    "map (map_tag data) us = ts" "cache_ok (cache st')" "mem st' = pre @ c @ rest" "length c = length ?t" by auto
  have "ParseTagList fw fuel arr (length pre) False st = Done (dict_or_array arr us, length ?t) st'"
    using r(1) k(1) unfolding fu ParseTagList.simps g by simp
  moreover have "map_tag data (dict_or_array arr us) = (if arr then TagArray ts else TagDict ts)"
    using r(2) by (simp add: dict_or_array_def)
  ultimately show "\<exists>tag c st'. ParseTagList fw fuel arr (length pre) False st = Done (tag, length ?t) st' \<and>
      map_tag data tag = (if arr then TagArray ts else TagDict ts) \<and> cache_ok (cache st') \<and> mem st' = pre @ c @ rest \<and> length c = length ?t"
    using r by (intro exI [of _ "dict_or_array arr us"] exI [of _ c] exI [of _ st']) simp
qed

section \<open>Whole tags\<close>

lemma literal_tags:
  "ascii ''<true/>'' = start_tag (ascii ''true/'')" "ascii ''<false/>'' = start_tag (ascii ''false/'')"
  "line ''<data>'' = start_tag (ascii ''data'') @ [0x0A]" "ascii ''</data>'' = end_tag (ascii ''data'')"
  "ascii ''<integer>'' = start_tag (ascii ''integer'')" "ascii ''</integer>'' = end_tag (ascii ''integer'')"
  "ascii ''<key>'' = start_tag (ascii ''key'')" "ascii ''</key>'' = end_tag (ascii ''key'')"
  "ascii ''<string>'' = start_tag (ascii ''string'')" "ascii ''</string>'' = end_tag (ascii ''string'')"
  "line ''<array>'' = start_tag (ascii ''array'') @ [0x0A]" "ascii ''</array>'' = end_tag (ascii ''array'')"
  "line ''<dict>'' = start_tag (ascii ''dict'') @ [0x0A]" "ascii ''</dict>'' = end_tag (ascii ''dict'')"
  by code_simp+

lemma core_forms:
  "core pf n (TagBool b) = start_tag (if b then ascii ''true/'' else ascii ''false/'')"
  "core pf n (TagData d) = start_tag (ascii ''data'') @ data_lines n d @ end_tag (ascii ''data'')"
  "core pf n (TagInt64 i) = start_tag (ascii ''integer'') @ print_lld pf i @ end_tag (ascii ''integer'')"
  "core pf n (TagKey k) = start_tag (ascii ''key'') @ k @ end_tag (ascii ''key'')"
  "core pf n (TagString k) = start_tag (ascii ''string'') @ k @ end_tag (ascii ''string'')"
  "core pf n (TagArray ts) = start_tag (ascii ''array'') @
     0x0A # elements (core pf (deeper n)) (deeper n) ts @ closing n (ascii ''array'')"
  "core pf n (TagDict ts) = start_tag (ascii ''dict'') @
     0x0A # elements (core pf (deeper n)) (deeper n) ts @ closing n (ascii ''dict'')"
  by (simp_all add: literal_tags data_lines_def elements_def closing_def)

lemma list_readable:
  assumes pool: "good_pool (AllocatePool fw)" and "\<forall>t \<in> set ts. readable fw (f t) t"
    and name: "name = (if arr then ascii ''array'' else ascii ''dict'')"
  shows "readable fw (start_tag name @ 0x0A # elements f m ts @ closing n name) (if arr then TagArray ts else TagDict ts)"
  unfolding readable_def
proof (intro conjI allI impI)
  show "start_tag name @ 0x0A # elements f m ts @ closing n name \<noteq> []" by simp
  fix fuel
  let ?body = "0x0A # elements f m ts @ closing n name"
  assume f: "2 * length (start_tag name @ ?body) < fuel"
  then obtain fu where fu: "fuel = Suc fu" by (cases fuel) auto
  have n: "plain_name name" "tag_kind (0x2F # name) = kUnknown" "tag_kind name = (if arr then kArray else kDict)"
    using plain_starts start_kinds unfolding name by auto
  have "2 * length (elements f m ts @ closing n name) + 3 < fu" using f fu by (simp add: start_tag_def)
  note r = list_reads [OF n(1,2) assms(2) this, of arr]
  show "reads_next fw fuel (start_tag name @ ?body) (if arr then TagArray ts else TagDict ts)"
    unfolding fu by (rule nextI [OF n(1) pool r]) (cases arr; simp add: n(3))
qed

lemma readableI: "t \<noteq> [] \<Longrightarrow> (\<And>fuel. reads_next fw (Suc fuel) t v) \<Longrightarrow> readable fw t v"
  unfolding readable_def by (metis gr0_conv_Suc gr_implies_not_zero neq0_conv)

lemma core_readable:
  assumes "good_pool (AllocatePool fw)" "prints_decimal pf"
  shows "printable v \<Longrightarrow> readable fw (core pf n v) v"
proof (induction v arbitrary: n)
  case (TagArray ts)
  then have "\<forall>t \<in> set ts. readable fw (core pf (deeper n) t) t" by (auto simp: list_all_iff)
  from list_readable [OF assms(1) this, of "ascii ''array''" True "deeper n" n] show ?case by (simp only: core_forms if_True refl simp_thms)
next
  case (TagDict ts)
  then have "\<forall>t \<in> set ts. readable fw (core pf (deeper n) t) t" by (auto simp: list_all_iff)
  from list_readable [OF assms(1) this, of "ascii ''dict''" False "deeper n" n] show ?case by (simp only: core_forms if_False refl simp_thms)
next
  case (TagBool b)
  show ?case unfolding core_forms by (rule readableI [OF _ next_scalar(1) [OF assms(1)]]) (simp add: start_tag_def)
next
  case (TagData d)
  show ?case unfolding core_forms by (rule readableI [OF _ next_scalar(2) [OF assms(1)]]) (simp add: start_tag_def)
next
  case (TagInt64 i)
  show ?case unfolding core_forms by (rule readableI [OF _ next_scalar(3) [OF assms]]) (simp add: start_tag_def)
next
  case (TagKey k)
  then show ?case unfolding core_forms
    by (intro readableI next_scalar(4) [OF assms(1)]) (auto simp: start_tag_def unicode_text_def)
next
  case (TagString k)
  then show ?case unfolding core_forms
    by (intro readableI next_scalar(5) [OF assms(1)]) (auto simp: start_tag_def unicode_text_def)
qed simp_all

section \<open>The whole file\<close>

lemma printed_dict:
  assumes "good_pool pool" "prints_decimal pf" "list_all printable (map (map_tag data) content)"
  shows "\<exists>s. sprintf pf pool 0 (TagDict content) new_xstring8 = Some s \<and>
    data s = core pf 0 (TagDict (map (map_tag data) content)) @ [0x0A] \<and> 0 \<notin> set (data s)"
proof -
  have "\<exists>cs. represents new_xstring8 cs" using new_represents by blast
  then have "adds new_xstring8 (printed pf 0 (map_tag data (TagDict content))) (sprintf pf pool 0 (TagDict content) new_xstring8)"
    using assms by (intro sprintf_prints) (auto simp: list_all_iff)
  then obtain s cs ds where s: "sprintf pf pool 0 (TagDict content) new_xstring8 = Some s" "represents new_xstring8 cs"
    "represents s (cs @ ds)" "units utf8 ds = printed pf 0 (map_tag data (TagDict content))"
    unfolding adds_def by blast
  have "cs = []" using represents_unique [OF s(2) new_represents] .
  then have d: "data s = units utf8 ds" "list_all scalar ds" using represents_data [OF s(3)] represents_scalar [OF s(3)] by simp_all
  have "textual (data s)" unfolding d(1) by (rule textual_units) (rule scalar_decodable [OF d(2)])
  from textual_no_zero [OF this] s(1,4) d(1) show ?thesis
    by (intro exI [of _ s]) (simp add: printed_def del: core.simps sprintf.simps)
qed

lemma ParseXML_reads:
  assumes pool: "good_pool (AllocatePool fw)" and c: "cache_ok c" and t: "readable fw t (TagDict vs)"
    and b: "buffer = t @ rest" "0 \<notin> set buffer" "length buffer + 1 < 2 ^ 32"
  shows "\<exists>content st. ParseXML fw buffer True 0 c = Done (Some content) st \<and> map (map_tag data) content = vs \<and> cache_ok (cache st)"
proof -
  let ?st = "\<lparr>mem = buffer @ [0], cache = c\<rparr>"
  obtain fu where fu: "2 * length (buffer @ [0]) + 2 = Suc fu" "fu > 2 * length t" using b(1) by simp
  have r: "reads_next fw fu t (TagDict vs)" using t fu(2) unfolding readable_def by blast
  note n = reads_next_def [THEN iffD1, OF r, THEN spec [of _ "[]"], THEN spec [of _ "[]"], THEN spec [of _ "rest @ [0]"], THEN spec [of _ ?st]]
  have "\<exists>tag st'. XMLParseNextTag fw fu 0 None ?st = Done (Some tag, length t) st' \<and> map_tag data tag = TagDict vs \<and> cache_ok (cache st')"
    using n b c by auto
  then obtain tag st' where x: "XMLParseNextTag fw fu 0 None ?st = Done (Some tag, length t) st'"
    "map_tag data tag = TagDict vs" "cache_ok (cache st')" by blast
  obtain content where tag: "tag = TagDict content" "map (map_tag data) content = vs" using x(2) by (cases tag) auto
  have s: "c_string buffer = buffer" "map (\<lambda>b. if b = 0 then 0x20 else b) buffer = buffer"
    using b(2) by (auto simp: c_string_def takeWhile_eq_all_conv intro!: map_idI)
  have u: "u32 (length buffer) = length buffer" using b(3) by simp
  obtain p where p: "AllocatePool fw (length buffer + 1) = Some p" using pool by (auto simp: good_pool_def)
  have "xml_tag_loop fw (2 * length (buffer @ [0]) + 2) 0 ?st = Done tag st'"
    using x(1) tag(1) unfolding fu(1) by simp
  then have "ParseXML fw buffer True 0 c = Done (Some content) st'"
    using p tag(1) unfolding ParseXML_def Let_def s u by (simp add: s(2))
  then show ?thesis using tag(2) x(3) by blast
qed

section \<open>Properties\<close>


text \<open>A \<open>printf\<close> that keeps the promise.\<close>

fun decimal :: "nat \<Rightarrow> byte list" where
  "decimal n = (if n < 10 then [0x30 + word_of_nat n] else decimal (n div 10) @ [0x30 + word_of_nat (n mod 10)])"

declare decimal.simps [simp del]

lemma decimal_char: "n < 10 \<Longrightarrow> InternalAsciiIsDecimalDigitCharacter (0x30 + word_of_nat n) \<and> decimal_digit (0x30 + word_of_nat n :: byte) = n"
proof -
  have "\<forall>n \<in> {..<10}. InternalAsciiIsDecimalDigitCharacter (0x30 + word_of_nat n) \<and> decimal_digit (0x30 + word_of_nat n :: byte) = n" by code_simp
  then show "n < 10 \<Longrightarrow> ?thesis" by blast
qed

lemma decimal_correct:
  "decimal n \<noteq> [] \<and> list_all InternalAsciiIsDecimalDigitCharacter (decimal n) \<and> numeral_value 10 decimal_digit (decimal n) = n"
proof (induction n rule: decimal.induct)
  case (1 n)
  then show ?case
    using decimal_char [of n] decimal_char [of "n mod 10"]
    by (subst (1 2 3) decimal.simps) (auto simp: numeral_value_def)
qed

definition test_printf :: printf_lite where
  "test_printf = \<lparr>print_lld = (\<lambda>i. if sint i < 0 then 0x2D # decimal (nat \<bar>sint i\<bar>) else decimal (nat \<bar>sint i\<bar>)), print_f = (\<lambda>f. [])\<rparr>"

lemma test_prints_decimal: "prints_decimal test_printf"
  unfolding prints_decimal_def test_printf_def using decimal_correct by fastforce

definition test_content :: "tag_struct list" where
  "test_content = [TagKey (xstring8_of_literal (ascii ''a'')), TagArray [TagInt64 (- 12), TagBool True], TagData [1, 2, 255]]"


section \<open>Findings\<close>

text \<open>Strings are printed as they are, so one that looks like an entity is read back as another string.\<close>

definition reread :: "tag_struct list \<Rightarrow> byte list tag list option" where
  "reread content =
     (case sprintf test_printf (AllocatePool test_firmware) 0 (TagDict content) new_xstring8 of
        None \<Rightarrow> None
      | Some s \<Rightarrow> (case ParseXML test_firmware (data s) True 0 no_tags of
            Done (Some content') st \<Rightarrow> Some (map (map_tag data) content') | _ \<Rightarrow> None))"

lemma string_not_escaped:
  "reread [TagKey (xstring8_of_literal (ascii ''k'')), TagString (xstring8_of_literal (ascii ''&amp;''))] =
     Some [TagKey (ascii ''k''), TagString (ascii ''&'')]"
  by code_simp

text \<open>A date is printed without its tag, so it is lost.\<close>

lemma date_without_tag:
  "reread [TagKey (xstring8_of_literal (ascii ''k'')), TagDate (xstring8_of_literal (ascii ''2020-01-01''))] = Some [TagKey (ascii ''k'')]"
  by code_simp

end
