(* ===== verification/Spec2Isabelle.thy ===== *)
theory Spec2Isabelle
  imports Clover_Prelude Base64_Codec Memory_Operation Unicode_Text X_String8_Text Xml_Entities Base_Ip Plist_Roundtrip
begin

text \<open>
  Verification of the Clover boot loader's own platform code.
\<close>

end
